(* ===== verification/Nexora_Prelude.thy ===== *)
theory Nexora_Prelude
  imports Main "HOL-Library.Word" "HOL-Library.Multiset" "HOL-Library.List_Lexorder"
    "HOL-Library.Product_Lexorder"
    "HOL-Library.Code_Target_Numeral"
begin

unbundle bit_operations_syntax

text \<open>
  Shared ground of the development: the names of Go's machine types, the result type of
  fallible functions (\<open>Inl\<close> an error, \<open>Inr\<close> a value) with its sequencing operators, the
  byte-order functions of \<open>encoding/binary\<close>, and the generic lemmas on lists, sums and words
  that the component theories use through their simp sets and collections.
\<close>

section \<open>Go's machine types\<close>

type_synonym byte = "8 word"
type_synonym u16 = "16 word"
type_synonym u32 = "32 word"
type_synonym u64 = "64 word"

named_theorems res_defs \<open>definitions of the result combinators\<close>
named_theorems be_simps \<open>big-endian encoding facts\<close>

section \<open>Results\<close>

text \<open>
  \<open>bindE m f\<close> is the Go idiom \<open>x, err := m; if err != nil { return err }; f(x)\<close>;
  \<open>requireE b e\<close> is \<open>if !b { return e }\<close>; \<open>eachE f xs\<close> is a \<open>for range\<close> loop that
  returns the first error.
\<close>

definition bindE :: "'e + 'a \<Rightarrow> ('a \<Rightarrow> 'e + 'b) \<Rightarrow> 'e + 'b" where
  "bindE m f = (case m of Inl e \<Rightarrow> Inl e | Inr x \<Rightarrow> f x)"

definition requireE :: "bool \<Rightarrow> 'e \<Rightarrow> 'e + unit" where
  "requireE b e = (if b then Inr () else Inl e)"

fun eachE :: "('a \<Rightarrow> 'e + unit) \<Rightarrow> 'a list \<Rightarrow> 'e + unit" where
  "eachE f [] = Inr ()"
| "eachE f (x # xs) = bindE (f x) (\<lambda>_. eachE f xs)"

fun mapE :: "('a \<Rightarrow> 'e + 'b) \<Rightarrow> 'a list \<Rightarrow> 'e + 'b list" where
  "mapE f [] = Inr []"
| "mapE f (x # xs) = bindE (f x) (\<lambda>y. bindE (mapE f xs) (\<lambda>ys. Inr (y # ys)))"

lemma bindE_simps [simp]:
  "bindE (Inl e) f = Inl e"
  "bindE (Inr x) f = f x"
  by (simp_all add: bindE_def)

lemma bindE_Inr_iff: "bindE m f = Inr y \<longleftrightarrow> (\<exists>x. m = Inr x \<and> f x = Inr y)"
  by (cases m) auto

lemma bindE_Inl_iff: "bindE m f = Inl e \<longleftrightarrow> m = Inl e \<or> (\<exists>x. m = Inr x \<and> f x = Inl e)"
  by (cases m) auto

lemma requireE_Inr_iff [simp]: "requireE b e = Inr u \<longleftrightarrow> b"
  by (simp add: requireE_def)

lemma requireE_simps [simp]: "requireE True e = Inr ()" "requireE False e = Inl e"
  by (simp_all add: requireE_def)

lemma requireE_cong: "b \<Longrightarrow> requireE b e = Inr ()"
  by simp

lemma eachE_Inr_iff: "eachE f xs = Inr u \<longleftrightarrow> (\<forall>x \<in> set xs. f x = Inr ())"
  by (induction xs) (auto simp: bindE_Inr_iff)

lemma mapE_Inr_iff: "mapE f xs = Inr ys \<longleftrightarrow> list_all2 (\<lambda>x y. f x = Inr y) xs ys"
proof (induction xs arbitrary: ys)
  case Nil
  show ?case by auto
next
  case (Cons x xs)
  show ?case by (cases ys) (auto simp: bindE_Inr_iff Cons.IH)
qed

lemma mapE_ok: "(\<And>x. x \<in> set xs \<Longrightarrow> f x = Inr (g x)) \<Longrightarrow> mapE f xs = Inr (map g xs)"
  by (induction xs) auto

section \<open>Big-endian integers\<close>

definition put_u16 :: "u16 \<Rightarrow> byte list" where
  "put_u16 w = [ucast (drop_bit 8 w), ucast w]"

definition put_u32 :: "u32 \<Rightarrow> byte list" where
  "put_u32 w = [ucast (drop_bit 24 w), ucast (drop_bit 16 w), ucast (drop_bit 8 w), ucast w]"

text \<open>
  \<open>binary.BigEndian.Uint16\<close> and \<open>Uint32\<close> panic on a slice that is too short; the value
  \<open>None\<close> stands for that panic.
\<close>

fun get_u16 :: "byte list \<Rightarrow> u16 option" where
  "get_u16 (a # b # _) = Some (push_bit 8 (ucast a) OR ucast b)"
| "get_u16 _ = None"

fun get_u32 :: "byte list \<Rightarrow> u32 option" where
  "get_u32 (a # b # c # d # _) =
     Some (push_bit 24 (ucast a) OR push_bit 16 (ucast b) OR push_bit 8 (ucast c) OR ucast d)"
| "get_u32 _ = None"

lemma length_put_u16 [simp]: "length (put_u16 w) = 2"
  by (simp add: put_u16_def)

lemma length_put_u32 [simp]: "length (put_u32 w) = 4"
  by (simp add: put_u32_def)

lemma get_put_u16 [simp, be_simps]: "get_u16 (put_u16 w @ rest) = Some w"
proof -
  have "push_bit 8 (ucast (ucast (drop_bit 8 w) :: byte)) OR ucast (ucast w :: byte) = w"
    by (rule bit_word_eqI) (auto simp: bit_simps)
  then show ?thesis by (simp add: put_u16_def)
qed

lemma get_put_u32 [simp, be_simps]: "get_u32 (put_u32 w @ rest) = Some w"
proof -
  let ?v = "push_bit 24 (ucast (ucast (drop_bit 24 w) :: byte)) OR
      push_bit 16 (ucast (ucast (drop_bit 16 w) :: byte)) OR
      push_bit 8 (ucast (ucast (drop_bit 8 w) :: byte)) OR ucast (ucast w :: byte) :: u32"
  have "?v = w"
  proof (rule bit_word_eqI)
    fix n assume "n < LENGTH(32)"
    then have n: "n < 32" by simp
    then consider "n < 8" | "8 \<le> n" "n < 16" | "16 \<le> n" "n < 24" | "24 \<le> n" "n < 32"
      by linarith
    then show "bit ?v n = bit w n"
      by cases (simp_all add: bit_simps less_diff_conv2)
  qed
  then show ?thesis by (simp add: put_u32_def)
qed

text \<open>The same in the other direction: four octets that were read are the encoding of the value.\<close>

lemma put_get_u16:
  assumes "get_u16 bs = Some w"
  shows "put_u16 w = take 2 bs"
proof -
  from assms obtain a b r where bs: "bs = a # b # r"
    and w: "w = push_bit 8 (ucast a) OR ucast b"
    by (cases bs rule: get_u16.cases) auto
  have "ucast (drop_bit 8 (push_bit 8 (ucast a) OR ucast b :: u16)) = a"
    by (rule bit_word_eqI) (auto simp: bit_simps dest: bit_imp_le_length)
  moreover have "ucast (push_bit 8 (ucast a) OR ucast b :: u16) = b"
    by (rule bit_word_eqI) (auto simp: bit_simps)
  ultimately show ?thesis by (simp add: bs w put_u16_def)
qed

lemma put_get_u32:
  assumes "get_u32 bs = Some w"
  shows "put_u32 w = take 4 bs"
proof -
  from assms obtain a b c d r where bs: "bs = a # b # c # d # r"
    and w: "w = push_bit 24 (ucast a) OR push_bit 16 (ucast b) OR push_bit 8 (ucast c) OR ucast d"
    by (cases bs rule: get_u32.cases) auto
  have "ucast (drop_bit 24 w) = a" "ucast (drop_bit 16 w) = b" "ucast (drop_bit 8 w) = c"
    "ucast w = d"
    unfolding w by (rule bit_word_eqI; auto simp: bit_simps dest: bit_imp_le_length)+
  then show ?thesis by (simp add: bs put_u32_def)
qed

lemma get_u16_total: "2 \<le> length bs \<Longrightarrow> \<exists>w. get_u16 bs = Some w"
  by (cases bs rule: get_u16.cases) auto

lemma get_u32_total: "4 \<le> length bs \<Longrightarrow> \<exists>w. get_u32 bs = Some w"
  by (cases bs rule: get_u32.cases) auto

section \<open>Byte-sized lengths\<close>

lemma unat_byte_of_nat [simp]: "n < 256 \<Longrightarrow> unat (word_of_nat n :: byte) = n"
  by (simp add: unat_of_nat)

lemma unat_u16_of_nat [simp]: "n < 65536 \<Longrightarrow> unat (word_of_nat n :: u16) = n"
  by (simp add: unat_of_nat)

lemma unat_u32_of_nat [simp]: "n < 4294967296 \<Longrightarrow> unat (word_of_nat n :: u32) = n"
  by (simp add: unat_of_nat)

lemma unat_byte_lt [simp]: "unat (b :: byte) < 256"
  using unsigned_less [of b] by simp

lemma unat_u16_lt [simp]: "unat (w :: u16) < 65536"
  using unsigned_less [of w] by simp

lemma unat_u32_lt [simp]: "unat (w :: u32) < 4294967296"
  using unsigned_less [of w] by simp

section \<open>Interface: a canonicalising codec\<close>

text \<open>
  What a store relies on when it keeps a value as bytes: encoding followed by decoding gives the
  value in its normal form, whatever decodes can be encoded again, and no two byte strings decode
  to the same value. \<open>fits\<close> is the size bound under which the counts of the format do not wrap.
\<close>

locale canonical_codec =
  fixes encode :: "'a \<Rightarrow> 'e + 'b"
    and decode :: "'b \<Rightarrow> 'f + 'a"
    and norm :: "'a \<Rightarrow> 'a"
    and fits :: "'a \<Rightarrow> bool"
  assumes decode_encode: "encode x = Inr b \<Longrightarrow> fits x \<Longrightarrow> decode b = Inr (norm x)"
    and encode_decode: "decode b = Inr x \<Longrightarrow> fits x \<and> (\<exists>b'. encode x = Inr b')"
    and decode_inj: "decode b = Inr x \<Longrightarrow> decode b' = Inr x \<Longrightarrow> b = b'"
    and encode_norm: "encode x = Inr b \<Longrightarrow> encode (norm x) = Inr b"
begin

lemma norm_idem: "encode x = Inr b \<Longrightarrow> fits x \<Longrightarrow> norm (norm x) = norm x"
  by (metis decode_encode encode_decode encode_norm Inr_inject)

lemma encode_eq_iff:
  assumes "encode x = Inr b" "fits x" "encode y = Inr c" "fits y"
  shows "b = c \<longleftrightarrow> norm x = norm y"
  using assms by (metis decode_encode encode_norm Inr_inject)

lemma recode:
  assumes "decode b = Inr x"
  shows "\<exists>c. encode x = Inr c \<and> decode c = Inr (norm x) \<and> (c = b \<longleftrightarrow> norm x = x)"
  using assms by (metis decode_encode encode_decode decode_inj Inr_inject)

lemma decoded_iff:
  "(\<exists>b. decode b = Inr x) \<Longrightarrow> (\<exists>c. encode x = Inr c) \<and> fits x"
  using encode_decode by blast

end

end
