(* ===== verification/Go_Text.thy ===== *)
theory Go_Text
  imports Nexora_Prelude
begin

text \<open>
  The parts of Go's \<open>bytes\<close>, \<open>unicode/utf8\<close> and \<open>strings\<close> packages the sources use:
  UTF-8 decoding with its treatment of invalid octets, and case-insensitive comparison of byte
  slices. \<open>bytes.EqualFold\<close> compares runes under simple Unicode case folding; the folding of
  the runes beyond ASCII is a table of the Unicode standard, so it is a parameter: \<open>orbit r\<close> is
  the representative of the folding class of \<open>r\<close>. ASCII folding is written out.
\<close>

type_synonym rune = nat

definition RuneError :: rune where
  "RuneError = 65533"

text \<open>Size of the sequence a leading octet starts, and the range of its second octet.\<close>

definition utf8_first :: "nat \<Rightarrow> (nat \<times> nat \<times> nat) option" where
  "utf8_first b =
     (if 194 \<le> b \<and> b \<le> 223 then Some (2, 128, 191)
      else if b = 224 then Some (3, 160, 191)
      else if b = 237 then Some (3, 128, 159)
      else if 225 \<le> b \<and> b \<le> 239 then Some (3, 128, 191)
      else if b = 240 then Some (4, 144, 191)
      else if 241 \<le> b \<and> b \<le> 243 then Some (4, 128, 191)
      else if b = 244 then Some (4, 128, 143)
      else None)"

definition cont :: "nat \<Rightarrow> bool" where
  "cont b \<longleftrightarrow> 128 \<le> b \<and> b \<le> 191"

text \<open>\<open>utf8.DecodeRune\<close>: the rune and its width; an invalid octet is \<open>RuneError\<close> of width 1.\<close>

definition decode_rune :: "byte list \<Rightarrow> rune \<times> nat" where
  "decode_rune bs =
     (case map unat bs of
        [] \<Rightarrow> (RuneError, 0)
      | b0 # r \<Rightarrow>
          if b0 < 128 then (b0, 1)
          else case utf8_first b0 of
            None \<Rightarrow> (RuneError, 1)
          | Some (sz, lo, hi) \<Rightarrow>
              if length r + 1 < sz then (RuneError, 1)
              else if \<not> (lo \<le> r ! 0 \<and> r ! 0 \<le> hi) then (RuneError, 1)
              else if sz = 2 then ((b0 mod 32) * 64 + r ! 0 mod 64, 2)
              else if \<not> cont (r ! 1) then (RuneError, 1)
              else if sz = 3 then ((b0 mod 16) * 4096 + (r ! 0 mod 64) * 64 + r ! 1 mod 64, 3)
              else if \<not> cont (r ! 2) then (RuneError, 1)
              else ((b0 mod 8) * 262144 + (r ! 0 mod 64) * 4096 + (r ! 1 mod 64) * 64 + r ! 2 mod 64, 4))"

lemma decode_rune_width: "bs \<noteq> [] \<Longrightarrow> 0 < snd (decode_rune bs)"
  by (cases bs) (auto simp: decode_rune_def split: option.splits)

function runes :: "byte list \<Rightarrow> rune list" where
  "runes bs = (if bs = [] then [] else
     fst (decode_rune bs) # runes (drop (snd (decode_rune bs)) bs))"
  by pat_completeness auto
termination
  by (relation "measure length") (auto simp: decode_rune_width)

declare runes.simps [simp del]

lemma runes_Nil [simp]: "runes [] = []"
  by (simp add: runes.simps)

text \<open>ASCII lower case of an octet and of a rune.\<close>

definition lowerByte :: "byte \<Rightarrow> byte" where
  "lowerByte b = (if 65 \<le> b \<and> b \<le> 90 then b + 32 else b)"

definition fold_rune :: "(rune \<Rightarrow> rune) \<Rightarrow> rune \<Rightarrow> rune" where
  "fold_rune orbit r =
     (if r < 128 then (if 65 \<le> r \<and> r \<le> 90 then r + 32 else r) else orbit r)"

definition EqualFold :: "(rune \<Rightarrow> rune) \<Rightarrow> byte list \<Rightarrow> byte list \<Rightarrow> bool" where
  "EqualFold orbit s t \<longleftrightarrow> map (fold_rune orbit) (runes s) = map (fold_rune orbit) (runes t)"

section \<open>Laws of EqualFold\<close>

lemma EqualFold_refl [simp]: "EqualFold orbit s s"
  by (simp add: EqualFold_def)

lemma EqualFold_sym: "EqualFold orbit s t \<Longrightarrow> EqualFold orbit t s"
  by (simp add: EqualFold_def)

lemma EqualFold_trans: "EqualFold orbit s t \<Longrightarrow> EqualFold orbit t u \<Longrightarrow> EqualFold orbit s u"
  by (simp add: EqualFold_def)

text \<open>\<open>acase\<close> relates octets that differ at most in ASCII case.\<close>

definition acase :: "byte \<Rightarrow> byte \<Rightarrow> bool" where
  "acase a b \<longleftrightarrow> lowerByte a = lowerByte b"

lemma unat_lowerByte: "unat (lowerByte b) = (if 65 \<le> unat b \<and> unat b \<le> 90 then unat b + 32 else unat b)"
proof -
  have "65 \<le> b \<longleftrightarrow> 65 \<le> unat b" "b \<le> 90 \<longleftrightarrow> unat b \<le> 90"
    by (simp_all add: word_le_nat_alt)
  then show ?thesis
    by (auto simp: lowerByte_def unat_word_ariths)
qed

lemma acase_lowerByte [simp]: "acase (lowerByte b) b" "acase b (lowerByte b)" "acase b b"
proof -
  have "lowerByte (lowerByte b) = lowerByte b"
    by (rule unsigned_word_eqI [where ?'a = nat]) (auto simp: unat_lowerByte)
  then show "acase (lowerByte b) b" "acase b (lowerByte b)" "acase b b"
    by (simp_all add: acase_def)
qed

lemma acase_ascii: "acase a b \<Longrightarrow> unat a < 128 \<longleftrightarrow> unat b < 128"
proof -
  assume "acase a b"
  then have "unat (lowerByte a) = unat (lowerByte b)" by (simp add: acase_def)
  then show ?thesis by (auto simp: unat_lowerByte split: if_splits)
qed

lemma acase_high: "acase a b \<Longrightarrow> 128 \<le> unat a \<Longrightarrow> a = b"
proof -
  assume ab: "acase a b" and a: "128 \<le> unat a"
  from ab a have b: "128 \<le> unat b" using acase_ascii [OF ab] by simp
  from ab have "unat (lowerByte a) = unat (lowerByte b)" by (simp add: acase_def)
  with a b have "unat a = unat b" by (simp add: unat_lowerByte)
  then show "a = b" by (simp add: word_unat_eq_iff)
qed

text \<open>Decoding looks at the octets below 128 only as runes of their own, so case changes keep its shape.\<close>

lemma utf8_first_lo: "utf8_first b = Some (sz, lo, hi) \<Longrightarrow> 128 \<le> lo \<and> 2 \<le> sz \<and> sz \<le> 4"
  by (auto simp: utf8_first_def split: if_splits)

lemma acase_range:
  "acase a b \<Longrightarrow> 128 \<le> lo \<Longrightarrow> (lo \<le> unat a \<and> unat a \<le> hi) \<longleftrightarrow> (lo \<le> unat b \<and> unat b \<le> hi)"
  using acase_ascii [of a b] acase_high [of a b] by fastforce

lemma acase_in_range_eq: "acase a b \<Longrightarrow> 128 \<le> lo \<Longrightarrow> lo \<le> unat a \<Longrightarrow> unat b = unat a"
  using acase_high [of a b] by fastforce

lemma decode_rune_acase:
  assumes "list_all2 acase s t" "s \<noteq> []"
  shows "snd (decode_rune s) = snd (decode_rune t) \<and>
    fold_rune orbit (fst (decode_rune s)) = fold_rune orbit (fst (decode_rune t))"
proof -
  from assms obtain a s' b t' where st: "s = a # s'" "t = b # t'" and ab: "acase a b"
    and r: "list_all2 acase s' t'"
    by (cases s) (auto simp: list_all2_Cons1)
  show ?thesis
  proof (cases "unat a < 128")
    case True
    then have b: "unat b < 128" using acase_ascii [OF ab] by simp
    from ab have "unat (lowerByte a) = unat (lowerByte b)" by (simp add: acase_def)
    then show ?thesis using True b
      by (simp add: st decode_rune_def fold_rune_def unat_lowerByte)
  next
    case False
    then have "a = b" using acase_high [OF ab] by simp
    have len: "length s' = length t'" using r by (rule list_all2_lengthD)
    have nth: "\<And>j. j < length s' \<Longrightarrow> acase (s' ! j) (t' ! j)"
      using r by (simp add: list_all2_nthD)
    show ?thesis
    proof (cases "utf8_first (unat b)")
      case None
      then show ?thesis using False \<open>a = b\<close> by (simp add: st decode_rune_def)
    next
      case (Some q)
      then obtain sz lo hi where q: "utf8_first (unat b) = Some (sz, lo, hi)"
        by (cases q) auto
      note lo = utf8_first_lo [OF q]
      show ?thesis
      proof (cases "length s' + 1 < sz")
        case True
        then show ?thesis using False \<open>a = b\<close> q len by (simp add: st decode_rune_def)
      next
        case enough: False
        have n0: "0 < length s'" using enough lo by linarith
        have r0: "(lo \<le> unat (s' ! 0) \<and> unat (s' ! 0) \<le> hi) \<longleftrightarrow> (lo \<le> unat (t' ! 0) \<and> unat (t' ! 0) \<le> hi)"
          using acase_range [OF nth [OF n0]] lo by blast
        have e0: "lo \<le> unat (s' ! 0) \<Longrightarrow> unat (t' ! 0) = unat (s' ! 0)"
          using acase_in_range_eq [OF nth [OF n0]] lo by blast
        have c: "\<And>j. j < length s' \<Longrightarrow> cont (unat (s' ! j)) \<longleftrightarrow> cont (unat (t' ! j))"
          unfolding cont_def by (rule acase_range [OF nth]) auto
        have e: "\<And>j. j < length s' \<Longrightarrow> cont (unat (s' ! j)) \<Longrightarrow> unat (t' ! j) = unat (s' ! j)"
          by (rule acase_in_range_eq [OF nth, of _ 128]) (auto simp: cont_def)
        show ?thesis
          using False \<open>a = b\<close> q len enough lo n0 r0 e0 c [of 1] c [of 2] e [of 1] e [of 2]
          by (auto simp: st decode_rune_def)
      qed
    qed
  qed
qed

lemma runes_acase: "list_all2 acase s t \<Longrightarrow> map (fold_rune orbit) (runes s) = map (fold_rune orbit) (runes t)"
proof (induction s arbitrary: t rule: runes.induct)
  case (1 s)
  show ?case
  proof (cases "s = []")
    case True
    then show ?thesis using "1.prems" by simp
  next
    case False
    then have "t \<noteq> []" using "1.prems" by auto
    note d = decode_rune_acase [OF "1.prems" False, of orbit]
    have "list_all2 acase (drop (snd (decode_rune s)) s) (drop (snd (decode_rune s)) t)"
      using "1.prems" by (rule list_all2_dropI)
    from "1.IH" [OF False this] show ?thesis
      using d False \<open>t \<noteq> []\<close> by (simp add: runes.simps [of s] runes.simps [of t])
  qed
qed

lemma EqualFold_acase: "list_all2 acase s t \<Longrightarrow> EqualFold orbit s t"
  by (simp add: EqualFold_def runes_acase)

lemma EqualFold_acase_right: "list_all2 acase t u \<Longrightarrow> EqualFold orbit s t \<longleftrightarrow> EqualFold orbit s u"
  by (simp add: EqualFold_def runes_acase)

end
