(* ===== verification/Nzf_Format.thy ===== *)
theory Nzf_Format
  imports Go_Text
begin

text \<open>
  Package \<open>mgmt/internal/nzf\<close>: the NZF1 binary zone image and delta format
  (\<open>format.go\<close>) and the canonical record order (\<open>canon.go\<close>). Definitions first, in the
  order of the sources; the name codec, the reader and the round trips are proved in
  \<open>Nzf_Names\<close> and \<open>Nzf_Codec\<close>. Index loops of the source are recursive functions on the
  index; a slice access that Go would panic on is the error \<open>Panic\<close> (or \<open>None\<close>).
\<close>

section \<open>Data\<close>

record nzf_record =
  rOwner :: "byte list"
  rType :: u16
  rClass :: u16
  rTTL :: u32
  rRData :: "byte list"

record nzf_image =
  iOrigin :: "byte list"
  iSerial :: u32
  iRecords :: "nzf_record list"

record nzf_delta =
  dOrigin :: "byte list"
  dFromSerial :: u32
  dToSerial :: u32
  dDeleted :: "nzf_record list"
  dAdded :: "nzf_record list"

definition KindFull :: byte where "KindFull = 1"
definition KindDelta :: byte where "KindDelta = 2"
definition typeSOA :: u16 where "typeSOA = 6"
definition classIN :: u16 where "classIN = 1"
definition headerTail :: nat where "headerTail = 16"
definition minRecord :: nat where "minRecord = 11"
definition magic :: "byte list" where "magic = [78, 90, 70, 49]"

lemmas nzf_consts = KindFull_def KindDelta_def typeSOA_def classIN_def headerTail_def
  minRecord_def magic_def

text \<open>Every decoding failure of the source, with the values its message carries.\<close>

datatype malformed =
    NamePastBuffer
  | NameTooLong
  | LabelOctet byte
  | NameLength nat nat
  | SOARdataLength nat
  | NotApexSOA
  | SOASerial u32 u32
  | OwnerOutside
  | BadClass u16
  | RDataTooLong nat
  | RootOrigin
  | MoreThanOneSOA
  | NoSOA
  | DeltaWithoutSOA
  | Truncated
  | BadMagic
  | BadKind byte
  | Reserved byte
  | CountsExceed u32 u32 nat
  | FullWithDelta
  | Trailing nat
  | Panic

section \<open>Names and record checks\<close>

function nameEnd_from :: "byte list \<Rightarrow> nat \<Rightarrow> malformed + nat" where
  "nameEnd_from b i =
     (if length b \<le> i then Inl NamePastBuffer
      else let l = unat (b ! i) in
        if l = 0 then (if i + 1 > 255 then Inl NameTooLong else Inr (i + 1))
        else if l \<ge> 64 then Inl (LabelOctet (b ! i))
        else if i + l + 1 > 255 then Inl NameTooLong
        else nameEnd_from b (i + l + 1))"
  by pat_completeness auto
termination
  by (relation "measure (\<lambda>(b, i). length b - i)") auto

definition nameEnd :: "byte list \<Rightarrow> malformed + nat" where
  "nameEnd b = nameEnd_from b 0"

definition validName :: "byte list \<Rightarrow> malformed + unit" where
  "validName b = bindE (nameEnd b) (\<lambda>n. requireE (n = length b) (NameLength n (length b)))"

function within_from :: "byte list \<Rightarrow> nat \<Rightarrow> nat \<Rightarrow> bool" where
  "within_from owner start i =
     (if i < length owner then
        if i = start then True
        else if owner ! i = 0 then False
        else within_from owner start (i + unat (owner ! i) + 1)
      else False)"
  by pat_completeness auto
termination
  by (relation "measure (\<lambda>(owner, start, i). length owner - i)") auto

definition within :: "(rune \<Rightarrow> rune) \<Rightarrow> byte list \<Rightarrow> byte list \<Rightarrow> bool" where
  "within orbit owner origin =
     (if length origin > length owner then False
      else let start = length owner - length origin in
        if \<not> EqualFold orbit (drop start owner) origin then False
        else within_from owner start 0)"

definition soaSerial :: "byte list \<Rightarrow> malformed + u32" where
  "soaSerial rdata =
     bindE (nameEnd rdata) (\<lambda>m.
     bindE (nameEnd (drop m rdata)) (\<lambda>r.
     bindE (requireE (length rdata = m + r + 20) (SOARdataLength (length rdata))) (\<lambda>_.
     case get_u32 (drop (m + r) rdata) of None \<Rightarrow> Inl Panic | Some s \<Rightarrow> Inr s)))"

definition checkSOA :: "(rune \<Rightarrow> rune) \<Rightarrow> nzf_record \<Rightarrow> byte list \<Rightarrow> u32 \<Rightarrow> malformed + unit" where
  "checkSOA orbit r origin serial =
     (if rType r \<noteq> typeSOA \<or> \<not> EqualFold orbit (rOwner r) origin then Inl NotApexSOA
      else bindE (soaSerial (rRData r)) (\<lambda>s. requireE (s = serial) (SOASerial s serial)))"

definition checkRecord :: "(rune \<Rightarrow> rune) \<Rightarrow> nzf_record \<Rightarrow> byte list \<Rightarrow> malformed + unit" where
  "checkRecord orbit r origin =
     bindE (validName (rOwner r)) (\<lambda>_.
     bindE (requireE (within orbit (rOwner r) origin) OwnerOutside) (\<lambda>_.
     bindE (requireE (rClass r = classIN) (BadClass (rClass r))) (\<lambda>_.
     requireE (length (rRData r) \<le> 65535) (RDataTooLong (length (rRData r))))))"

definition checkOrigin :: "byte list \<Rightarrow> malformed + unit" where
  "checkOrigin origin = bindE (validName origin) (\<lambda>_. requireE (2 \<le> length origin) RootOrigin)"

text \<open>The loop of \<open>checkFullSOA\<close> with its \<open>found\<close> flag.\<close>

fun checkFullSOA_loop ::
    "(rune \<Rightarrow> rune) \<Rightarrow> nzf_record list \<Rightarrow> byte list \<Rightarrow> u32 \<Rightarrow> bool \<Rightarrow> malformed + unit" where
  "checkFullSOA_loop orbit [] origin serial found = requireE found NoSOA"
| "checkFullSOA_loop orbit (r # rs) origin serial found =
     (if rType r \<noteq> typeSOA then checkFullSOA_loop orbit rs origin serial found
      else if found then Inl MoreThanOneSOA
      else bindE (checkSOA orbit r origin serial) (\<lambda>_. checkFullSOA_loop orbit rs origin serial True))"

definition checkFullSOA ::
    "(rune \<Rightarrow> rune) \<Rightarrow> nzf_record list \<Rightarrow> byte list \<Rightarrow> u32 \<Rightarrow> malformed + unit" where
  "checkFullSOA orbit rs origin serial = checkFullSOA_loop orbit rs origin serial False"

text \<open>
  \<open>lower\<close> rewrites label octets in place; a label that runs past the slice is an index panic.
\<close>

function lower_from :: "byte list \<Rightarrow> nat \<Rightarrow> byte list option" where
  "lower_from out i =
     (if i < length out then
        let l = unat (out ! i) in
        if i + l < length out then
          lower_from (take (i + 1) out @ map lowerByte (take l (drop (i + 1) out))
            @ drop (i + 1 + l) out) (i + l + 1)
        else None
      else Some out)"
  by pat_completeness auto
termination
  by (relation "measure (\<lambda>(out, i). length out - i)") auto

definition lower :: "byte list \<Rightarrow> byte list option" where
  "lower name = lower_from name 0"

section \<open>Canonical order\<close>

function starts_from :: "byte list \<Rightarrow> nat \<Rightarrow> nat \<Rightarrow> nat list" where
  "starts_from wire i n =
     (if i < length wire \<and> wire ! i \<noteq> 0 \<and> n < 128 \<and> i + 1 + unat (wire ! i) \<le> length wire
      then i # starts_from wire (i + unat (wire ! i) + 1) (n + 1)
      else [])"
  by pat_completeness auto
termination
  by (relation "measure (\<lambda>(wire, i, n). length wire - i)") auto

definition escapeOctet :: "byte \<Rightarrow> byte list" where
  "escapeOctet b0 =
     (let b = lowerByte b0 in if b = 0 then [1, 1] else if b = 1 then [1, 2] else [b])"

definition CanonicalKey :: "byte list \<Rightarrow> byte list" where
  "CanonicalKey wire =
     concat (map (\<lambda>s. concat (map escapeOctet (take (unat (wire ! s)) (drop (s + 1) wire))) @ [0])
       (rev (starts_from wire 0 0)))"

definition recordOrder :: "nzf_record \<Rightarrow> byte list \<times> u16 \<times> byte list" where
  "recordOrder r = (CanonicalKey (rOwner r), rType r, rRData r)"

definition SortRecords :: "nzf_record list \<Rightarrow> nzf_record list" where
  "SortRecords rs = sort_key recordOrder rs"

section \<open>Encoding\<close>

definition appendHeader ::
    "byte \<Rightarrow> byte list \<Rightarrow> u32 \<Rightarrow> u32 \<Rightarrow> nat \<Rightarrow> nat \<Rightarrow> malformed + byte list" where
  "appendHeader kind origin serial from_serial a c =
     (case lower origin of
        None \<Rightarrow> Inl Panic
      | Some lo \<Rightarrow> Inr (magic @ [kind, 0, word_of_nat (length origin)] @ lo @ put_u32 serial
          @ put_u32 from_serial @ put_u32 (word_of_nat a) @ put_u32 (word_of_nat c)))"

definition appendRecord :: "nzf_record \<Rightarrow> byte list" where
  "appendRecord r = word_of_nat (length (rOwner r)) # rOwner r @ put_u16 (rType r)
     @ put_u16 (rClass r) @ put_u32 (rTTL r) @ put_u16 (word_of_nat (length (rRData r))) @ rRData r"

definition appendRecords :: "nzf_record list \<Rightarrow> byte list" where
  "appendRecords rs = concat (map appendRecord rs)"

definition EncodeFull :: "(rune \<Rightarrow> rune) \<Rightarrow> nzf_image \<Rightarrow> malformed + byte list" where
  "EncodeFull orbit img =
     bindE (checkOrigin (iOrigin img)) (\<lambda>_.
     bindE (eachE (\<lambda>r. checkRecord orbit r (iOrigin img)) (iRecords img)) (\<lambda>_.
     bindE (checkFullSOA orbit (iRecords img) (iOrigin img) (iSerial img)) (\<lambda>_.
     let rs = SortRecords (iRecords img) in
     bindE (appendHeader KindFull (iOrigin img) (iSerial img) 0 (length rs) 0) (\<lambda>b.
     Inr (b @ appendRecords rs)))))"

definition sortTail :: "nzf_record list \<Rightarrow> nzf_record list" where
  "sortTail rs = (case rs of [] \<Rightarrow> [] | r # t \<Rightarrow> r # SortRecords t)"

definition EncodeDelta :: "(rune \<Rightarrow> rune) \<Rightarrow> nzf_delta \<Rightarrow> malformed + byte list" where
  "EncodeDelta orbit d =
     bindE (checkOrigin (dOrigin d)) (\<lambda>_.
     case (dDeleted d, dAdded d) of
       (sd # _, sa # _) \<Rightarrow>
         bindE (checkSOA orbit sd (dOrigin d) (dFromSerial d)) (\<lambda>_.
         bindE (checkSOA orbit sa (dOrigin d) (dToSerial d)) (\<lambda>_.
         bindE (eachE (\<lambda>r. checkRecord orbit r (dOrigin d)) (dDeleted d)) (\<lambda>_.
         bindE (eachE (\<lambda>r. checkRecord orbit r (dOrigin d)) (dAdded d)) (\<lambda>_.
         let del = sortTail (dDeleted d); add = sortTail (dAdded d) in
         bindE (appendHeader KindDelta (dOrigin d) (dToSerial d) (dFromSerial d)
           (length del) (length add)) (\<lambda>b.
         Inr (b @ appendRecords del @ appendRecords add))))))
     | _ \<Rightarrow> Inl DeltaWithoutSOA)"

section \<open>Decoding\<close>

record reader =
  rdB :: "byte list"
  rdOff :: nat

definition rd_take :: "reader \<Rightarrow> nat \<Rightarrow> malformed + (byte list \<times> reader)" where
  "rd_take r n =
     (if length (rdB r) - rdOff r < n then Inl Truncated
      else Inr (take n (drop (rdOff r) (rdB r)), r\<lparr>rdOff := rdOff r + n\<rparr>))"

definition rd_u8 :: "reader \<Rightarrow> malformed + (byte \<times> reader)" where
  "rd_u8 r = bindE (rd_take r 1) (\<lambda>(s, r'). case s of [] \<Rightarrow> Inl Panic | b # _ \<Rightarrow> Inr (b, r'))"

definition rd_u16 :: "reader \<Rightarrow> malformed + (u16 \<times> reader)" where
  "rd_u16 r = bindE (rd_take r 2)
     (\<lambda>(s, r'). case get_u16 s of None \<Rightarrow> Inl Panic | Some w \<Rightarrow> Inr (w, r'))"

definition rd_u32 :: "reader \<Rightarrow> malformed + (u32 \<times> reader)" where
  "rd_u32 r = bindE (rd_take r 4)
     (\<lambda>(s, r'). case get_u32 s of None \<Rightarrow> Inl Panic | Some w \<Rightarrow> Inr (w, r'))"

definition rd_record ::
    "(rune \<Rightarrow> rune) \<Rightarrow> byte list \<Rightarrow> reader \<Rightarrow> malformed + (nzf_record \<times> reader)" where
  "rd_record orbit origin r0 =
     bindE (rd_u8 r0) (\<lambda>(ol, r1).
     bindE (rd_take r1 (unat ol)) (\<lambda>(owner, r2).
     bindE (rd_u16 r2) (\<lambda>(typ, r3).
     bindE (rd_u16 r3) (\<lambda>(cls, r4).
     bindE (rd_u32 r4) (\<lambda>(ttl, r5).
     bindE (rd_u16 r5) (\<lambda>(rdlen, r6).
     bindE (rd_take r6 (unat rdlen)) (\<lambda>(rdata, r7).
     let rec = \<lparr>rOwner = owner, rType = typ, rClass = cls, rTTL = ttl, rRData = rdata\<rparr> in
     bindE (checkRecord orbit rec origin) (\<lambda>_. Inr (rec, r7)))))))))"

fun rd_records ::
    "(rune \<Rightarrow> rune) \<Rightarrow> byte list \<Rightarrow> nat \<Rightarrow> reader \<Rightarrow> malformed + (nzf_record list \<times> reader)" where
  "rd_records orbit origin 0 r = Inr ([], r)"
| "rd_records orbit origin (Suc n) r =
     bindE (rd_record orbit origin r) (\<lambda>(rec, r').
     bindE (rd_records orbit origin n r') (\<lambda>(recs, r''). Inr (rec # recs, r'')))"

text \<open>The header fields \<open>Decode\<close> reads before any record.\<close>

record nzf_header =
  hKind :: byte
  hOrigin :: "byte list"
  hSerial :: u32
  hFrom :: u32
  hCountA :: u32
  hCountB :: u32

definition decodeHeader :: "byte list \<Rightarrow> malformed + (nzf_header \<times> reader)" where
  "decodeHeader raw =
     bindE (rd_take \<lparr>rdB = raw, rdOff = 0\<rparr> 4) (\<lambda>(m, r0).
     bindE (requireE (m = magic) BadMagic) (\<lambda>_.
     bindE (rd_u8 r0) (\<lambda>(kind, r1).
     bindE (requireE (kind = KindFull \<or> kind = KindDelta) (BadKind kind)) (\<lambda>_.
     bindE (rd_u8 r1) (\<lambda>(reserved, r2).
     bindE (requireE (reserved = 0) (Reserved reserved)) (\<lambda>_.
     bindE (rd_u8 r2) (\<lambda>(ol, r3).
     bindE (rd_take r3 (unat ol)) (\<lambda>(origin, r4).
     bindE (checkOrigin origin) (\<lambda>_.
     bindE (rd_take r4 headerTail) (\<lambda>(hdr, r5).
     case (get_u32 hdr, get_u32 (drop 4 hdr), get_u32 (drop 8 hdr), get_u32 (drop 12 hdr)) of
       (Some serial, Some from_serial, Some countA, Some countB) \<Rightarrow>
         Inr (\<lparr>hKind = kind, hOrigin = origin, hSerial = serial, hFrom = from_serial,
           hCountA = countA, hCountB = countB\<rparr>, r5)
     | _ \<Rightarrow> Inl Panic))))))))))"

definition Decode ::
    "(rune \<Rightarrow> rune) \<Rightarrow> byte list \<Rightarrow> malformed + (byte \<times> nzf_image option \<times> nzf_delta option)" where
  "Decode orbit raw =
     bindE (decodeHeader raw) (\<lambda>(h, r).
     let left = length raw - rdOff r in
     bindE (requireE (unat (hCountA h) + unat (hCountB h) \<le> left div minRecord)
       (CountsExceed (hCountA h) (hCountB h) left)) (\<lambda>_.
     bindE (requireE (\<not> (hKind h = KindFull \<and> (hFrom h \<noteq> 0 \<or> hCountB h \<noteq> 0))) FullWithDelta) (\<lambda>_.
     bindE (rd_records orbit (hOrigin h) (unat (hCountA h)) r) (\<lambda>(a, r').
     bindE (rd_records orbit (hOrigin h) (unat (hCountB h)) r') (\<lambda>(b, r'').
     bindE (requireE (rdOff r'' = length raw) (Trailing (length raw - rdOff r''))) (\<lambda>_.
     if hKind h = KindFull then
       bindE (checkFullSOA orbit a (hOrigin h) (hSerial h)) (\<lambda>_.
       Inr (hKind h, Some \<lparr>iOrigin = hOrigin h, iSerial = hSerial h, iRecords = a\<rparr>, None))
     else case (a, b) of
       (sa # _, sb # _) \<Rightarrow>
         bindE (checkSOA orbit sa (hOrigin h) (hFrom h)) (\<lambda>_.
         bindE (checkSOA orbit sb (hOrigin h) (hSerial h)) (\<lambda>_.
         Inr (hKind h, None, Some \<lparr>dOrigin = hOrigin h, dFromSerial = hFrom h,
           dToSerial = hSerial h, dDeleted = a, dAdded = b\<rparr>)))
     | _ \<Rightarrow> Inl DeltaWithoutSOA))))))"

declare nameEnd_from.simps [simp del] within_from.simps [simp del] lower_from.simps [simp del]
  starts_from.simps [simp del]

end
