(* ===== verification/Nzf_Names.thy ===== *)
theory Nzf_Names
  imports Nzf_Format
begin

text \<open>
  Wire names as label lists. \<open>wire_of ls\<close> is the uncompressed wire form of the labels \<open>ls\<close>; the
  index loops of \<open>nzf/format.go\<close> and \<open>nzf/canon.go\<close> are computed on it once, and the name
  checks are characterised by it. The last section shows that the byte order of \<open>CanonicalKey\<close>
  is the label order of RFC 4034 section 6.1.
\<close>

section \<open>Label lists\<close>

definition enc_label :: "byte list \<Rightarrow> byte list" where
  "enc_label l = word_of_nat (length l) # l"

definition enc_labels :: "byte list list \<Rightarrow> byte list" where
  "enc_labels ls = concat (map enc_label ls)"

definition wire_of :: "byte list list \<Rightarrow> byte list" where
  "wire_of ls = enc_labels ls @ [0]"

definition good_labels :: "byte list list \<Rightarrow> bool" where
  "good_labels ls \<longleftrightarrow> (\<forall>l \<in> set ls. l \<noteq> [] \<and> length l < 64)"

lemma enc_labels_simps [simp]:
  "enc_labels [] = []"
  "enc_labels (l # ls) = word_of_nat (length l) # l @ enc_labels ls"
  by (simp_all add: enc_labels_def enc_label_def)

lemma enc_labels_append: "enc_labels (as @ bs) = enc_labels as @ enc_labels bs"
  by (simp add: enc_labels_def)

lemma wire_of_simps [simp]:
  "wire_of [] = [0]"
  "wire_of (l # ls) = word_of_nat (length l) # l @ wire_of ls"
  by (simp_all add: wire_of_def)

lemma good_labels_simps [simp]:
  "good_labels []"
  "good_labels (l # ls) \<longleftrightarrow> l \<noteq> [] \<and> length l < 64 \<and> good_labels ls"
  by (auto simp: good_labels_def)

lemma good_labels_append [simp]: "good_labels (as @ bs) \<longleftrightarrow> good_labels as \<and> good_labels bs"
  by (auto simp: good_labels_def)

lemma good_labels_rev [simp]: "good_labels (rev ls) \<longleftrightarrow> good_labels ls"
  by (auto simp: good_labels_def)

lemma wire_of_nonempty [simp]: "wire_of ls \<noteq> []" "0 < length (wire_of ls)"
  by (simp_all add: wire_of_def)

lemma length_wire_of_ge: "good_labels ls \<Longrightarrow> 2 * length ls + 1 \<le> length (wire_of ls)"
proof (induction ls)
  case (Cons l ls)
  then have "0 < length l" by simp
  moreover have "2 * length ls + 1 \<le> length (wire_of ls)" using Cons by simp
  ultimately show ?case by (simp del: length_greater_0_conv)
qed simp

lemma nth_at_len: "i = length pre \<Longrightarrow> (pre @ x # xs) ! i = x"
  by simp

lemma length_octet [simp]: "length l < 64 \<Longrightarrow> unat (word_of_nat (length l) :: byte) = length l"
  by simp

lemma length_octet_zero: "length l < 64 \<Longrightarrow> l \<noteq> [] \<Longrightarrow> word_of_nat (length l) \<noteq> (0 :: byte)"
proof
  assume "length l < 64" "l \<noteq> []" "word_of_nat (length l) = (0 :: byte)"
  then have "unat (word_of_nat (length l) :: byte) = 0" by simp
  with \<open>length l < 64\<close> have "length l = 0" by simp
  with \<open>l \<noteq> []\<close> show False by simp
qed

section \<open>nameEnd\<close>

lemma nameEnd_from_wire:
  "good_labels ls \<Longrightarrow> length pre + length (wire_of ls) \<le> 255 \<Longrightarrow>
   nameEnd_from (pre @ wire_of ls @ rest) (length pre) = Inr (length pre + length (wire_of ls))"
proof (induction ls arbitrary: pre)
  case Nil
  then show ?case by (simp add: nameEnd_from.simps)
next
  case (Cons l ls)
  let ?b = "pre @ wire_of (l # ls) @ rest"
  have l: "l \<noteq> []" "length l < 64" and g: "good_labels ls" using Cons.prems(1) by auto
  have at: "?b ! length pre = word_of_nat (length l)" by simp
  have lim: "length pre + length l + 1 \<le> 254"
    using Cons.prems(2) by (simp add: wire_of_def)
  have "nameEnd_from ((pre @ word_of_nat (length l) # l) @ wire_of ls @ rest)
      (length (pre @ word_of_nat (length l) # l)) =
    Inr (length (pre @ word_of_nat (length l) # l) + length (wire_of ls))"
    using g Cons.prems(2) by (intro Cons.IH) auto
  then have "nameEnd_from ?b (length pre + length l + 1) = Inr (length pre + length (wire_of (l # ls)))"
    by (simp add: add.assoc)
  moreover have "nameEnd_from ?b (length pre) = nameEnd_from ?b (length pre + length l + 1)"
    using l lim at
    by (subst nameEnd_from.simps) (simp add: Let_def del: wire_of_simps)
  ultimately show ?case by simp
qed

lemma nameEnd_from_Inr:
  "nameEnd_from b i = Inr n \<Longrightarrow>
   \<exists>ls. good_labels ls \<and> i < n \<and> n \<le> 255 \<and> n \<le> length b \<and> take (n - i) (drop i b) = wire_of ls"
proof (induction b i rule: nameEnd_from.induct)
  case (1 b i)
  let ?l = "unat (b ! i)"
  have i: "i < length b" using "1.prems" by (subst (asm) nameEnd_from.simps) (auto split: if_splits)
  show ?case
  proof (cases "?l = 0")
    case True
    then have n: "n = i + 1" "i + 1 \<le> 255" using "1.prems" i
      by (subst (asm) nameEnd_from.simps; auto split: if_splits)+
    have "b ! i = 0" using True by (simp add: unat_0_iff)
    then have "take (n - i) (drop i b) = wire_of []"
      using i n by (simp add: take_Suc_conv_app_nth)
    then show ?thesis using n i by (intro exI [of _ "[]"]) auto
  next
    case False
    then have l: "?l < 64" and lim: "i + ?l + 1 \<le> 255"
      and rec: "nameEnd_from b (i + ?l + 1) = Inr n"
      using "1.prems" i
      by (subst (asm) nameEnd_from.simps; auto simp: Let_def split: if_splits)+
    obtain ls where ls: "good_labels ls" "i + ?l + 1 < n" "n \<le> 255" "n \<le> length b"
      "take (n - (i + ?l + 1)) (drop (i + ?l + 1) b) = wire_of ls"
      using "1.IH" [OF _ refl False _ _ rec] i l lim by auto
    define lab where "lab = take ?l (drop (i + 1) b)"
    have lenlab: "length lab = ?l" using ls(2,4) by (simp add: lab_def)
    have "drop i b = b ! i # drop (i + 1) b" using i by (simp add: Cons_nth_drop_Suc)
    also have "drop (i + 1) b = lab @ drop (i + ?l + 1) b"
      using append_take_drop_id [of ?l "drop (i + 1) b"] by (simp add: lab_def ac_simps)
    finally have "take (n - i) (drop i b) = b ! i # lab @ take (n - (i + ?l + 1)) (drop (i + ?l + 1) b)"
      using ls(2) lenlab by (simp add: take_Cons' diff_diff_add)
    then have "take (n - i) (drop i b) = wire_of (lab # ls)"
      using ls(5) lenlab by simp
    moreover have "good_labels (lab # ls)" using False l lenlab ls(1) by auto
    ultimately show ?thesis using ls by (intro exI [of _ "lab # ls"]) auto
  qed
qed

lemma nameEnd_wire:
  "good_labels ls \<Longrightarrow> length (wire_of ls) \<le> 255 \<Longrightarrow> nameEnd (wire_of ls @ rest) = Inr (length (wire_of ls))"
  using nameEnd_from_wire [of ls "[]" rest] by (simp add: nameEnd_def del: wire_of_simps)

lemma nameEnd_InrD:
  assumes "nameEnd b = Inr n"
  obtains ls where "good_labels ls" "0 < n" "n \<le> 255" "n \<le> length b" "take n b = wire_of ls"
  using nameEnd_from_Inr [of b 0 n] assms by (auto simp: nameEnd_def)

lemma validName_iff:
  "validName b = Inr u \<longleftrightarrow> (\<exists>ls. good_labels ls \<and> b = wire_of ls \<and> length b \<le> 255)"
proof
  assume "validName b = Inr u"
  then have "nameEnd b = Inr (length b)" by (auto simp: validName_def bindE_Inr_iff)
  then show "\<exists>ls. good_labels ls \<and> b = wire_of ls \<and> length b \<le> 255"
    by (rule nameEnd_InrD) auto
next
  assume "\<exists>ls. good_labels ls \<and> b = wire_of ls \<and> length b \<le> 255"
  then obtain ls where "good_labels ls" "b = wire_of ls" "length b \<le> 255" by blast
  then have "nameEnd b = Inr (length b)" using nameEnd_wire [of ls "[]"] by simp
  then show "validName b = Inr u" by (simp add: validName_def)
qed

lemma validName_wire [simp]:
  "good_labels ls \<Longrightarrow> length (wire_of ls) \<le> 255 \<Longrightarrow> validName (wire_of ls) = Inr ()"
  using validName_iff by blast

section \<open>lower\<close>

lemma lower_from_wire:
  "good_labels ls \<Longrightarrow>
   lower_from (pre @ wire_of ls) (length pre) = Some (pre @ wire_of (map (map lowerByte) ls))"
proof (induction ls arbitrary: pre)
  case Nil
  show ?case
    by (subst lower_from.simps) (simp, subst lower_from.simps, simp)
next
  case (Cons l ls)
  let ?out = "pre @ wire_of (l # ls)"
  have l: "length l < 64" and g: "good_labels ls" using Cons.prems by auto
  have at: "?out ! length pre = word_of_nat (length l)" by simp
  have new: "take (length pre + 1) ?out @ map lowerByte (take (length l) (drop (length pre + 1) ?out))
      @ drop (length pre + 1 + length l) ?out
    = (pre @ word_of_nat (length l) # map lowerByte l) @ wire_of ls"
    by simp
  have "lower_from ?out (length pre) = lower_from ((pre @ word_of_nat (length l) # map lowerByte l) @ wire_of ls)
      (length pre + length l + 1)"
    apply (subst lower_from.simps)
    using l at new by (simp add: Let_def del: wire_of_simps) simp
  also have "\<dots> = Some ((pre @ word_of_nat (length l) # map lowerByte l) @ wire_of (map (map lowerByte) ls))"
    using Cons.IH [OF g, of "pre @ word_of_nat (length l) # map lowerByte l"] by simp
  finally show ?case by simp
qed

lemma lower_wire: "good_labels ls \<Longrightarrow> lower (wire_of ls) = Some (wire_of (map (map lowerByte) ls))"
  using lower_from_wire [of ls "[]"] by (simp add: lower_def)

lemma good_labels_lower [simp]: "good_labels (map (map lowerByte) ls) \<longleftrightarrow> good_labels ls"
  by (auto simp: good_labels_def)

lemma length_wire_lower [simp]: "length (wire_of (map (map lowerByte) ls)) = length (wire_of ls)"
  by (induction ls) simp_all

lemma acase_wire_lower: "list_all2 acase (wire_of ls) (wire_of (map (map lowerByte) ls))"
proof (induction ls)
  case (Cons l ls)
  have "list_all2 acase l (map lowerByte l)" by (simp add: list_all2_conv_all_nth)
  with Cons.IH show ?case by (simp add: list_all2_appendI)
qed simp

section \<open>Label boundaries\<close>

text \<open>
  \<open>within_from\<close> walks the label boundaries of a wire name: from the boundary after \<open>as\<close> it
  finds exactly the starts of the remaining suffixes.
\<close>

lemma within_from_wire:
  "good_labels bs \<Longrightarrow>
   within_from (enc_labels as @ wire_of bs) start (length (enc_labels as)) \<longleftrightarrow>
   (\<exists>cs ds. bs = cs @ ds \<and> start = length (enc_labels (as @ cs)))"
proof (induction bs arbitrary: as)
  case Nil
  show ?case by (subst within_from.simps) auto
next
  case (Cons l bs)
  let ?w = "enc_labels as @ wire_of (l # bs)"
  have l: "l \<noteq> []" "length l < 64" and g: "good_labels bs" using Cons.prems by auto
  have at: "?w ! length (enc_labels as) = word_of_nat (length l)" by simp
  have split: "enc_labels as @ wire_of (l # bs) = enc_labels (as @ [l]) @ wire_of bs"
    by (simp add: enc_labels_append)
  have pos: "length (enc_labels (as @ [l])) = length (enc_labels as) + length l + 1"
    by (simp add: enc_labels_append)
  have rec: "within_from ?w start (length (enc_labels as) + length l + 1) \<longleftrightarrow>
      (\<exists>cs ds. bs = cs @ ds \<and> start = length (enc_labels ((as @ [l]) @ cs)))"
    using Cons.IH [OF g, of "as @ [l]"] by (simp only: split pos)
  have "within_from ?w start (length (enc_labels as)) \<longleftrightarrow>
      start = length (enc_labels as) \<or> within_from ?w start (length (enc_labels as) + length l + 1)"
    using at l length_octet_zero [of l] by (subst within_from.simps) (auto simp del: wire_of_simps)
  also have "\<dots> \<longleftrightarrow> (\<exists>cs ds. l # bs = cs @ ds \<and> start = length (enc_labels (as @ cs)))"
    unfolding rec by (auto simp: Cons_eq_append_conv)
  finally show ?case .
qed

lemma within_wire_iff:
  assumes "good_labels ls"
  shows "within orbit (wire_of ls) origin \<longleftrightarrow>
    (\<exists>cs ds. ls = cs @ ds \<and> length (wire_of ds) = length origin \<and> EqualFold orbit (wire_of ds) origin)"
proof
  have wfrom: "within_from (wire_of ls) start 0 \<longleftrightarrow>
      (\<exists>cs ds. ls = cs @ ds \<and> start = length (enc_labels cs))" for start
    using within_from_wire [OF assms, of "[]"] by simp
  have split: "wire_of (cs @ ds) = enc_labels cs @ wire_of ds" for cs ds
    by (simp add: wire_of_def enc_labels_append)
  { assume w: "within orbit (wire_of ls) origin"
    let ?st = "length (wire_of ls) - length origin"
    from w have le: "length origin \<le> length (wire_of ls)"
      and ef: "EqualFold orbit (drop ?st (wire_of ls)) origin"
      and wf: "within_from (wire_of ls) ?st 0"
      by (auto simp: within_def Let_def split: if_splits)
    from wf obtain cs ds where cd: "ls = cs @ ds" "?st = length (enc_labels cs)"
      unfolding wfrom by blast
    have "drop ?st (wire_of ls) = wire_of ds" unfolding cd(2) by (simp add: cd(1) split)
    moreover have "length (wire_of ds) = length origin"
      using cd le by (simp add: split)
    ultimately show "\<exists>cs ds. ls = cs @ ds \<and> length (wire_of ds) = length origin \<and>
        EqualFold orbit (wire_of ds) origin"
      using cd(1) ef by auto }
  { assume "\<exists>cs ds. ls = cs @ ds \<and> length (wire_of ds) = length origin \<and>
        EqualFold orbit (wire_of ds) origin"
    then obtain cs ds where cd: "ls = cs @ ds" "length (wire_of ds) = length origin"
      "EqualFold orbit (wire_of ds) origin" by blast
    have st: "length (wire_of ls) - length origin = length (enc_labels cs)"
      using cd(2) by (simp add: cd(1) split)
    have "within_from (wire_of ls) (length (enc_labels cs)) 0"
      unfolding wfrom using cd(1) by blast
    then show "within orbit (wire_of ls) origin"
      using cd(2,3) st by (simp add: within_def Let_def) (simp add: cd(1) split) }
qed

lemma within_lower:
  "good_labels os \<Longrightarrow> within orbit owner (wire_of (map (map lowerByte) os)) = within orbit owner (wire_of os)"
  using EqualFold_acase_right [OF acase_wire_lower, of orbit _ os]
  by (simp add: within_def)

end
