(* ===== verification/Nzf_Canon.thy ===== *)
theory Nzf_Canon
  imports Nzf_Names
begin

text \<open>
  The canonical order of \<open>nzf/canon.go\<close>: what \<open>CanonicalKey\<close> computes on a wire name, and that
  comparing keys octet by octet is comparing the lowercase labels from the root
  (RFC 4034 section 6.1). \<open>SortRecords\<close> is a stable sort by owner key, type and RDATA.
\<close>

section \<open>The key of a label list\<close>

definition escape :: "byte list \<Rightarrow> byte list" where
  "escape l = concat (map escapeOctet l)"

definition labelKey :: "byte list list \<Rightarrow> byte list" where
  "labelKey ls = concat (map (\<lambda>l. escape l @ [0]) ls)"

lemma labelKey_simps [simp]:
  "labelKey [] = []"
  "labelKey (l # ls) = escape l @ 0 # labelKey ls"
  by (simp_all add: labelKey_def)

lemma starts_from_wire:
  "good_labels bs \<Longrightarrow> n + length bs \<le> 128 \<Longrightarrow>
   map (\<lambda>s. take (unat ((enc_labels as @ wire_of bs) ! s)) (drop (s + 1) (enc_labels as @ wire_of bs)))
     (starts_from (enc_labels as @ wire_of bs) (length (enc_labels as)) n) = bs"
proof (induction bs arbitrary: as n)
  case Nil
  show ?case by (subst starts_from.simps) simp
next
  case (Cons l bs)
  let ?w = "enc_labels as @ wire_of (l # bs)"
  have l: "l \<noteq> []" "length l < 64" and g: "good_labels bs" using Cons.prems by auto
  have at: "?w ! length (enc_labels as) = word_of_nat (length l)" by simp
  have split: "?w = enc_labels (as @ [l]) @ wire_of bs" by (simp add: enc_labels_append)
  have pos: "length (enc_labels (as @ [l])) = length (enc_labels as) + length l + 1"
    by (simp add: enc_labels_append)
  have rec: "map (\<lambda>s. take (unat (?w ! s)) (drop (s + 1) ?w))
      (starts_from ?w (length (enc_labels as) + length l + 1) (n + 1)) = bs"
    using Cons.IH [OF g, of "n + 1" "as @ [l]"] Cons.prems(2) by (simp only: split pos) simp
  have "starts_from ?w (length (enc_labels as)) n =
      length (enc_labels as) # starts_from ?w (length (enc_labels as) + length l + 1) (n + 1)"
    using at l length_octet_zero [of l] Cons.prems(2)
    by (subst starts_from.simps) (simp del: wire_of_simps, simp)
  moreover have "take (unat (?w ! length (enc_labels as))) (drop (length (enc_labels as) + 1) ?w) = l"
    using at l by (simp del: wire_of_simps) simp
  ultimately show ?case using rec by (simp del: wire_of_simps)
qed

lemma CanonicalKey_wire:
  assumes "good_labels ls" "length ls \<le> 128"
  shows "CanonicalKey (wire_of ls) = labelKey (rev ls)"
proof -
  let ?lab = "\<lambda>s. take (unat (wire_of ls ! s)) (drop (s + 1) (wire_of ls))"
  have "map ?lab (starts_from (wire_of ls) 0 0) = ls"
    using starts_from_wire [of ls 0 "[]"] assms by simp
  then have "map ?lab (rev (starts_from (wire_of ls) 0 0)) = rev ls"
    by (simp add: rev_map [symmetric])
  then have "map (\<lambda>l. escape l @ [0]) (map ?lab (rev (starts_from (wire_of ls) 0 0)))
      = map (\<lambda>l. escape l @ [0]) (rev ls)"
    by (rule arg_cong)
  then show ?thesis
    by (simp add: CanonicalKey_def labelKey_def escape_def comp_def)
qed

section \<open>The order of keys\<close>

abbreviation lowerLabels :: "byte list list \<Rightarrow> byte list list" where
  "lowerLabels ls \<equiv> map (map lowerByte) ls"

lemma escapeOctet_cases:
  "escapeOctet b = [1, 1] \<and> lowerByte b = 0 \<or> escapeOctet b = [1, 2] \<and> lowerByte b = 1 \<or>
   escapeOctet b = [lowerByte b] \<and> 1 < unat (lowerByte b)"
proof -
  have one: "unat (lowerByte b) = 1 \<Longrightarrow> lowerByte b = 1"
    by (rule word_unat_eq_iff [THEN iffD2]) simp
  consider "unat (lowerByte b) = 0" | "unat (lowerByte b) = 1" | "1 < unat (lowerByte b)"
    by linarith
  then show ?thesis
  proof cases
    case 1
    then show ?thesis by (simp add: escapeOctet_def unat_0_iff)
  next
    case 2
    then show ?thesis using one by (simp add: escapeOctet_def)
  next
    case 3
    then have "lowerByte b \<noteq> 0" "lowerByte b \<noteq> 1" by auto
    with 3 show ?thesis by (simp add: escapeOctet_def Let_def)
  qed
qed

text \<open>A label followed by its terminator decides before anything that follows it.\<close>

lemma escape_less_iff:
  "escape a @ 0 # x < escape b @ 0 # y \<longleftrightarrow>
   map lowerByte a < map lowerByte b \<or> map lowerByte a = map lowerByte b \<and> x < y"
proof (induction a arbitrary: b)
  case Nil
  show ?case
  proof (cases b)
    case (Cons d b')
    then show ?thesis using escapeOctet_cases [of d]
      by (auto simp: escape_def word_less_nat_alt)
  qed (simp add: escape_def)
next
  case (Cons c a)
  show ?case
  proof (cases b)
    case Nil
    then show ?thesis using escapeOctet_cases [of c]
      by (auto simp: escape_def word_less_nat_alt)
  next
    case (Cons d b')
    have step: "escapeOctet c @ s < escapeOctet d @ t \<longleftrightarrow>
        lowerByte c < lowerByte d \<or> lowerByte c = lowerByte d \<and> s < t" for s t
      using escapeOctet_cases [of c] escapeOctet_cases [of d] by (auto simp: word_less_nat_alt)
    show ?thesis
      using Cons.IH [of b'] by (simp add: Cons escape_def step) (auto simp: escape_def)
  qed
qed

lemma labelKey_less_iff: "labelKey a < labelKey b \<longleftrightarrow> lowerLabels a < lowerLabels b"
proof (induction a arbitrary: b)
  case Nil
  show ?case
  proof (cases b)
    case (Cons m b')
    then show ?thesis by (cases "escape m") auto
  qed simp
next
  case (Cons l a)
  show ?case
  proof (cases b)
    case Nil
    then show ?thesis by simp
  next
    case (Cons m b')
    then show ?thesis using Cons.IH [of b'] by (simp add: escape_less_iff)
  qed
qed

lemma labelKey_eq_iff: "labelKey a = labelKey b \<longleftrightarrow> lowerLabels a = lowerLabels b"
proof
  assume "labelKey a = labelKey b"
  then have "\<not> lowerLabels a < lowerLabels b" "\<not> lowerLabels b < lowerLabels a"
    by (simp_all flip: labelKey_less_iff)
  then show "lowerLabels a = lowerLabels b" by (simp add: antisym_conv3)
next
  assume "lowerLabels a = lowerLabels b"
  then have "\<not> labelKey a < labelKey b" "\<not> labelKey b < labelKey a"
    by (simp_all add: labelKey_less_iff)
  then show "labelKey a = labelKey b" by (simp add: antisym_conv3)
qed

lemma SortRecords_mset: "mset (SortRecords rs) = mset rs"
  by (simp add: SortRecords_def)

lemma SortRecords_set [simp]: "set (SortRecords rs) = set rs"
  by (simp add: SortRecords_def)

lemma SortRecords_length [simp]: "length (SortRecords rs) = length rs"
  by (simp add: SortRecords_def)

lemma SortRecords_sorted: "sorted (map recordOrder (SortRecords rs))"
  by (simp add: SortRecords_def)

lemma SortRecords_stable: "filter (\<lambda>r. recordOrder r = k) (SortRecords rs) = filter (\<lambda>r. recordOrder r = k) rs"
  by (simp add: SortRecords_def sort_key_stable)

end
