(* ===== verification/Nzf_Codec.thy ===== *)
theory Nzf_Codec
  imports Nzf_Canon
begin

text \<open>
  The NZF1 codec of \<open>nzf/format.go\<close>. Every reader operation is characterised by an
  equivalence with the octets it consumes, so \<open>Decode\<close> is the exact inverse of the octets
  \<open>EncodeFull\<close> and \<open>EncodeDelta\<close> write: the round trips and the soundness of accepted
  input follow from the same lemmas.
\<close>

section \<open>The reader\<close>

definition rest :: "reader \<Rightarrow> byte list" where
  "rest r = drop (rdOff r) (rdB r)"

definition adv :: "reader \<Rightarrow> nat \<Rightarrow> reader" where
  "adv r n = r\<lparr>rdOff := rdOff r + n\<rparr>"

lemma rest_adv [simp]: "rest (adv r n) = drop n (rest r)"
  by (simp add: rest_def adv_def ac_simps)

lemma adv_adv [simp]: "adv (adv r m) n = adv r (m + n)"
  by (simp add: adv_def ac_simps)

lemma adv_sel [simp]: "rdB (adv r n) = rdB r" "rdOff (adv r n) = rdOff r + n"
  by (simp_all add: adv_def)

named_theorems reads \<open>what a reader operation consumes\<close>

lemma rd_take_Inr [reads]:
  "rd_take r n = Inr (s, r') \<longleftrightarrow> (\<exists>t. rest r = s @ t \<and> length s = n \<and> r' = adv r n)"
proof -
  have "rd_take r n = (if n \<le> length (rest r) then Inr (take n (rest r), adv r n) else Inl Truncated)"
    by (auto simp: rd_take_def rest_def adv_def)
  moreover have "n \<le> length (rest r) \<Longrightarrow> rest r = take n (rest r) @ drop n (rest r)" by simp
  ultimately show ?thesis
    by (metis (no_types, lifting) Inl_Inr_False append_eq_conv_conj length_take min.absorb2
        old.sum.inject(2) prod.inject length_append le_add1)
qed

lemma rd_u8_Inr [reads]: "rd_u8 r = Inr (b, r') \<longleftrightarrow> (\<exists>t. rest r = b # t \<and> r' = adv r 1)"
proof
  assume "rd_u8 r = Inr (b, r')"
  then obtain s r'' where t: "rd_take r 1 = Inr (s, r'')"
      and c: "(case s of [] \<Rightarrow> Inl Panic | b' # _ \<Rightarrow> Inr (b', r'')) = Inr (b, r')"
    by (auto simp: rd_u8_def bindE_Inr_iff)
  from t have "length s = 1" by (auto simp: reads)
  with c have "s = [b]" "r'' = r'" by (auto split: list.splits)
  with t show "\<exists>t. rest r = b # t \<and> r' = adv r 1" by (simp add: reads)
next
  assume "\<exists>t. rest r = b # t \<and> r' = adv r 1"
  then have "rd_take r 1 = Inr ([b], r')" by (simp add: reads)
  then show "rd_u8 r = Inr (b, r')" by (simp add: rd_u8_def)
qed

lemma rd_u16_Inr [reads]: "rd_u16 r = Inr (w, r') \<longleftrightarrow> (\<exists>t. rest r = put_u16 w @ t \<and> r' = adv r 2)"
proof
  assume "rd_u16 r = Inr (w, r')"
  then obtain s t where s: "length s = 2" "rest r = s @ t" "r' = adv r 2" "get_u16 s = Some w"
    by (auto simp: rd_u16_def bindE_Inr_iff reads split: option.splits)
  from put_get_u16 [OF s(4)] s(1) have "put_u16 w = s" by simp
  with s show "\<exists>t. rest r = put_u16 w @ t \<and> r' = adv r 2" by blast
next
  assume "\<exists>t. rest r = put_u16 w @ t \<and> r' = adv r 2"
  then have "rd_take r 2 = Inr (put_u16 w, r')" by (simp add: reads)
  then show "rd_u16 r = Inr (w, r')"
    using get_put_u16 [of w "[]"] by (simp add: rd_u16_def)
qed

lemma rd_u32_Inr [reads]: "rd_u32 r = Inr (w, r') \<longleftrightarrow> (\<exists>t. rest r = put_u32 w @ t \<and> r' = adv r 4)"
proof
  assume "rd_u32 r = Inr (w, r')"
  then obtain s t where s: "length s = 4" "rest r = s @ t" "r' = adv r 4" "get_u32 s = Some w"
    by (auto simp: rd_u32_def bindE_Inr_iff reads split: option.splits)
  from put_get_u32 [OF s(4)] s(1) have "put_u32 w = s" by simp
  with s show "\<exists>t. rest r = put_u32 w @ t \<and> r' = adv r 4" by blast
next
  assume "\<exists>t. rest r = put_u32 w @ t \<and> r' = adv r 4"
  then have "rd_take r 4 = Inr (put_u32 w, r')" by (simp add: reads)
  then show "rd_u32 r = Inr (w, r')"
    using get_put_u32 [of w "[]"] by (simp add: rd_u32_def)
qed

section \<open>Records\<close>

lemma checkRecord_Inr:
  "checkRecord orbit rec origin = Inr u \<longleftrightarrow>
   validName (rOwner rec) = Inr () \<and> within orbit (rOwner rec) origin \<and> rClass rec = classIN \<and>
   length (rRData rec) \<le> 65535"
  by (auto simp: checkRecord_def bindE_Inr_iff)

lemma checkRecord_lengths:
  assumes "checkRecord orbit rec origin = Inr u"
  shows "0 < length (rOwner rec)" "length (rOwner rec) < 256" "length (rRData rec) < 65536"
proof -
  from assms have "validName (rOwner rec) = Inr ()" by (simp add: checkRecord_Inr)
  then obtain ls where "rOwner rec = wire_of ls" "length (rOwner rec) \<le> 255"
    unfolding validName_iff by blast
  then show "0 < length (rOwner rec)" "length (rOwner rec) < 256" by simp_all
  from assms show "length (rRData rec) < 65536" by (simp add: checkRecord_Inr)
qed

lemma nzf_record_eta [simp]:
  "\<lparr>rOwner = rOwner rec, rType = rType rec, rClass = rClass rec, rTTL = rTTL rec,
     rRData = rRData rec\<rparr> = rec"
  by simp

lemma byte_len_iff: "length s = unat (b :: byte) \<longleftrightarrow> length s < 256 \<and> b = word_of_nat (length s)"
  by auto

lemma u16_len_iff: "length s = unat (b :: u16) \<longleftrightarrow> length s < 65536 \<and> b = word_of_nat (length s)"
  by auto

lemma length_appendRecord: "length (appendRecord rec) = 11 + length (rOwner rec) + length (rRData rec)"
  by (simp add: appendRecord_def)

lemma rd_record_Inr [reads]:
  "rd_record orbit origin r = Inr (rec, r') \<longleftrightarrow>
   (\<exists>t. checkRecord orbit rec origin = Inr () \<and> rest r = appendRecord rec @ t \<and>
     r' = adv r (length (appendRecord rec)))"
proof
  assume "rd_record orbit origin r = Inr (rec, r')"
  then show "\<exists>t. checkRecord orbit rec origin = Inr () \<and> rest r = appendRecord rec @ t \<and>
      r' = adv r (length (appendRecord rec))"
    by (auto simp: rd_record_def bindE_Inr_iff reads Let_def byte_len_iff u16_len_iff
        appendRecord_def drop_Cons')
next
  assume "\<exists>t. checkRecord orbit rec origin = Inr () \<and> rest r = appendRecord rec @ t \<and>
      r' = adv r (length (appendRecord rec))"
  then obtain t where a: "checkRecord orbit rec origin = Inr ()" "rest r = appendRecord rec @ t"
      "r' = adv r (length (appendRecord rec))" by blast
  note len = checkRecord_lengths [of orbit rec origin "()"]
  let ?o = "word_of_nat (length (rOwner rec)) :: byte"
  let ?d = "word_of_nat (length (rRData rec)) :: u16"
  let ?n = "length (rOwner rec)"
  have r0: "rest r = ?o # rOwner rec @ put_u16 (rType rec) @ put_u16 (rClass rec) @ put_u32 (rTTL rec)
      @ put_u16 ?d @ rRData rec @ t"
    using a by (simp add: appendRecord_def)
  have "rd_u8 r = Inr (?o, adv r 1)" using r0 by (simp add: reads)
  moreover have "rd_take (adv r 1) (unat ?o) = Inr (rOwner rec, adv r (1 + ?n))"
    using r0 a len by (simp add: reads)
  moreover have "rd_u16 (adv r (1 + ?n)) = Inr (rType rec, adv r (3 + ?n))"
    using r0 by (simp add: reads drop_Cons')
  moreover have "rd_u16 (adv r (3 + ?n)) = Inr (rClass rec, adv r (5 + ?n))"
    using r0 by (simp add: reads drop_Cons')
  moreover have "rd_u32 (adv r (5 + ?n)) = Inr (rTTL rec, adv r (9 + ?n))"
    using r0 by (simp add: reads drop_Cons')
  moreover have "rd_u16 (adv r (9 + ?n)) = Inr (?d, adv r (11 + ?n))"
    using r0 by (simp add: reads drop_Cons')
  moreover have "rd_take (adv r (11 + ?n)) (unat ?d) = Inr (rRData rec, r')"
    using r0 a len by (simp add: reads length_appendRecord drop_Cons')
  ultimately show "rd_record orbit origin r = Inr (rec, r')"
    using a by (simp add: rd_record_def Let_def)
qed

lemma appendRecords_simps [simp]:
  "appendRecords [] = []"
  "appendRecords (r # rs) = appendRecord r @ appendRecords rs"
  by (simp_all add: appendRecords_def)

lemma appendRecords_append: "appendRecords (a @ b) = appendRecords a @ appendRecords b"
  by (simp add: appendRecords_def)

lemma rd_records_Inr [reads]:
  "rd_records orbit origin n r = Inr (recs, r') \<longleftrightarrow>
   length recs = n \<and> (\<forall>rec \<in> set recs. checkRecord orbit rec origin = Inr ()) \<and>
   (\<exists>t. rest r = appendRecords recs @ t) \<and> r' = adv r (length (appendRecords recs))"
proof (induction n arbitrary: r recs)
  case 0
  show ?case by (auto simp: adv_def)
next
  case (Suc n)
  show ?case
  proof (cases recs)
    case Nil
    then show ?thesis by (auto simp: bindE_Inr_iff)
  next
    case (Cons rec recs')
    then show ?thesis by (auto simp: bindE_Inr_iff reads Suc.IH)
  qed
qed

lemma length_appendRecords_ge:
  assumes "\<forall>rec \<in> set recs. checkRecord orbit rec origin = Inr ()"
  shows "minRecord * length recs \<le> length (appendRecords recs)"
  using assms
proof (induction recs)
  case (Cons rec recs)
  then have "minRecord * length recs \<le> length (appendRecords recs)" by simp
  then show ?case by (simp add: length_appendRecord minRecord_def)
qed simp

section \<open>The header\<close>

definition headerBytes :: "nzf_header \<Rightarrow> byte list" where
  "headerBytes h = magic @ [hKind h, 0, word_of_nat (length (hOrigin h))] @ hOrigin h
     @ put_u32 (hSerial h) @ put_u32 (hFrom h) @ put_u32 (hCountA h) @ put_u32 (hCountB h)"

lemma length_magic [simp]: "length magic = 4"
  by (simp add: magic_def)

lemma length_headerBytes: "length (headerBytes h) = 23 + length (hOrigin h)"
  by (simp add: headerBytes_def)

lemma rest_init [simp]: "rest \<lparr>rdB = raw, rdOff = 0\<rparr> = raw"
  by (simp add: rest_def)

lemma adv_init: "adv \<lparr>rdB = raw, rdOff = 0\<rparr> n = \<lparr>rdB = raw, rdOff = n\<rparr>"
  by (simp add: adv_def)

lemma four_words:
  assumes "length hdr = 16"
    and "get_u32 hdr = Some a" "get_u32 (drop 4 hdr) = Some b"
    and "get_u32 (drop 8 hdr) = Some c" "get_u32 (drop 12 hdr) = Some d"
  shows "hdr = put_u32 a @ put_u32 b @ put_u32 c @ put_u32 d"
proof -
  have "hdr = take 4 hdr @ take 4 (drop 4 hdr) @ take 4 (drop 8 hdr) @ take 4 (drop 12 hdr)"
    using assms(1) by (auto simp: list_eq_iff_nth_eq nth_append)
  then show ?thesis using assms(2-5) by (simp add: put_get_u32)
qed

lemma case_four_Inr:
  "(case a of None \<Rightarrow> Inl e | Some w \<Rightarrow> case b of None \<Rightarrow> Inl e | Some x \<Rightarrow>
     case c of None \<Rightarrow> Inl e | Some y \<Rightarrow> case d of None \<Rightarrow> Inl e | Some z \<Rightarrow> Inr (f w x y z)) = Inr v \<longleftrightarrow>
   (\<exists>w x y z. a = Some w \<and> b = Some x \<and> c = Some y \<and> d = Some z \<and> f w x y z = v)"
  by (auto split: option.splits)

lemma checkOrigin_Inr:
  "checkOrigin origin = Inr u \<longleftrightarrow> validName origin = Inr () \<and> 2 \<le> length origin"
  by (auto simp: checkOrigin_def bindE_Inr_iff)

lemma checkOrigin_length: "checkOrigin origin = Inr u \<Longrightarrow> length origin < 256"
  by (auto simp: checkOrigin_Inr validName_iff)

lemma decodeHeader_Inr [reads]:
  "decodeHeader raw = Inr (h, r) \<longleftrightarrow>
   (\<exists>t. raw = headerBytes h @ t) \<and> r = \<lparr>rdB = raw, rdOff = length (headerBytes h)\<rparr> \<and>
   (hKind h = KindFull \<or> hKind h = KindDelta) \<and> checkOrigin (hOrigin h) = Inr ()"
proof
  assume d: "decodeHeader raw = Inr (h, r)"
  let ?r0 = "\<lparr>rdB = raw, rdOff = 0\<rparr>"
  from d obtain ol t hdr t' where
      raw: "raw = magic @ hKind h # 0 # ol # hOrigin h @ hdr @ t'"
    and ol: "length (hOrigin h) = unat ol" and hdr: "length hdr = 16"
    and r: "r = adv ?r0 (23 + length (hOrigin h))"
    and k: "hKind h = KindFull \<or> hKind h = KindDelta" and o: "checkOrigin (hOrigin h) = Inr ()"
    and w: "get_u32 hdr = Some (hSerial h)" "get_u32 (drop 4 hdr) = Some (hFrom h)"
      "get_u32 (drop 8 hdr) = Some (hCountA h)" "get_u32 (drop 12 hdr) = Some (hCountB h)"
    by (auto simp: decodeHeader_def reads headerTail_def drop_Cons' bindE_Inr_iff case_four_Inr)
  from ol have "ol = word_of_nat (length (hOrigin h))" by simp
  with raw four_words [OF hdr w] have "raw = headerBytes h @ t'"
    by (simp add: headerBytes_def)
  then show "(\<exists>t. raw = headerBytes h @ t) \<and> r = \<lparr>rdB = raw, rdOff = length (headerBytes h)\<rparr> \<and>
      (hKind h = KindFull \<or> hKind h = KindDelta) \<and> checkOrigin (hOrigin h) = Inr ()"
    using r k o by (auto simp: adv_init length_headerBytes)
next
  assume "(\<exists>t. raw = headerBytes h @ t) \<and> r = \<lparr>rdB = raw, rdOff = length (headerBytes h)\<rparr> \<and>
      (hKind h = KindFull \<or> hKind h = KindDelta) \<and> checkOrigin (hOrigin h) = Inr ()"
  then obtain t where a: "raw = headerBytes h @ t" "r = \<lparr>rdB = raw, rdOff = length (headerBytes h)\<rparr>"
      "hKind h = KindFull \<or> hKind h = KindDelta" "checkOrigin (hOrigin h) = Inr ()" by blast
  let ?r0 = "\<lparr>rdB = raw, rdOff = 0\<rparr>"
  let ?n = "length (hOrigin h)"
  let ?hdr = "put_u32 (hSerial h) @ put_u32 (hFrom h) @ put_u32 (hCountA h) @ put_u32 (hCountB h)"
  have raw: "raw = magic @ hKind h # 0 # word_of_nat ?n # hOrigin h @ ?hdr @ t"
    using a(1) by (simp add: headerBytes_def)
  have n: "?n < 256" using a(4) by (rule checkOrigin_length)
  have "rd_take ?r0 4 = Inr (magic, adv ?r0 4)" using raw by (simp add: reads)
  moreover have "rd_u8 (adv ?r0 4) = Inr (hKind h, adv ?r0 5)" using raw by (simp add: reads)
  moreover have "rd_u8 (adv ?r0 5) = Inr (0, adv ?r0 6)" using raw by (simp add: reads drop_Cons')
  moreover have "rd_u8 (adv ?r0 6) = Inr (word_of_nat ?n, adv ?r0 7)"
    using raw by (simp add: reads drop_Cons')
  moreover have "rd_take (adv ?r0 7) (unat (word_of_nat ?n :: byte)) = Inr (hOrigin h, adv ?r0 (7 + ?n))"
    using raw n by (simp add: reads drop_Cons')
  moreover have "rd_take (adv ?r0 (7 + ?n)) headerTail = Inr (?hdr, adv ?r0 (23 + ?n))"
    using raw by (simp add: reads drop_Cons' headerTail_def)
  moreover have "adv ?r0 (23 + ?n) = r" using a(2) by (simp add: adv_init length_headerBytes)
  ultimately show "decodeHeader raw = Inr (h, r)"
    using a(3,4) get_put_u32 [of "hCountB h" "[]"] by (simp add: decodeHeader_def)
qed

section \<open>What Decode accepts\<close>

definition isSOARecord :: "nzf_record \<Rightarrow> bool" where
  "isSOARecord r \<longleftrightarrow> rType r = typeSOA"

lemma checkFullSOA_loop_Inr:
  "checkFullSOA_loop orbit rs origin serial found = Inr u \<longleftrightarrow>
   (if found then filter isSOARecord rs = []
    else (\<exists>r. filter isSOARecord rs = [r] \<and> checkSOA orbit r origin serial = Inr ()))"
  by (induction rs arbitrary: found) (auto simp: isSOARecord_def bindE_Inr_iff)

lemma checkFullSOA_Inr:
  "checkFullSOA orbit rs origin serial = Inr u \<longleftrightarrow>
   (\<exists>r. filter isSOARecord rs = [r] \<and> checkSOA orbit r origin serial = Inr ())"
  by (simp add: checkFullSOA_def checkFullSOA_loop_Inr)

definition fullHeader :: "nzf_image \<Rightarrow> nzf_header" where
  "fullHeader img = \<lparr>hKind = KindFull, hOrigin = iOrigin img, hSerial = iSerial img, hFrom = 0,
     hCountA = word_of_nat (length (iRecords img)), hCountB = 0\<rparr>"

definition deltaHeader :: "nzf_delta \<Rightarrow> nzf_header" where
  "deltaHeader d = \<lparr>hKind = KindDelta, hOrigin = dOrigin d, hSerial = dToSerial d,
     hFrom = dFromSerial d, hCountA = word_of_nat (length (dDeleted d)),
     hCountB = word_of_nat (length (dAdded d))\<rparr>"

text \<open>The images and deltas that have an encoding: every check of the source, as one predicate.\<close>

definition validImage :: "(rune \<Rightarrow> rune) \<Rightarrow> nzf_image \<Rightarrow> bool" where
  "validImage orbit img \<longleftrightarrow>
     checkOrigin (iOrigin img) = Inr () \<and>
     (\<forall>rec \<in> set (iRecords img). checkRecord orbit rec (iOrigin img) = Inr ()) \<and>
     checkFullSOA orbit (iRecords img) (iOrigin img) (iSerial img) = Inr () \<and>
     length (iRecords img) < 4294967296"

definition validDelta :: "(rune \<Rightarrow> rune) \<Rightarrow> nzf_delta \<Rightarrow> bool" where
  "validDelta orbit d \<longleftrightarrow>
     checkOrigin (dOrigin d) = Inr () \<and>
     (\<forall>rec \<in> set (dDeleted d) \<union> set (dAdded d). checkRecord orbit rec (dOrigin d) = Inr ()) \<and>
     (\<exists>sd ds sa as. dDeleted d = sd # ds \<and> dAdded d = sa # as \<and>
       checkSOA orbit sd (dOrigin d) (dFromSerial d) = Inr () \<and>
       checkSOA orbit sa (dOrigin d) (dToSerial d) = Inr ()) \<and>
     length (dDeleted d) < 4294967296 \<and> length (dAdded d) < 4294967296"

lemma u32_len_iff: "length s = unat (b :: u32) \<longleftrightarrow> length s < 4294967296 \<and> b = word_of_nat (length s)"
  by auto

lemma KindFull_neq [simp]: "KindFull \<noteq> KindDelta" "KindDelta \<noteq> KindFull"
  by (simp_all add: nzf_consts)

lemma rest_after_header: "rest \<lparr>rdB = x @ t, rdOff = length x\<rparr> = t"
  by (simp add: rest_def)

text \<open>The two record lists of the body, as \<open>Decode\<close> reads them after the header.\<close>

lemma Decode_Inr_iff:
  "Decode orbit raw = Inr (k, oi, od) \<longleftrightarrow>
   (\<exists>h a b. raw = headerBytes h @ appendRecords a @ appendRecords b \<and>
     (hKind h = KindFull \<or> hKind h = KindDelta) \<and> checkOrigin (hOrigin h) = Inr () \<and>
     (hKind h = KindFull \<longrightarrow> hFrom h = 0 \<and> hCountB h = 0) \<and>
     length a = unat (hCountA h) \<and> length b = unat (hCountB h) \<and>
     (\<forall>rec \<in> set a \<union> set b. checkRecord orbit rec (hOrigin h) = Inr ()) \<and>
     (if hKind h = KindFull then
        checkFullSOA orbit a (hOrigin h) (hSerial h) = Inr () \<and> k = KindFull \<and> od = None \<and>
        oi = Some \<lparr>iOrigin = hOrigin h, iSerial = hSerial h, iRecords = a\<rparr>
      else
        (\<exists>sa at sb bt. a = sa # at \<and> b = sb # bt \<and>
          checkSOA orbit sa (hOrigin h) (hFrom h) = Inr () \<and>
          checkSOA orbit sb (hOrigin h) (hSerial h) = Inr ()) \<and> k = KindDelta \<and> oi = None \<and>
        od = Some \<lparr>dOrigin = hOrigin h, dFromSerial = hFrom h, dToSerial = hSerial h,
          dDeleted = a, dAdded = b\<rparr>))" (is "?L \<longleftrightarrow> (\<exists>h a b. ?R h a b)")
proof
  assume ?L
  then obtain h r where hd: "decodeHeader raw = Inr (h, r)"
    by (auto simp: Decode_def bindE_Inr_iff)
  then obtain t where raw: "raw = headerBytes h @ t"
    and r: "r = \<lparr>rdB = raw, rdOff = length (headerBytes h)\<rparr>"
    by (auto simp: reads)
  have rest: "rest r = t" using r raw by (simp add: rest_after_header)
  from \<open>?L\<close> hd obtain a r' b r'' where
      a: "rd_records orbit (hOrigin h) (unat (hCountA h)) r = Inr (a, r')"
    and b: "rd_records orbit (hOrigin h) (unat (hCountB h)) r' = Inr (b, r'')"
    and off: "rdOff r'' = length raw"
    by (auto simp: Decode_def bindE_Inr_iff Let_def)
  from a b rest obtain t' where t': "t = appendRecords a @ appendRecords b @ t'"
    by (auto simp: reads)
  from a b have "rdOff r'' = length (headerBytes h) + length (appendRecords a) + length (appendRecords b)"
    by (auto simp: reads r)
  with off raw t' have "t' = []" by simp
  with raw t' have "raw = headerBytes h @ appendRecords a @ appendRecords b" by simp
  moreover have "(hKind h = KindFull \<or> hKind h = KindDelta) \<and> checkOrigin (hOrigin h) = Inr ()"
    using hd by (auto simp: reads)
  moreover have "length a = unat (hCountA h)" "length b = unat (hCountB h)"
      "\<forall>rec \<in> set a \<union> set b. checkRecord orbit rec (hOrigin h) = Inr ()"
    using a b by (auto simp: reads)
  moreover note \<open>?L\<close> [unfolded Decode_def Let_def hd, simplified, unfolded a, simplified,
      unfolded b, simplified]
  ultimately have "?R h a b"
    by (auto simp: bindE_Inr_iff split: list.splits if_splits)
  then show "\<exists>h a b. ?R h a b" by blast
next
  assume "\<exists>h a b. ?R h a b"
  then obtain h a b where R: "?R h a b" by blast
  let ?r = "\<lparr>rdB = raw, rdOff = length (headerBytes h)\<rparr>"
  let ?r' = "adv ?r (length (appendRecords a))"
  let ?r'' = "adv ?r' (length (appendRecords b))"
  have rest: "rest ?r = appendRecords a @ appendRecords b"
    using R by (simp add: rest_def)
  have hd: "decodeHeader raw = Inr (h, ?r)" using R by (auto simp: reads)
  have ra: "rd_records orbit (hOrigin h) (unat (hCountA h)) ?r = Inr (a, ?r')"
    using R rest by (auto simp: reads)
  have rb: "rd_records orbit (hOrigin h) (unat (hCountB h)) ?r' = Inr (b, ?r'')"
    using R rest by (auto simp: reads)
  have "minRecord * length a \<le> length (appendRecords a)"
    using R by (intro length_appendRecords_ge [of _ orbit "hOrigin h"]) auto
  moreover have "minRecord * length b \<le> length (appendRecords b)"
    using R by (intro length_appendRecords_ge [of _ orbit "hOrigin h"]) auto
  ultimately have "minRecord * (length a + length b) \<le> length raw - length (headerBytes h)"
    using R by (simp add: distrib_left)
  then have cnt: "unat (hCountA h) + unat (hCountB h) \<le> (length raw - length (headerBytes h)) div minRecord"
    using R by (simp add: less_eq_div_iff_mult_less_eq minRecord_def mult.commute)
  have off: "rdOff ?r'' = length raw" using R by simp
  show ?L
    using R hd ra rb cnt off by (auto simp: Decode_def Let_def)
qed

end
