(* ===== verification/Nzf_Encode.thy ===== *)
theory Nzf_Encode
  imports Nzf_Codec
begin

text \<open>
  The encoders of \<open>mgmt/internal/nzf/format.go\<close> against \<open>Decode\<close>: what each accepts, the
  normal form each writes (lower-case origin, records in canonical order), and the two
  interpretations of the codec interface that give the round trips.
\<close>

section \<open>Checks against the lower-cased origin\<close>

definition lowerName :: "byte list \<Rightarrow> byte list" where
  "lowerName o' = (case lower o' of None \<Rightarrow> o' | Some lo \<Rightarrow> lo)"

lemma lowerName_wire: "good_labels ls \<Longrightarrow> lowerName (wire_of ls) = wire_of (map (map lowerByte) ls)"
  by (simp add: lowerName_def lower_wire)

lemma lower_lowerName: "validName b = Inr () \<Longrightarrow> lower b = Some (lowerName b)"
  by (auto simp: validName_iff lowerName_wire lower_wire)

lemma length_lowerName: "validName b = Inr () \<Longrightarrow> length (lowerName b) = length b"
  by (auto simp: validName_iff lowerName_wire)

lemma validName_lowerName: "validName b = Inr () \<Longrightarrow> validName (lowerName b) = Inr ()"
  by (auto simp: validName_iff [of b] lowerName_wire)

lemma lowerByte_idem [simp]: "lowerByte (lowerByte c) = lowerByte c"
  by (rule word_unat_eq_iff [THEN iffD2]) (simp add: unat_lowerByte)

lemma lowerName_idem: "validName b = Inr () \<Longrightarrow> lowerName (lowerName b) = lowerName b"
  by (auto simp: validName_iff lowerName_wire comp_def)

lemma checkOrigin_lowerName: "checkOrigin b = Inr () \<Longrightarrow> checkOrigin (lowerName b) = Inr ()"
  by (simp add: checkOrigin_Inr validName_lowerName length_lowerName)

lemma checkRecord_lowerName:
  "validName origin = Inr () \<Longrightarrow> checkRecord orbit rec (lowerName origin) = checkRecord orbit rec origin"
  by (auto simp: checkRecord_def validName_iff [of origin] lowerName_wire within_lower)

lemma checkSOA_lowerName:
  "validName origin = Inr () \<Longrightarrow> checkSOA orbit rec (lowerName origin) s = checkSOA orbit rec origin s"
  by (auto simp: checkSOA_def validName_iff lowerName_wire
      EqualFold_acase_right [OF acase_wire_lower, symmetric])

section \<open>Normal forms\<close>

definition normImage :: "nzf_image \<Rightarrow> nzf_image" where
  "normImage img = \<lparr>iOrigin = lowerName (iOrigin img), iSerial = iSerial img,
     iRecords = SortRecords (iRecords img)\<rparr>"

definition normDelta :: "nzf_delta \<Rightarrow> nzf_delta" where
  "normDelta d = \<lparr>dOrigin = lowerName (dOrigin d), dFromSerial = dFromSerial d,
     dToSerial = dToSerial d, dDeleted = sortTail (dDeleted d), dAdded = sortTail (dAdded d)\<rparr>"

definition image_fits :: "nzf_image \<Rightarrow> bool" where
  "image_fits img \<longleftrightarrow> length (iRecords img) < 4294967296"

definition delta_fits :: "nzf_delta \<Rightarrow> bool" where
  "delta_fits d \<longleftrightarrow> length (dDeleted d) < 4294967296 \<and> length (dAdded d) < 4294967296"

lemma filter_SOA_sort:
  "filter isSOARecord rs = [r] \<Longrightarrow> filter isSOARecord (SortRecords rs) = [r]"
  by (simp add: SortRecords_def filter_sort)

lemma filter_SOA_sort_iff:
  "filter isSOARecord (SortRecords rs) = [r] \<longleftrightarrow> filter isSOARecord rs = [r]"
proof
  assume "filter isSOARecord (SortRecords rs) = [r]"
  then have "mset (filter isSOARecord rs) = {#r#}"
    by (metis SortRecords_mset mset_filter mset_single_iff)
  then show "filter isSOARecord rs = [r]" by (simp only: mset_single_iff)
qed (rule filter_SOA_sort)

lemma checkFullSOA_norm:
  "validName origin = Inr () \<Longrightarrow>
   checkFullSOA orbit (SortRecords rs) (lowerName origin) s = Inr u \<longleftrightarrow>
   checkFullSOA orbit rs origin s = Inr u"
  by (simp add: checkFullSOA_Inr filter_SOA_sort_iff checkSOA_lowerName)

lemma SortRecords_idem [simp]: "SortRecords (SortRecords rs) = SortRecords rs"
  using sort_key_id_if_sorted [OF SortRecords_sorted [of rs]] by (simp add: SortRecords_def)

lemma sortTail_simps [simp]: "sortTail [] = []" "sortTail (r # rs) = r # SortRecords rs"
  by (simp_all add: sortTail_def)

lemma sortTail_idem [simp]: "sortTail (sortTail rs) = sortTail rs"
  by (cases rs) simp_all

lemma sortTail_props [simp]: "length (sortTail rs) = length rs" "set (sortTail rs) = set rs"
  by (cases rs; simp)+

section \<open>What the encoders write\<close>

lemma appendHeader_eq:
  "validName origin = Inr () \<Longrightarrow>
   appendHeader k origin s f a c = Inr (headerBytes \<lparr>hKind = k, hOrigin = lowerName origin,
     hSerial = s, hFrom = f, hCountA = word_of_nat a, hCountB = word_of_nat c\<rparr>)"
  by (simp add: appendHeader_def lower_lowerName headerBytes_def length_lowerName)

lemma EncodeFull_Inr:
  "EncodeFull orbit img = Inr raw \<longleftrightarrow>
   checkOrigin (iOrigin img) = Inr () \<and>
   (\<forall>rec \<in> set (iRecords img). checkRecord orbit rec (iOrigin img) = Inr ()) \<and>
   checkFullSOA orbit (iRecords img) (iOrigin img) (iSerial img) = Inr () \<and>
   raw = headerBytes (fullHeader (normImage img)) @ appendRecords (SortRecords (iRecords img))"
  by (auto simp: EncodeFull_def bindE_Inr_iff eachE_Inr_iff Let_def checkOrigin_Inr
      appendHeader_eq fullHeader_def normImage_def)

lemma EncodeDelta_Inr:
  "EncodeDelta orbit d = Inr raw \<longleftrightarrow>
   checkOrigin (dOrigin d) = Inr () \<and>
   (\<forall>rec \<in> set (dDeleted d) \<union> set (dAdded d). checkRecord orbit rec (dOrigin d) = Inr ()) \<and>
   (\<exists>sd ds sa as. dDeleted d = sd # ds \<and> dAdded d = sa # as \<and>
     checkSOA orbit sd (dOrigin d) (dFromSerial d) = Inr () \<and>
     checkSOA orbit sa (dOrigin d) (dToSerial d) = Inr ()) \<and>
   raw = headerBytes (deltaHeader (normDelta d)) @ appendRecords (sortTail (dDeleted d))
     @ appendRecords (sortTail (dAdded d))"
  by (cases "dDeleted d"; cases "dAdded d")
    (auto simp: EncodeDelta_def bindE_Inr_iff eachE_Inr_iff Let_def checkOrigin_Inr
      appendHeader_eq deltaHeader_def normDelta_def)

section \<open>The two kinds of Decode\<close>

definition decodeImage :: "(rune \<Rightarrow> rune) \<Rightarrow> byte list \<Rightarrow> malformed option + nzf_image" where
  "decodeImage orbit raw = (case Decode orbit raw of
     Inl e \<Rightarrow> Inl (Some e) | Inr (_, Some img, _) \<Rightarrow> Inr img | _ \<Rightarrow> Inl None)"

definition decodeDelta :: "(rune \<Rightarrow> rune) \<Rightarrow> byte list \<Rightarrow> malformed option + nzf_delta" where
  "decodeDelta orbit raw = (case Decode orbit raw of
     Inl e \<Rightarrow> Inl (Some e) | Inr (_, _, Some d) \<Rightarrow> Inr d | _ \<Rightarrow> Inl None)"

lemma Decode_full_iff:
  "Decode orbit raw = Inr (k, Some img, od) \<longleftrightarrow>
   k = KindFull \<and> od = None \<and> validImage orbit img \<and>
   raw = headerBytes (fullHeader img) @ appendRecords (iRecords img)"
  unfolding Decode_Inr_iff validImage_def
  apply (rule iffI)
   apply (clarsimp simp: headerBytes_def fullHeader_def split: if_splits)
  apply (rule exI [of _ "fullHeader img"], rule exI [of _ "iRecords img"], rule exI [of _ "[]"])
  apply (simp add: fullHeader_def)
  done

lemma Decode_delta_iff:
  "Decode orbit raw = Inr (k, oi, Some d) \<longleftrightarrow>
   k = KindDelta \<and> oi = None \<and> validDelta orbit d \<and>
   raw = headerBytes (deltaHeader d) @ appendRecords (dDeleted d) @ appendRecords (dAdded d)"
proof -
  have len: "length x = unat (c :: u32) \<longleftrightarrow> length x < 4294967296 \<and> c = word_of_nat (length x)" for x c
    by (rule u32_len_iff)
  show ?thesis
    unfolding Decode_Inr_iff validDelta_def deltaHeader_def
    apply (rule iffI)
     apply (clarsimp simp: len headerBytes_def split: if_splits)
    apply (rule exI [of _ "deltaHeader d"], rule exI [of _ "dDeleted d"], rule exI [of _ "dAdded d"])
    apply (simp add: deltaHeader_def)
    done
qed

lemma decodeImage_Inr:
  "decodeImage orbit raw = Inr img \<longleftrightarrow>
   validImage orbit img \<and> raw = headerBytes (fullHeader img) @ appendRecords (iRecords img)"
proof -
  have "decodeImage orbit raw = Inr img \<longleftrightarrow> (\<exists>k od. Decode orbit raw = Inr (k, Some img, od))"
    by (auto simp: decodeImage_def split: sum.splits option.splits)
  then show ?thesis by (simp add: Decode_full_iff)
qed

lemma decodeDelta_Inr:
  "decodeDelta orbit raw = Inr d \<longleftrightarrow>
   validDelta orbit d \<and>
   raw = headerBytes (deltaHeader d) @ appendRecords (dDeleted d) @ appendRecords (dAdded d)"
proof -
  have "decodeDelta orbit raw = Inr d \<longleftrightarrow> (\<exists>k oi. Decode orbit raw = Inr (k, oi, Some d))"
    by (auto simp: decodeDelta_def split: sum.splits option.splits)
  then show ?thesis by (simp add: Decode_delta_iff)
qed

lemma validImage_norm:
  "EncodeFull orbit img = Inr raw \<Longrightarrow> image_fits img \<Longrightarrow> validImage orbit (normImage img)"
  by (simp add: EncodeFull_Inr validImage_def normImage_def image_fits_def checkOrigin_lowerName
      checkFullSOA_norm checkRecord_lowerName checkOrigin_Inr)

lemma validDelta_norm:
  "EncodeDelta orbit d = Inr raw \<Longrightarrow> delta_fits d \<Longrightarrow> validDelta orbit (normDelta d)"
  by (auto simp: EncodeDelta_Inr validDelta_def normDelta_def delta_fits_def checkOrigin_lowerName
      checkSOA_lowerName checkRecord_lowerName checkOrigin_Inr)

lemma EncodeFull_norm: "EncodeFull orbit img = Inr raw \<Longrightarrow> EncodeFull orbit (normImage img) = Inr raw"
  by (simp add: EncodeFull_Inr normImage_def checkOrigin_lowerName checkOrigin_Inr
      checkFullSOA_norm checkRecord_lowerName lowerName_idem validName_lowerName length_lowerName)

lemma EncodeDelta_norm: "EncodeDelta orbit d = Inr raw \<Longrightarrow> EncodeDelta orbit (normDelta d) = Inr raw"
  by (auto simp: EncodeDelta_Inr normDelta_def checkOrigin_lowerName checkOrigin_Inr
      checkSOA_lowerName checkRecord_lowerName lowerName_idem validName_lowerName length_lowerName)

interpretation nzf_full: canonical_codec "EncodeFull orbit" "decodeImage orbit" normImage image_fits
  for orbit
proof
  show "decodeImage orbit b = Inr (normImage x)" if "EncodeFull orbit x = Inr b" "image_fits x" for x b
    using that validImage_norm [OF that]
    by (simp add: decodeImage_Inr EncodeFull_Inr) (simp add: normImage_def)
  show "image_fits x \<and> (\<exists>b'. EncodeFull orbit x = Inr b')" if "decodeImage orbit b = Inr x" for x b
    using that by (simp add: decodeImage_Inr EncodeFull_Inr validImage_def image_fits_def)
  show "b = b'" if "decodeImage orbit b = Inr x" "decodeImage orbit b' = Inr x" for x b b'
    using that by (simp add: decodeImage_Inr)
qed (rule EncodeFull_norm)

interpretation nzf_delta: canonical_codec "EncodeDelta orbit" "decodeDelta orbit" normDelta delta_fits
  for orbit
proof
  show "decodeDelta orbit b = Inr (normDelta x)" if "EncodeDelta orbit x = Inr b" "delta_fits x" for x b
    using that validDelta_norm [OF that]
    by (simp add: decodeDelta_Inr EncodeDelta_Inr) (simp add: normDelta_def)
  show "delta_fits x \<and> (\<exists>b'. EncodeDelta orbit x = Inr b')" if "decodeDelta orbit b = Inr x" for x b
    using that by (simp add: decodeDelta_Inr EncodeDelta_Inr validDelta_def delta_fits_def)
  show "b = b'" if "decodeDelta orbit b = Inr x" "decodeDelta orbit b' = Inr x" for x b b'
    using that by (simp add: decodeDelta_Inr)
qed (rule EncodeDelta_norm)

lemma decodeImage_eq:
  "decodeImage orbit raw = Inr img \<longleftrightarrow> Decode orbit raw = Inr (KindFull, Some img, None)"
  by (simp add: decodeImage_Inr Decode_full_iff)

lemma decodeDelta_eq:
  "decodeDelta orbit raw = Inr d \<longleftrightarrow> Decode orbit raw = Inr (KindDelta, None, Some d)"
  by (simp add: decodeDelta_Inr Decode_delta_iff)

section \<open>Properties\<close>

text \<open>A concrete zone image for the witnesses: origin \<open>Ab.\<close>, its SOA with serial 7 and one
  address record below it, given out of canonical order.\<close>

definition exSOA :: "u32 \<Rightarrow> nzf_record" where
  "exSOA s = \<lparr>rOwner = [2, 97, 66, 0], rType = 6, rClass = 1, rTTL = 300,
     rRData = [0, 0] @ put_u32 s @ replicate 16 0\<rparr>"

definition exA :: nzf_record where
  "exA = \<lparr>rOwner = [1, 119, 2, 97, 98, 0], rType = 1, rClass = 1, rTTL = 60, rRData = [10, 0, 0, 1]\<rparr>"

definition exImage :: nzf_image where
  "exImage = \<lparr>iOrigin = [2, 65, 98, 0], iSerial = 7, iRecords = [exA, exSOA 7]\<rparr>"

definition exDelta :: nzf_delta where
  "exDelta = \<lparr>dOrigin = [2, 65, 98, 0], dFromSerial = 7, dToSerial = 8,
     dDeleted = [exSOA 7], dAdded = [exSOA 8, exA]\<rparr>"

lemma exImage_encodes: "\<exists>raw. EncodeFull id exImage = Inr raw"
proof -
  have "\<not> isl (EncodeFull id exImage)" by code_simp
  then show ?thesis by (cases "EncodeFull id exImage") auto
qed

lemma exDelta_encodes: "\<exists>raw. EncodeDelta id exDelta = Inr raw"
proof -
  have "\<not> isl (EncodeDelta id exDelta)" by code_simp
  then show ?thesis by (cases "EncodeDelta id exDelta") auto
qed

text \<open>C2. Decoding what \<open>EncodeFull\<close> wrote gives the image back in normal form: the same serial,
  the origin in lower case and the same records in canonical order; the record count must fit the
  32-bit field.\<close>

theorem nzf_full_roundtrip:
  assumes "EncodeFull orbit img = Inr raw" "length (iRecords img) < 2 ^ 32"
  shows "Decode orbit raw = Inr (KindFull, Some \<lparr>iOrigin = lowerName (iOrigin img),
    iSerial = iSerial img, iRecords = SortRecords (iRecords img)\<rparr>, None)"
  using nzf_full.decode_encode [OF assms(1)] assms(2)
  by (simp add: decodeImage_eq image_fits_def normImage_def)

theorem nzf_full_roundtrip_witness:
  "Decode id (case EncodeFull id exImage of Inr raw \<Rightarrow> raw | Inl _ \<Rightarrow> []) =
   Inr (KindFull, Some \<lparr>iOrigin = [2, 97, 98, 0], iSerial = 7, iRecords = [exSOA 7, exA]\<rparr>, None)"
proof -
  obtain raw where raw: "EncodeFull id exImage = Inr raw" using exImage_encodes by blast
  have n: "lowerName (iOrigin exImage) = [2, 97, 98, 0]" by code_simp
  have s: "SortRecords (iRecords exImage) = [exSOA 7, exA]" by code_simp
  have "length (iRecords exImage) < 2 ^ 32" "iSerial exImage = 7" by (simp_all add: exImage_def)
  then show ?thesis using nzf_full_roundtrip [OF raw] raw n s by simp
qed

text \<open>C26. Decoding what \<open>EncodeDelta\<close> wrote gives the delta back: both serials, the origin in lower
  case, and in both halves the SOA first and the remaining records in canonical order.\<close>

theorem nzf_delta_roundtrip:
  assumes "EncodeDelta orbit d = Inr raw" "length (dDeleted d) < 2 ^ 32" "length (dAdded d) < 2 ^ 32"
  shows "Decode orbit raw = Inr (KindDelta, None, Some \<lparr>dOrigin = lowerName (dOrigin d),
    dFromSerial = dFromSerial d, dToSerial = dToSerial d,
    dDeleted = hd (dDeleted d) # SortRecords (tl (dDeleted d)),
    dAdded = hd (dAdded d) # SortRecords (tl (dAdded d))\<rparr>)"
proof -
  have "sortTail (dDeleted d) = hd (dDeleted d) # SortRecords (tl (dDeleted d))"
      "sortTail (dAdded d) = hd (dAdded d) # SortRecords (tl (dAdded d))"
    using assms(1) by (auto simp: EncodeDelta_Inr)
  then show ?thesis
    using nzf_delta.decode_encode [OF assms(1)] assms(2,3)
    by (simp add: decodeDelta_eq delta_fits_def normDelta_def)
qed

theorem nzf_delta_roundtrip_witness:
  "Decode id (case EncodeDelta id exDelta of Inr raw \<Rightarrow> raw | Inl _ \<Rightarrow> []) =
   Inr (KindDelta, None, Some \<lparr>dOrigin = [2, 97, 98, 0], dFromSerial = 7, dToSerial = 8,
     dDeleted = [exSOA 7], dAdded = [exSOA 8, exA]\<rparr>)"
proof -
  obtain raw where raw: "EncodeDelta id exDelta = Inr raw" using exDelta_encodes by blast
  have n: "lowerName (dOrigin exDelta) = [2, 97, 98, 0]" by code_simp
  have s: "SortRecords [exA] = [exA]" "SortRecords [] = []" by (simp_all add: SortRecords_def)
  have "length (dDeleted exDelta) < 2 ^ 32" "length (dAdded exDelta) < 2 ^ 32"
    by (simp_all add: exDelta_def)
  from nzf_delta_roundtrip [OF raw this] raw n s show ?thesis by (simp add: exDelta_def)
qed

text \<open>C12. \<open>Decode\<close> accepts exactly the byte strings that are the header and the records of an
  image all of whose checks hold, in the order the image lists them: so no byte string is read
  loosely, and no octet is left over.\<close>

theorem nzf_decode_full_exact:
  "Decode orbit raw = Inr (k, Some img, od) \<longleftrightarrow>
   k = KindFull \<and> od = None \<and>
   checkOrigin (iOrigin img) = Inr () \<and>
   list_all (\<lambda>rec. checkRecord orbit rec (iOrigin img) = Inr ()) (iRecords img) \<and>
   checkFullSOA orbit (iRecords img) (iOrigin img) (iSerial img) = Inr () \<and>
   length (iRecords img) < 2 ^ 32 \<and>
   raw = magic @ [KindFull, 0, word_of_nat (length (iOrigin img))] @ iOrigin img
     @ put_u32 (iSerial img) @ put_u32 0 @ put_u32 (word_of_nat (length (iRecords img)))
     @ put_u32 0 @ appendRecords (iRecords img)"
  by (auto simp: Decode_full_iff validImage_def list_all_iff fullHeader_def headerBytes_def)

text \<open>No two byte strings decode to the same value.\<close>

lemma nzf_decode_injective:
  assumes "Decode orbit raw = Inr v" "Decode orbit raw' = Inr v"
  shows "raw = raw'"
proof -
  obtain k oi od where v: "v = (k, oi, od)" by (cases v)
  show ?thesis
  proof (cases oi)
    case (Some img)
    with assms v show ?thesis by (simp add: Decode_full_iff)
  next
    case None
    with assms v obtain d where "od = Some d"
      by (cases od) (auto simp: Decode_Inr_iff split: if_splits)
    with assms v show ?thesis by (simp add: Decode_delta_iff)
  qed
qed

end
