(* ===== verification/Nzf_Laws.thy ===== *)
theory Nzf_Laws
  imports Nzf_Encode
begin

text \<open>
  The order and the containment test of package \<open>nzf\<close> against what they stand for: the
  canonical DNS name order of RFC 4034 section 6.1, and "is a subdomain of, ignoring case".
\<close>

section \<open>Wire names determine their labels\<close>

lemma length_octet_eq:
  "length l < 64 \<Longrightarrow> length m < 64 \<Longrightarrow>
   (word_of_nat (length l) :: byte) = word_of_nat (length m) \<longleftrightarrow> length l = length m"
  by (auto simp: word_of_nat_eq_iff take_bit_nat_eq_self_iff take_bit_nat_def)

lemma wire_of_inj: "good_labels ls \<Longrightarrow> good_labels ms \<Longrightarrow> wire_of ls = wire_of ms \<longleftrightarrow> ls = ms"
proof (induction ls arbitrary: ms)
  case Nil
  then show ?case by (cases ms) (auto simp: length_octet_zero)
next
  case (Cons l ls)
  show ?case
  proof (cases ms)
    case Nil
    then show ?thesis using Cons.prems by (auto simp: length_octet_zero)
  next
    case (Cons m ms')
    then show ?thesis
      using Cons.prems Cons.IH [of ms'] length_octet_eq [of l m] by auto
  qed
qed

lemma lowerByte_length: "length l < 64 \<Longrightarrow> lowerByte (word_of_nat (length l)) = word_of_nat (length l)"
  by (rule word_unat_eq_iff [THEN iffD2]) (simp add: unat_lowerByte)

lemma map_lower_wire: "good_labels ls \<Longrightarrow> map lowerByte (wire_of ls) = wire_of (lowerLabels ls)"
  by (induction ls) (simp_all add: lowerByte_length, simp add: lowerByte_def)

section \<open>EqualFold on ASCII\<close>

definition ascii :: "byte list \<Rightarrow> bool" where
  "ascii s \<longleftrightarrow> list_all (\<lambda>b. b < 128) s"

lemma runes_ascii: "ascii s \<Longrightarrow> runes s = map unat s"
proof (induction s)
  case (Cons b s)
  then have "unat b < 128" by (simp add: ascii_def word_less_nat_alt)
  then show ?case using Cons by (simp add: runes.simps [of "b # s"] decode_rune_def ascii_def)
qed simp

lemma EqualFold_ascii:
  assumes "ascii s" "ascii t"
  shows "EqualFold orbit s t \<longleftrightarrow> map lowerByte s = map lowerByte t"
proof -
  have f: "map (fold_rune orbit) (map unat u) = map unat (map lowerByte u)" if "ascii u" for u
    using that by (induction u) (auto simp: ascii_def fold_rune_def unat_lowerByte word_less_nat_alt)
  have "map unat x = map unat y \<longleftrightarrow> x = y" for x y :: "byte list"
    by (rule inj_map_eq_map) (simp add: inj_def word_unat_eq_iff)
  then show ?thesis
    using f [OF assms(1)] f [OF assms(2)] by (simp only: EqualFold_def runes_ascii assms)
qed

lemma ascii_wire: "good_labels ls \<Longrightarrow> ascii (wire_of ls) \<longleftrightarrow> list_all ascii ls"
proof (induction ls)
  case (Cons l ls)
  then have "(word_of_nat (length l) :: byte) < 128" by (simp add: word_less_nat_alt)
  with Cons show ?case by (simp add: ascii_def)
qed (simp add: ascii_def)

section \<open>Properties\<close>

text \<open>C10. Comparing two canonical keys octet by octet compares the names in the canonical order of
  RFC 4034 section 6.1: label by label from the root, each label as a lower-case octet string,
  a prefix first. Names differing only in ASCII case have the same key, and no others do.\<close>

theorem CanonicalKey_order:
  assumes "good_labels a" "good_labels b" "length a < 128" "length b < 128"
  shows "(CanonicalKey (wire_of a) < CanonicalKey (wire_of b) \<longleftrightarrow>
      map (map lowerByte) (rev a) < map (map lowerByte) (rev b)) \<and>
    (CanonicalKey (wire_of a) = CanonicalKey (wire_of b) \<longleftrightarrow>
      map (map lowerByte) a = map (map lowerByte) b)"
proof -
  have "map (map lowerByte) (rev a) = map (map lowerByte) (rev b) \<longleftrightarrow>
      map (map lowerByte) a = map (map lowerByte) b"
    by (simp add: rev_map [symmetric])
  then show ?thesis
    using assms by (simp add: CanonicalKey_wire labelKey_less_iff labelKey_eq_iff)
qed

theorem CanonicalKey_order_witness:
  "CanonicalKey (wire_of [[122], [97]]) < CanonicalKey (wire_of [[1], [98]]) \<and>
   CanonicalKey (wire_of [[90], [97]]) = CanonicalKey (wire_of [[122], [65]])"
  using CanonicalKey_order [of "[[122], [97]]" "[[1], [98]]"]
    CanonicalKey_order [of "[[90], [97]]" "[[122], [65]]"]
  by (simp add: lowerByte_def)

text \<open>\<open>SortRecords\<close> is a stable sort: its result is ordered by owner key, type and RDATA, is a
  permutation of the input, and keeps the input order of records that compare equal.\<close>

lemma SortRecords_correct:
  "sorted (map recordOrder (SortRecords rs)) \<and> mset (SortRecords rs) = mset rs \<and>
   filter (\<lambda>r. recordOrder r = k) (SortRecords rs) = filter (\<lambda>r. recordOrder r = k) rs"
  by (simp add: SortRecords_sorted SortRecords_mset SortRecords_stable)

text \<open>On ASCII names \<open>within\<close> decides exactly whether the owner is the origin or below it,
  ignoring case: its labels end with the labels of the origin.\<close>

lemma within_ascii:
  assumes "good_labels ls" "good_labels os" "list_all ascii ls" "list_all ascii os"
  shows "within orbit (wire_of ls) (wire_of os) \<longleftrightarrow>
    (\<exists>cs ds. ls = cs @ ds \<and> map (map lowerByte) ds = map (map lowerByte) os)"
proof -
  have eq: "length (wire_of ds) = length (wire_of os) \<and> EqualFold orbit (wire_of ds) (wire_of os) \<longleftrightarrow>
      lowerLabels ds = lowerLabels os" if "ls = cs @ ds" for cs ds
  proof -
    have d: "good_labels ds" "list_all ascii ds" using assms that by auto
    have "EqualFold orbit (wire_of ds) (wire_of os) \<longleftrightarrow> wire_of (lowerLabels ds) = wire_of (lowerLabels os)"
      using d assms by (simp add: EqualFold_ascii ascii_wire map_lower_wire)
    also have "\<dots> \<longleftrightarrow> lowerLabels ds = lowerLabels os"
      using d assms by (simp add: wire_of_inj)
    finally show ?thesis
      by (metis length_wire_lower)
  qed
  show ?thesis using assms eq by (auto simp: within_wire_iff)
qed


end
