(* ===== verification/Engine_Names.thy ===== *)
theory Engine_Names
  imports Nzf_Laws "HOL-Library.Sublist"
begin

text \<open>
  The name helpers of the Rust engine (\<open>engine/src/authoritative/name.rs\<close>), the twins of the Go
  functions of package \<open>nzf\<close>: label offsets, canonical keys in a vector and in the fixed buffer
  of the query path, and the subdomain test. The engine stores offsets as \<open>u16\<close>; Rust's
  \<open>to_ascii_lowercase\<close> on an octet is \<open>lowerByte\<close>.
\<close>

section \<open>name.rs\<close>

function label_offsets_from :: "byte list \<Rightarrow> nat \<Rightarrow> nat \<Rightarrow> u16 list" where
  "label_offsets_from wire i n =
     (if i < length wire \<and> wire ! i \<noteq> 0 \<and> n < 128 \<and> i + 1 + unat (wire ! i) \<le> length wire
      then word_of_nat i # label_offsets_from wire (i + (unat (wire ! i) + 1)) (n + 1)
      else [])"
  by pat_completeness auto
termination
  by (relation "measure (\<lambda>(wire, i, n). length wire - i)") auto

declare label_offsets_from.simps [simp del]

definition label_offsets :: "byte list \<Rightarrow> u16 list" where
  "label_offsets wire = label_offsets_from wire 0 0"

definition lowercase_into :: "byte list \<Rightarrow> byte list" where
  "lowercase_into wire = map lowerByte (take (min (length wire) 255) wire)"

definition canon_octet :: "byte \<Rightarrow> byte list" where
  "canon_octet b = (let c = lowerByte b in if c = 0 then [1, 1] else if c = 1 then [1, 2] else [c])"

definition label_at :: "byte list \<Rightarrow> u16 \<Rightarrow> byte list" where
  "label_at wire o' = take (unat (wire ! unat o')) (drop (unat o' + 1) wire)"

text \<open>\<open>canon_key\<close> appends to \<open>out\<close>.\<close>

definition canon_key :: "byte list \<Rightarrow> byte list \<Rightarrow> byte list" where
  "canon_key wire out =
     foldl (\<lambda>out o'. foldl (\<lambda>out b. out @ canon_octet b) out (label_at wire o') @ [0])
       out (rev (label_offsets wire))"

definition KEY_BUF :: nat where
  "KEY_BUF = 512"

text \<open>The part of the stack buffer \<open>canon_key_buf\<close> has filled; \<open>push\<close> drops an octet once it is full.\<close>

definition key_push :: "byte list \<Rightarrow> byte \<Rightarrow> byte list" where
  "key_push out b = (if length out < KEY_BUF then out @ [b] else out)"

definition canon_key_buf :: "byte list \<Rightarrow> byte list" where
  "canon_key_buf wire =
     foldl (\<lambda>out o'. key_push (foldl (\<lambda>out b. foldl key_push out (canon_octet b)) out (label_at wire o')) 0)
       [] (rev (label_offsets wire))"

definition eq_ignore_ascii_case :: "byte list \<Rightarrow> byte list \<Rightarrow> bool" where
  "eq_ignore_ascii_case a b \<longleftrightarrow> length a = length b \<and> list_all2 (\<lambda>x y. lowerByte x = lowerByte y) a b"

definition is_subdomain :: "byte list \<Rightarrow> byte list \<Rightarrow> bool" where
  "is_subdomain child parent \<longleftrightarrow>
     \<not> (parent = [] \<or> length child < length parent) \<and>
     (let start = length child - length parent in
      eq_ignore_ascii_case (drop start child) parent \<and>
      (start = length child - 1 \<or> list_ex (\<lambda>o'. unat o' = start) (label_offsets child)))"

section \<open>Offsets\<close>

text \<open>At most 128 labels of at most 255 octets: the \<open>u16\<close> offsets never wrap.\<close>

lemma label_offsets_from_eq:
  "i \<le> 256 * n \<Longrightarrow> map unat (label_offsets_from wire i n) = starts_from wire i n"
proof (induction wire i n rule: label_offsets_from.induct)
  case (1 wire i n)
  show ?case
  proof (cases "i < length wire \<and> wire ! i \<noteq> 0 \<and> n < 128 \<and> i + 1 + unat (wire ! i) \<le> length wire")
    case True
    have "unat (wire ! i) < 256" by simp
    then have "unat (wire ! i) + 1 \<le> 256" by linarith
    with "1.prems" have "i + (unat (wire ! i) + 1) \<le> 256 * n + 256" by (rule add_mono)
    then have "i + (unat (wire ! i) + 1) \<le> 256 * (n + 1)" by (simp only: distrib_left mult_1_right)
    then have "map unat (label_offsets_from wire (i + (unat (wire ! i) + 1)) (n + 1)) =
        starts_from wire (i + unat (wire ! i) + 1) (n + 1)"
      using "1.IH" [OF True] by (simp add: ac_simps)
    moreover have "unat (word_of_nat i :: u16) = i"
      using True "1.prems" by (simp add: unat_of_nat)
    ultimately show ?thesis
      using True by (simp add: label_offsets_from.simps [of wire i n] starts_from.simps [of wire i n])
  next
    case False
    then show ?thesis
      by (subst label_offsets_from.simps, subst starts_from.simps) auto
  qed
qed

lemma label_offsets_eq: "map unat (label_offsets wire) = starts_from wire 0 0"
  by (simp add: label_offsets_def label_offsets_from_eq)

lemma starts_from_positions:
  "good_labels bs \<Longrightarrow> n + length bs \<le> 128 \<Longrightarrow>
   starts_from (enc_labels as @ wire_of bs) (length (enc_labels as)) n =
   map (\<lambda>k. length (enc_labels (as @ take k bs))) [0..<length bs]"
proof (induction bs arbitrary: as n)
  case Nil
  show ?case by (subst starts_from.simps) simp
next
  case (Cons l bs)
  let ?w = "enc_labels as @ wire_of (l # bs)"
  have l: "l \<noteq> []" "length l < 64" and g: "good_labels bs" using Cons.prems by auto
  have at: "?w ! length (enc_labels as) = word_of_nat (length l)" by simp
  have split: "?w = enc_labels (as @ [l]) @ wire_of bs" by (simp add: enc_labels_append)
  have pos: "length (enc_labels (as @ [l])) = length (enc_labels as) + length l + 1"
    by (simp add: enc_labels_append)
  have rec: "starts_from ?w (length (enc_labels as) + length l + 1) (n + 1) =
      map (\<lambda>k. length (enc_labels ((as @ [l]) @ take k bs))) [0..<length bs]"
    using Cons.IH [OF g, of "n + 1" "as @ [l]"] Cons.prems(2) by (simp only: split pos) simp
  have "starts_from ?w (length (enc_labels as)) n =
      length (enc_labels as) # starts_from ?w (length (enc_labels as) + length l + 1) (n + 1)"
    using at l length_octet_zero [of l] Cons.prems(2)
    by (subst starts_from.simps) (simp del: wire_of_simps, simp)
  also have "\<dots> = map (\<lambda>k. length (enc_labels (as @ take k (l # bs)))) [0..<length (l # bs)]"
    unfolding rec by (simp add: upt_conv_Cons comp_def del: upt_Suc flip: map_Suc_upt)
  finally show ?case .
qed

lemma label_offsets_set:
  assumes "good_labels ls" "length ls \<le> 128"
  shows "(\<exists>o' \<in> set (label_offsets (wire_of ls)). unat o' = start) \<longleftrightarrow>
    (\<exists>cs l ds. ls = cs @ l # ds \<and> start = length (enc_labels cs))"
proof -
  have "(\<exists>o' \<in> set (label_offsets (wire_of ls)). unat o' = start) \<longleftrightarrow>
      start \<in> set (map unat (label_offsets (wire_of ls)))" by auto
  also have "\<dots> \<longleftrightarrow> (\<exists>k < length ls. start = length (enc_labels (take k ls)))"
    using starts_from_positions [of ls 0 "[]"] assms by (auto simp: label_offsets_eq)
  also have "\<dots> \<longleftrightarrow> (\<exists>cs l ds. ls = cs @ l # ds \<and> start = length (enc_labels cs))"
  proof
    assume "\<exists>k < length ls. start = length (enc_labels (take k ls))"
    then obtain k where "k < length ls" "start = length (enc_labels (take k ls))" by blast
    then show "\<exists>cs l ds. ls = cs @ l # ds \<and> start = length (enc_labels cs)"
      using id_take_nth_drop [of k ls] by blast
  next
    assume "\<exists>cs l ds. ls = cs @ l # ds \<and> start = length (enc_labels cs)"
    then obtain cs l ds where "ls = cs @ l # ds" "start = length (enc_labels cs)" by blast
    then show "\<exists>k < length ls. start = length (enc_labels (take k ls))"
      by (intro exI [of _ "length cs"]) simp
  qed
  finally show ?thesis .
qed

section \<open>Keys\<close>

lemma canon_octet_eq: "canon_octet = escapeOctet"
  by (simp add: fun_eq_iff canon_octet_def escapeOctet_def)

lemma foldl_concat: "foldl (\<lambda>out x. out @ f x) acc xs = acc @ concat (map f xs)"
  by (induction xs arbitrary: acc) simp_all

lemma canon_key_eq: "canon_key wire out = out @ CanonicalKey wire"
proof -
  let ?seg = "\<lambda>s. escape (take (unat (wire ! s)) (drop (s + 1) wire)) @ [0]"
  have "canon_key wire out = out @ concat (map (\<lambda>o'. ?seg (unat o')) (rev (label_offsets wire)))"
    by (simp add: canon_key_def canon_octet_eq label_at_def escape_def foldl_concat)
  also have "map (\<lambda>o'. ?seg (unat o')) (rev (label_offsets wire)) =
      map ?seg (rev (map unat (label_offsets wire)))"
    by (simp add: rev_map)
  finally show ?thesis
    by (simp add: label_offsets_eq CanonicalKey_def escape_def)
qed

lemma key_push_take: "key_push (take KEY_BUF x) b = take KEY_BUF (x @ [b])"
  by (simp add: key_push_def)

lemma foldl_key_push: "foldl key_push (take KEY_BUF x) bs = take KEY_BUF (x @ bs)"
proof (induction bs arbitrary: x)
  case (Cons b bs)
  from Cons.IH [of "x @ [b]"] show ?case by (simp add: key_push_take)
qed simp

lemma foldl_key_octets:
  "foldl (\<lambda>out b. foldl key_push out (f b)) (take KEY_BUF x) bs = take KEY_BUF (x @ concat (map f bs))"
proof (induction bs arbitrary: x)
  case (Cons b bs)
  from Cons.IH [of "x @ f b"] show ?case by (simp add: foldl_key_push)
qed simp

lemma canon_key_buf_take: "canon_key_buf wire = take KEY_BUF (canon_key wire [])"
proof -
  have "foldl (\<lambda>out o'. key_push (foldl (\<lambda>out b. foldl key_push out (canon_octet b)) out (label_at wire o')) 0)
      (take KEY_BUF x) os =
    take KEY_BUF (foldl (\<lambda>out o'. foldl (\<lambda>out b. out @ canon_octet b) out (label_at wire o') @ [0]) x os)"
    for x os
  proof (induction os arbitrary: x)
    case (Cons o' os)
    show ?case
      by (simp only: foldl.simps foldl_key_octets key_push_take Cons.IH foldl_concat)
  qed simp
  from this [of "[]"] show ?thesis by (simp add: canon_key_buf_def canon_key_def)
qed

lemma length_escape: "length (escape l) \<le> 2 * length l"
  by (induction l) (auto simp: escape_def escapeOctet_def Let_def)

lemma length_labelKey: "length (labelKey ls) + length ls + 2 \<le> 2 * length (wire_of ls)"
proof (induction ls)
  case (Cons l ls)
  then show ?case using length_escape [of l] by simp
qed simp

lemma length_CanonicalKey:
  assumes "validName b = Inr ()"
  shows "length (CanonicalKey b) \<le> 508"
proof -
  from assms obtain ls where ls: "good_labels ls" "b = wire_of ls" "length (wire_of ls) \<le> 255"
    by (auto simp: validName_iff)
  then have "length ls \<le> 128" using length_wire_of_ge [of ls] by simp
  moreover have "length (wire_of (rev ls)) = length (wire_of ls)"
    by (induction ls) (simp_all add: wire_of_def enc_labels_append)
  ultimately show ?thesis using ls length_labelKey [of "rev ls"] by (simp add: CanonicalKey_wire)
qed

section \<open>The subdomain test\<close>

lemma eq_ignore_iff: "eq_ignore_ascii_case a b \<longleftrightarrow> map lowerByte a = map lowerByte b"
  by (auto simp: eq_ignore_ascii_case_def list_all2_conv_all_nth list_eq_iff_nth_eq)

lemma is_subdomain_wire:
  assumes "good_labels ls" "length ls \<le> 128" "parent \<noteq> []"
  shows "is_subdomain (wire_of ls) parent \<longleftrightarrow>
    (\<exists>cs ds. ls = cs @ ds \<and> map lowerByte (wire_of ds) = map lowerByte parent)"
proof
  let ?w = "wire_of ls"
  assume sub: "is_subdomain ?w parent"
  let ?start = "length ?w - length parent"
  from sub have len: "length parent \<le> length ?w"
    and eq: "map lowerByte (drop ?start ?w) = map lowerByte parent"
    and at: "?start = length ?w - 1 \<or> (\<exists>o' \<in> set (label_offsets ?w). unat o' = ?start)"
    by (auto simp: is_subdomain_def Let_def eq_ignore_iff list_ex_iff)
  from at have "\<exists>cs ds. ls = cs @ ds \<and> ?start = length (enc_labels cs)"
  proof
    assume "?start = length ?w - 1"
    then show ?thesis by (intro exI [of _ ls] exI [of _ "[]"]) (simp add: wire_of_def)
  next
    assume "\<exists>o' \<in> set (label_offsets ?w). unat o' = ?start"
    then show ?thesis using label_offsets_set [OF assms(1,2)] by blast
  qed
  then obtain cs ds where cd: "ls = cs @ ds" "?start = length (enc_labels cs)" by blast
  have "drop ?start ?w = wire_of ds" using cd by (simp add: wire_of_def enc_labels_append)
  with eq cd(1) show "\<exists>cs ds. ls = cs @ ds \<and> map lowerByte (wire_of ds) = map lowerByte parent" by auto
next
  let ?w = "wire_of ls"
  assume "\<exists>cs ds. ls = cs @ ds \<and> map lowerByte (wire_of ds) = map lowerByte parent"
  then obtain cs ds where cd: "ls = cs @ ds" and eq: "map lowerByte (wire_of ds) = map lowerByte parent"
    by blast
  from eq have len: "length parent = length (wire_of ds)" by (metis length_map)
  have w: "?w = enc_labels cs @ wire_of ds" using cd by (simp add: wire_of_def enc_labels_append)
  have start: "length ?w - length parent = length (enc_labels cs)" using w len by simp
  have "length (enc_labels cs) = length ?w - 1 \<or>
      (\<exists>o' \<in> set (label_offsets ?w). unat o' = length (enc_labels cs))"
  proof (cases ds)
    case Nil
    then show ?thesis using w by simp
  next
    case (Cons l ds')
    then show ?thesis using label_offsets_set [OF assms(1,2)] cd by blast
  qed
  then show "is_subdomain ?w parent"
    using assms(3) eq w len by (auto simp: is_subdomain_def Let_def eq_ignore_iff list_ex_iff start)
qed

section \<open>Ancestors and key prefixes\<close>

lemma zero_notin_escape: "0 \<notin> set (escape l)"
  by (auto simp: escape_def escapeOctet_def Let_def)

lemma escape_eq_iff: "escape l = escape m \<longleftrightarrow> map lowerByte l = map lowerByte m"
  using labelKey_eq_iff [of "[l]" "[m]"] by simp

lemma separator_eq_iff:
  "z \<notin> set u \<Longrightarrow> z \<notin> set v \<Longrightarrow> u @ z # x = v @ z # y \<longleftrightarrow> u = v \<and> x = y"
proof (induction u arbitrary: v)
  case Nil
  then show ?case by (cases v) auto
next
  case (Cons a u)
  then show ?case by (cases v) auto
qed

lemma labelKey_prefix: "prefix (labelKey a) (labelKey b) \<longleftrightarrow> prefix (lowerLabels a) (lowerLabels b)"
proof (induction a arbitrary: b)
  case (Cons l a)
  show ?case
  proof (cases b)
    case Nil
    then show ?thesis by simp
  next
    case (Cons m b')
    have "prefix (labelKey (l # a)) (labelKey b) \<longleftrightarrow>
        (\<exists>z. escape m @ 0 # labelKey b' = escape l @ 0 # (labelKey a @ z))"
      by (simp add: Cons prefix_def)
    also have "\<dots> \<longleftrightarrow> escape m = escape l \<and> prefix (labelKey a) (labelKey b')"
      by (simp add: separator_eq_iff [OF zero_notin_escape zero_notin_escape] prefix_def)
    also have "\<dots> \<longleftrightarrow> prefix (lowerLabels (l # a)) (lowerLabels b)"
      using Cons.IH [of b'] by (auto simp: Cons escape_eq_iff)
    finally show ?thesis .
  qed
qed simp

lemma prefix_rev_suffix:
  "prefix (map f (rev os)) (map f (rev ls)) \<longleftrightarrow> (\<exists>cs ds. ls = cs @ ds \<and> map f ds = map f os)"
proof -
  have "prefix (map f (rev os)) (map f (rev ls)) \<longleftrightarrow> suffix (map f os) (map f ls)"
    by (simp add: suffix_to_prefix rev_map)
  also have "\<dots> \<longleftrightarrow> (\<exists>cs ds. ls = cs @ ds \<and> map f ds = map f os)"
    unfolding suffix_def map_eq_append_conv by metis
  finally show ?thesis .
qed

section \<open>Properties\<close>

text \<open>C17. The engine's \<open>canon_key\<close> and the management plane's \<open>CanonicalKey\<close> produce identical
  octets on every input, malformed names included.\<close>

theorem canon_key_twin: "canon_key wire out = out @ CanonicalKey wire"
  by (rule canon_key_eq)

text \<open>The fixed buffer of the query path is large enough: for every valid name
  \<open>canon_key_buf\<close> holds the whole key, which has at most 508 of its 512 octets.\<close>

lemma canon_key_buf_complete:
  assumes "validName wire = Inr ()"
  shows "canon_key_buf wire = CanonicalKey wire \<and> length (CanonicalKey wire) \<le> 508"
  using length_CanonicalKey [OF assms] by (simp add: canon_key_buf_take canon_key_eq KEY_BUF_def)

text \<open>The key of a name is a prefix of the key of another exactly when the second name is the
  first or lies below it: prefix search on keys is the subdomain test.\<close>

lemma canon_key_prefix_iff_subdomain:
  assumes "validName child = Inr ()" "validName parent = Inr ()"
  shows "prefix (canon_key parent []) (canon_key child []) \<longleftrightarrow> is_subdomain child parent"
proof -
  from assms obtain ls os where l: "good_labels ls" "child = wire_of ls" "length (wire_of ls) \<le> 255"
    and o: "good_labels os" "parent = wire_of os" "length (wire_of os) \<le> 255"
    by (auto simp: validName_iff)
  then have n: "length ls \<le> 128" "length os \<le> 128"
    using length_wire_of_ge [of ls] length_wire_of_ge [of os] by simp_all
  have "prefix (canon_key parent []) (canon_key child []) \<longleftrightarrow>
      (\<exists>cs ds. ls = cs @ ds \<and> lowerLabels ds = lowerLabels os)"
    using l o n by (simp add: canon_key_eq CanonicalKey_wire labelKey_prefix prefix_rev_suffix)
  also have "\<dots> \<longleftrightarrow> (\<exists>cs ds. ls = cs @ ds \<and> map lowerByte (wire_of ds) = map lowerByte (wire_of os))"
  proof -
    have "lowerLabels ds = lowerLabels os \<longleftrightarrow> map lowerByte (wire_of ds) = map lowerByte (wire_of os)"
      if "ls = cs @ ds" for cs ds
      using l o that by (simp add: map_lower_wire wire_of_inj)
    then show ?thesis by blast
  qed
  also have "\<dots> \<longleftrightarrow> is_subdomain child parent"
    using l o n by (simp add: is_subdomain_wire)
  finally show ?thesis .
qed

end
