(* ===== verification/Engine_Nzf.thy ===== *)
theory Engine_Nzf
  imports Engine_Names
begin

text \<open>
  The engine's NZF1 parser (\<open>engine/src/authoritative/nzf.rs\<close>), written independently of the Go
  codec. A \<open>RecordRef\<close> has the fields of a Go \<open>Record\<close> and a \<open>Reader\<close> those of a Go reader,
  so both reuse those record types. The last section relates \<open>parse\<close> to \<open>nzf.Decode\<close>.
\<close>

section \<open>nzf.rs\<close>

datatype NzfError = RsTruncated | RsBadMagic | RsBadKind | RsBadName | RsOutOfZone | RsBadRecord
  | RsTrailing | RsTooLarge

datatype rs_kind = Full | Delta

record rs_parsed =
  pKind :: rs_kind
  pOrigin :: "byte list"
  pSerial :: u32
  pFromSerial :: u32
  pA :: "nzf_record list"
  pB :: "nzf_record list"

definition MIN_RECORD :: nat where
  "MIN_RECORD = 11"

text \<open>\<open>from_be_bytes\<close> of the integer types.\<close>

definition be16 :: "byte \<Rightarrow> byte \<Rightarrow> u16" where
  "be16 a b = push_bit 8 (ucast a) OR ucast b"

definition be32 :: "byte \<Rightarrow> byte \<Rightarrow> byte \<Rightarrow> byte \<Rightarrow> u32" where
  "be32 a b c d = push_bit 24 (ucast a) OR push_bit 16 (ucast b) OR push_bit 8 (ucast c) OR ucast d"

definition rs_take :: "reader \<Rightarrow> nat \<Rightarrow> NzfError + (byte list \<times> reader)" where
  "rs_take r n =
     (if length (rdB r) - rdOff r < n then Inl RsTruncated
      else Inr (take n (drop (rdOff r) (rdB r)), r\<lparr>rdOff := rdOff r + n\<rparr>))"

definition rs_u8 :: "reader \<Rightarrow> NzfError + (byte \<times> reader)" where
  "rs_u8 r = bindE (rs_take r 1) (\<lambda>(s, r'). Inr (s ! 0, r'))"

definition rs_u16 :: "reader \<Rightarrow> NzfError + (u16 \<times> reader)" where
  "rs_u16 r = bindE (rs_take r 2) (\<lambda>(s, r'). Inr (be16 (s ! 0) (s ! 1), r'))"

definition rs_u32 :: "reader \<Rightarrow> NzfError + (u32 \<times> reader)" where
  "rs_u32 r = bindE (rs_take r 4) (\<lambda>(s, r'). Inr (be32 (s ! 0) (s ! 1) (s ! 2) (s ! 3), r'))"

function check_name_from :: "byte list \<Rightarrow> nat \<Rightarrow> NzfError + unit" where
  "check_name_from name i =
     (if length name \<le> i then Inl RsBadName
      else if name ! i = 0 then (if i + 1 = length name then Inr () else Inl RsBadName)
      else if 64 \<le> name ! i then Inl RsBadName
      else check_name_from name (i + (unat (name ! i) + 1)))"
  by pat_completeness auto
termination
  by (relation "measure (\<lambda>(name, i). length name - i)") auto

declare check_name_from.simps [simp del]

definition check_name :: "byte list \<Rightarrow> NzfError + unit" where
  "check_name name = (if name = [] \<or> 255 < length name then Inl RsBadName else check_name_from name 0)"

definition rs_name :: "reader \<Rightarrow> NzfError + (byte list \<times> reader)" where
  "rs_name r =
     bindE (rs_u8 r) (\<lambda>(len, r1).
     bindE (rs_take r1 (unat len)) (\<lambda>(name, r2).
     bindE (check_name name) (\<lambda>_. Inr (name, r2))))"

definition rs_record :: "byte list \<Rightarrow> reader \<Rightarrow> NzfError + (nzf_record \<times> reader)" where
  "rs_record origin r =
     bindE (rs_name r) (\<lambda>(owner, r2).
     bindE (requireE (is_subdomain owner origin) RsOutOfZone) (\<lambda>_.
     bindE (rs_u16 r2) (\<lambda>(rtype, r3).
     bindE (rs_u16 r3) (\<lambda>(cls, r4).
     bindE (requireE (cls = 1) RsBadRecord) (\<lambda>_.
     bindE (rs_u32 r4) (\<lambda>(ttl, r5).
     bindE (rs_u16 r5) (\<lambda>(rdlen, r6).
     bindE (rs_take r6 (unat rdlen)) (\<lambda>(rdata, r7).
     Inr (\<lparr>rOwner = owner, rType = rtype, rClass = cls, rTTL = ttl, rRData = rdata\<rparr>, r7)))))))))"

fun rs_records :: "byte list \<Rightarrow> nat \<Rightarrow> reader \<Rightarrow> NzfError + (nzf_record list \<times> reader)" where
  "rs_records origin 0 r = Inr ([], r)"
| "rs_records origin (Suc n) r =
     bindE (rs_record origin r) (\<lambda>(rec, r').
     bindE (rs_records origin n r') (\<lambda>(recs, r''). Inr (rec # recs, r'')))"

text \<open>The header fields \<open>parse\<close> reads before any record.\<close>

definition rs_header :: "byte list \<Rightarrow> NzfError + (nzf_header \<times> reader)" where
  "rs_header buf =
     bindE (rs_take \<lparr>rdB = buf, rdOff = 0\<rparr> 4) (\<lambda>(m, r0).
     bindE (requireE (m = magic) RsBadMagic) (\<lambda>_.
     bindE (rs_u8 r0) (\<lambda>(kind, r1).
     bindE (requireE (kind = 1 \<or> kind = 2) RsBadKind) (\<lambda>_.
     bindE (rs_u8 r1) (\<lambda>(reserved, r2).
     bindE (requireE (reserved = 0) RsBadKind) (\<lambda>_.
     bindE (rs_name r2) (\<lambda>(origin, r4).
     bindE (requireE (2 \<le> length origin) RsBadName) (\<lambda>_.
     bindE (rs_u32 r4) (\<lambda>(serial, r5).
     bindE (rs_u32 r5) (\<lambda>(from_serial, r6).
     bindE (rs_u32 r6) (\<lambda>(count_a, r7).
     bindE (rs_u32 r7) (\<lambda>(count_b, r8).
     Inr (\<lparr>hKind = kind, hOrigin = origin, hSerial = serial, hFrom = from_serial,
       hCountA = count_a, hCountB = count_b\<rparr>, r8)))))))))))))"

text \<open>\<open>usize\<close> has 64 bits: \<open>saturating_add\<close> of two 32-bit counts does not saturate.\<close>

definition saturating_add :: "nat \<Rightarrow> nat \<Rightarrow> nat" where
  "saturating_add a b = min (a + b) (2 ^ 64 - 1)"

definition rs_parse :: "byte list \<Rightarrow> NzfError + rs_parsed" where
  "rs_parse buf =
     bindE (rs_header buf) (\<lambda>(h, r).
     let kind = (if hKind h = 1 then Full else Delta) in
     bindE (requireE (saturating_add (unat (hCountA h)) (unat (hCountB h))
       \<le> (length buf - rdOff r) div MIN_RECORD) RsTooLarge) (\<lambda>_.
     bindE (requireE (\<not> (kind = Full \<and> (hFrom h \<noteq> 0 \<or> hCountB h \<noteq> 0))) RsBadRecord) (\<lambda>_.
     bindE (rs_records (hOrigin h) (unat (hCountA h)) r) (\<lambda>(a, r').
     bindE (rs_records (hOrigin h) (unat (hCountB h)) r') (\<lambda>(b, r'').
     bindE (requireE (rdOff r'' = length buf) RsTrailing) (\<lambda>_.
     Inr \<lparr>pKind = kind, pOrigin = hOrigin h, pSerial = hSerial h, pFromSerial = hFrom h,
       pA = a, pB = b\<rparr>))))))"

section \<open>The reader\<close>

lemma rs_take_iff: "rs_take r n = Inr x \<longleftrightarrow> rd_take r n = Inr x"
  by (simp add: rs_take_def rd_take_def)

lemma list_of_2: "length s = 2 \<Longrightarrow> s = [s ! 0, s ! 1]"
  by (cases s; cases "tl s") auto

lemma list_of_4: "length s = 4 \<Longrightarrow> s = [s ! 0, s ! 1, s ! 2, s ! 3]"
  by (simp add: list_eq_iff_nth_eq nth_Cons' numeral_eq_Suc less_Suc_eq)

lemma rs_take_Inr [reads]:
  "rs_take r n = Inr (s, r') \<longleftrightarrow> (\<exists>t. rest r = s @ t \<and> length s = n \<and> r' = adv r n)"
  by (simp add: rs_take_iff reads)

lemma rs_u8_Inr [reads]: "rs_u8 r = Inr (b, r') \<longleftrightarrow> (\<exists>t. rest r = b # t \<and> r' = adv r 1)"
proof -
  have "rs_u8 r = Inr (b, r') \<longleftrightarrow> (\<exists>s t. rest r = s @ t \<and> length s = 1 \<and> r' = adv r 1 \<and> b = s ! 0)"
    by (auto simp: rs_u8_def bindE_Inr_iff reads)
  also have "\<dots> \<longleftrightarrow> (\<exists>t. rest r = b # t \<and> r' = adv r 1)"
  proof
    assume "\<exists>t. rest r = b # t \<and> r' = adv r 1"
    then obtain t where "rest r = [b] @ t" "r' = adv r 1" by auto
    moreover have "length [b] = 1" "b = [b] ! 0" by simp_all
    ultimately show "\<exists>s t. rest r = s @ t \<and> length s = 1 \<and> r' = adv r 1 \<and> b = s ! 0" by blast
  qed (auto simp: length_Suc_conv)
  finally show ?thesis .
qed

lemma rs_u16_Inr [reads]: "rs_u16 r = Inr (w, r') \<longleftrightarrow> (\<exists>t. rest r = put_u16 w @ t \<and> r' = adv r 2)"
proof -
  have "rs_u16 r = Inr (w, r') \<longleftrightarrow> rd_u16 r = Inr (w, r')"
  proof -
    have "get_u16 s = Some (be16 (s ! 0) (s ! 1))" if "length s = 2" for s
      by (subst list_of_2 [OF that]) (simp only: get_u16.simps be16_def)
    then show ?thesis
      by (fastforce simp: rs_u16_def rd_u16_def bindE_Inr_iff rs_take_iff rd_take_Inr split: option.splits)
  qed
  then show ?thesis by (simp add: reads)
qed

lemma rs_u32_Inr [reads]: "rs_u32 r = Inr (w, r') \<longleftrightarrow> (\<exists>t. rest r = put_u32 w @ t \<and> r' = adv r 4)"
proof -
  have "rs_u32 r = Inr (w, r') \<longleftrightarrow> rd_u32 r = Inr (w, r')"
  proof -
    have "get_u32 s = Some (be32 (s ! 0) (s ! 1) (s ! 2) (s ! 3))" if "length s = 4" for s
      by (subst list_of_4 [OF that]) (simp only: get_u32.simps be32_def)
    then show ?thesis
      by (fastforce simp: rs_u32_def rd_u32_def bindE_Inr_iff rs_take_iff rd_take_Inr split: option.splits)
  qed
  then show ?thesis by (simp add: reads)
qed

lemma check_name_from_iff:
  "length b \<le> 255 \<Longrightarrow> check_name_from b i = Inr () \<longleftrightarrow> nameEnd_from b i = Inr (length b)"
proof (induction b i rule: check_name_from.induct)
  case (1 b i)
  consider "length b \<le> i" | "i < length b" "b ! i = 0" | "i < length b" "b ! i \<noteq> 0" "64 \<le> b ! i"
    | "i < length b" "b ! i \<noteq> 0" "\<not> 64 \<le> b ! i" by linarith
  then show ?case
  proof cases
    case 4
    let ?j = "i + (unat (b ! i) + 1)"
    have ih: "check_name_from b ?j = Inr () \<longleftrightarrow> nameEnd_from b ?j = Inr (length b)"
      using "1.IH" 4 "1.prems" by simp
    have "nameEnd_from b ?j \<noteq> Inr (length b)" if "255 < ?j"
      using that "1.prems" by (subst nameEnd_from.simps) simp
    moreover have "\<not> 64 \<le> unat (b ! i)" "unat (b ! i) \<noteq> 0"
      using 4 by (simp_all add: word_le_nat_alt unat_0_iff)
    ultimately show ?thesis
      using ih 4
      by (subst check_name_from.simps, subst nameEnd_from.simps) (auto simp: ac_simps Let_def)
  next
    case 2
    then show ?thesis using "1.prems"
      by (subst check_name_from.simps, subst nameEnd_from.simps) (auto simp: Let_def)
  next
    case 3
    then have "64 \<le> unat (b ! i)" "unat (b ! i) \<noteq> 0" by (simp_all add: word_le_nat_alt unat_0_iff)
    with 3 show ?thesis
      by (subst check_name_from.simps, subst nameEnd_from.simps) (simp add: Let_def)
  qed (subst check_name_from.simps, subst nameEnd_from.simps, simp)
qed

lemma check_name_iff: "check_name b = Inr u \<longleftrightarrow> validName b = Inr ()"
proof
  assume c: "check_name b = Inr u"
  then have "length b \<le> 255" "check_name_from b 0 = Inr ()" by (auto simp: check_name_def split: if_splits)
  then show "validName b = Inr ()"
    by (simp add: check_name_from_iff validName_def nameEnd_def)
next
  assume v: "validName b = Inr ()"
  then have "length b \<le> 255" "b \<noteq> []" by (auto simp: validName_iff)
  moreover from v have "nameEnd_from b 0 = Inr (length b)"
    by (auto simp: validName_def nameEnd_def bindE_Inr_iff)
  ultimately show "check_name b = Inr u"
    by (simp add: check_name_def check_name_from_iff)
qed

section \<open>Records and header\<close>

definition engine_ok :: "nzf_record \<Rightarrow> byte list \<Rightarrow> bool" where
  "engine_ok rec origin \<longleftrightarrow> validName (rOwner rec) = Inr () \<and> is_subdomain (rOwner rec) origin \<and>
     rClass rec = classIN \<and> length (rRData rec) \<le> 65535"

lemma validName_length: "validName b = Inr () \<Longrightarrow> length b < 256"
  by (auto simp: validName_iff)

lemma rs_name_Inr [reads]:
  "rs_name r = Inr (nm, r') \<longleftrightarrow>
   (\<exists>t. rest r = word_of_nat (length nm) # nm @ t \<and> validName nm = Inr () \<and> r' = adv r (1 + length nm))"
proof
  assume "rs_name r = Inr (nm, r')"
  then show "\<exists>t. rest r = word_of_nat (length nm) # nm @ t \<and> validName nm = Inr () \<and>
      r' = adv r (1 + length nm)"
    by (auto simp: rs_name_def bindE_Inr_iff reads check_name_iff byte_len_iff)
next
  assume "\<exists>t. rest r = word_of_nat (length nm) # nm @ t \<and> validName nm = Inr () \<and>
      r' = adv r (1 + length nm)"
  then obtain t where a: "rest r = word_of_nat (length nm) # nm @ t" "validName nm = Inr ()"
      "r' = adv r (1 + length nm)" by blast
  have "rs_u8 r = Inr (word_of_nat (length nm), adv r 1)" using a by (simp add: reads)
  moreover have "rs_take (adv r 1) (unat (word_of_nat (length nm) :: byte)) = Inr (nm, r')"
    using a validName_length [OF a(2)] by (simp add: reads)
  moreover have "check_name nm = Inr ()" using a by (simp add: check_name_iff)
  ultimately show "rs_name r = Inr (nm, r')" by (simp add: rs_name_def)
qed

lemma rs_record_Inr [reads]:
  "rs_record origin r = Inr (rec, r') \<longleftrightarrow>
   (\<exists>t. engine_ok rec origin \<and> rest r = appendRecord rec @ t \<and> r' = adv r (length (appendRecord rec)))"
proof
  assume "rs_record origin r = Inr (rec, r')"
  then show "\<exists>t. engine_ok rec origin \<and> rest r = appendRecord rec @ t \<and>
      r' = adv r (length (appendRecord rec))"
    by (auto simp: rs_record_def bindE_Inr_iff reads u16_len_iff appendRecord_def drop_Cons'
        engine_ok_def classIN_def)
next
  assume "\<exists>t. engine_ok rec origin \<and> rest r = appendRecord rec @ t \<and>
      r' = adv r (length (appendRecord rec))"
  then obtain t where a: "engine_ok rec origin" "rest r = appendRecord rec @ t"
      "r' = adv r (length (appendRecord rec))" by blast
  let ?d = "word_of_nat (length (rRData rec)) :: u16"
  let ?n = "length (rOwner rec)"
  have r0: "rest r = word_of_nat ?n # rOwner rec @ put_u16 (rType rec) @ put_u16 (rClass rec)
      @ put_u32 (rTTL rec) @ put_u16 ?d @ rRData rec @ t"
    using a by (simp add: appendRecord_def)
  have "rs_name r = Inr (rOwner rec, adv r (1 + ?n))"
    using r0 a by (simp add: reads engine_ok_def)
  moreover have "rs_u16 (adv r (1 + ?n)) = Inr (rType rec, adv r (3 + ?n))"
    using r0 by (simp add: reads drop_Cons')
  moreover have "rs_u16 (adv r (3 + ?n)) = Inr (rClass rec, adv r (5 + ?n))"
    using r0 by (simp add: reads drop_Cons')
  moreover have "rs_u32 (adv r (5 + ?n)) = Inr (rTTL rec, adv r (9 + ?n))"
    using r0 by (simp add: reads drop_Cons')
  moreover have "rs_u16 (adv r (9 + ?n)) = Inr (?d, adv r (11 + ?n))"
    using r0 by (simp add: reads drop_Cons')
  moreover have "rs_take (adv r (11 + ?n)) (unat ?d) = Inr (rRData rec, r')"
    using r0 a by (simp add: reads length_appendRecord drop_Cons' engine_ok_def)
  ultimately show "rs_record origin r = Inr (rec, r')"
    using a by (simp add: rs_record_def engine_ok_def classIN_def)
qed

lemma rs_records_Inr [reads]:
  "rs_records origin n r = Inr (recs, r') \<longleftrightarrow>
   length recs = n \<and> (\<forall>rec \<in> set recs. engine_ok rec origin) \<and>
   (\<exists>t. rest r = appendRecords recs @ t) \<and> r' = adv r (length (appendRecords recs))"
proof (induction n arbitrary: r recs)
  case 0
  show ?case by (auto simp: adv_def)
next
  case (Suc n)
  show ?case
  proof (cases recs)
    case (Cons rec recs')
    then show ?thesis by (auto simp: bindE_Inr_iff reads Suc.IH)
  qed (auto simp: bindE_Inr_iff)
qed

lemma rs_header_Inr [reads]: "rs_header buf = Inr (h, r) \<longleftrightarrow> decodeHeader buf = Inr (h, r)"
proof -
  let ?r0 = "\<lparr>rdB = buf, rdOff = 0\<rparr>"
  let ?n = "length (hOrigin h)"
  have "rs_header buf = Inr (h, r) \<longleftrightarrow> (\<exists>t. buf = headerBytes h @ t) \<and>
      r = \<lparr>rdB = buf, rdOff = length (headerBytes h)\<rparr> \<and>
      (hKind h = KindFull \<or> hKind h = KindDelta) \<and> checkOrigin (hOrigin h) = Inr ()" (is "?L \<longleftrightarrow> ?R")
  proof
    assume ?L
    then obtain t where raw: "buf = headerBytes h @ t" and r: "r = adv ?r0 (23 + ?n)"
      and k: "hKind h = 1 \<or> hKind h = 2" and o: "validName (hOrigin h) = Inr ()" "2 \<le> ?n"
      by (auto simp: rs_header_def bindE_Inr_iff reads drop_Cons' headerBytes_def)
    then show ?R
      by (simp add: adv_init length_headerBytes checkOrigin_Inr KindFull_def KindDelta_def)
  next
    assume ?R
    then obtain t where a: "buf = headerBytes h @ t" "r = \<lparr>rdB = buf, rdOff = length (headerBytes h)\<rparr>"
      "hKind h = KindFull \<or> hKind h = KindDelta" "checkOrigin (hOrigin h) = Inr ()" by blast
    have raw: "buf = magic @ hKind h # 0 # word_of_nat ?n # hOrigin h @ put_u32 (hSerial h)
        @ put_u32 (hFrom h) @ put_u32 (hCountA h) @ put_u32 (hCountB h) @ t"
      using a(1) by (simp add: headerBytes_def)
    have "rs_take ?r0 4 = Inr (magic, adv ?r0 4)" using raw by (simp add: reads)
    moreover have "rs_u8 (adv ?r0 4) = Inr (hKind h, adv ?r0 5)" using raw by (simp add: reads)
    moreover have "rs_u8 (adv ?r0 5) = Inr (0, adv ?r0 6)" using raw by (simp add: reads drop_Cons')
    moreover have "rs_name (adv ?r0 6) = Inr (hOrigin h, adv ?r0 (7 + ?n))"
      using raw a(4) by (simp add: reads drop_Cons' checkOrigin_Inr)
    moreover have "rs_u32 (adv ?r0 (7 + ?n)) = Inr (hSerial h, adv ?r0 (11 + ?n))"
      using raw by (simp add: reads drop_Cons')
    moreover have "rs_u32 (adv ?r0 (11 + ?n)) = Inr (hFrom h, adv ?r0 (15 + ?n))"
      using raw by (simp add: reads drop_Cons')
    moreover have "rs_u32 (adv ?r0 (15 + ?n)) = Inr (hCountA h, adv ?r0 (19 + ?n))"
      using raw by (simp add: reads drop_Cons')
    moreover have "rs_u32 (adv ?r0 (19 + ?n)) = Inr (hCountB h, adv ?r0 (23 + ?n))"
      using raw by (simp add: reads drop_Cons')
    moreover have "adv ?r0 (23 + ?n) = r" using a(2) by (simp add: adv_init length_headerBytes)
    ultimately show ?L
      using a(3,4) by (auto simp: rs_header_def KindFull_def KindDelta_def checkOrigin_Inr)
  qed
  then show ?thesis by (simp add: decodeHeader_Inr)
qed

section \<open>The two parsers\<close>

lemma is_subdomain_within:
  assumes v: "validName owner = Inr ()" and s: "is_subdomain owner origin"
  shows "within orbit owner origin"
proof -
  from v obtain ls where l: "good_labels ls" "owner = wire_of ls" "length (wire_of ls) \<le> 255"
    by (auto simp: validName_iff)
  then have n: "length ls \<le> 128" using length_wire_of_ge [of ls] by simp
  from s have ne: "origin \<noteq> []" by (simp add: is_subdomain_def)
  from s l n ne obtain cs ds where d: "ls = cs @ ds" "map lowerByte (wire_of ds) = map lowerByte origin"
    by (auto simp: is_subdomain_wire)
  then have len: "length (wire_of ds) = length origin" by (metis length_map)
  with d have "list_all2 acase (wire_of ds) origin"
    by (auto simp: list_all2_conv_all_nth acase_def list_eq_iff_nth_eq)
  then have "EqualFold orbit (wire_of ds) origin" by (rule EqualFold_acase)
  with l d len show ?thesis by (auto simp: within_wire_iff)
qed

lemma within_is_subdomain:
  assumes v: "validName owner = Inr ()" "validName origin = Inr ()" and a: "ascii owner" "ascii origin"
    and w: "within orbit owner origin"
  shows "is_subdomain owner origin"
proof -
  from v obtain ls os where l: "good_labels ls" "owner = wire_of ls" "length (wire_of ls) \<le> 255"
    and o: "good_labels os" "origin = wire_of os" by (auto simp: validName_iff)
  then have n: "length ls \<le> 128" using length_wire_of_ge [of ls] by simp
  from w l obtain cs ds where d: "ls = cs @ ds" "EqualFold orbit (wire_of ds) origin"
    by (auto simp: within_wire_iff)
  have "ascii (wire_of ds)" using a(1) l d by (simp add: ascii_wire)
  with d a have "map lowerByte (wire_of ds) = map lowerByte origin" by (simp add: EqualFold_ascii)
  with l o d n show ?thesis by (auto simp: is_subdomain_wire)
qed

lemma engine_ok_checkRecord: "engine_ok rec origin \<Longrightarrow> checkRecord orbit rec origin = Inr ()"
  by (simp add: engine_ok_def checkRecord_Inr is_subdomain_within)

lemma checkRecord_engine_ok:
  "checkRecord orbit rec origin = Inr () \<Longrightarrow> validName origin = Inr () \<Longrightarrow> ascii (rOwner rec) \<Longrightarrow>
   ascii origin \<Longrightarrow> engine_ok rec origin"
  by (auto simp: engine_ok_def checkRecord_Inr intro: within_is_subdomain)

lemma rs_records_rd: "rs_records origin n r = Inr (a, r') \<Longrightarrow> rd_records orbit origin n r = Inr (a, r')"
  by (simp add: reads engine_ok_checkRecord)

lemma rd_records_rs:
  "rd_records orbit origin n r = Inr (a, r') \<Longrightarrow> list_all (\<lambda>rec. engine_ok rec origin) a \<Longrightarrow>
   rs_records origin n r = Inr (a, r')"
  by (simp add: reads list_all_iff)

lemma saturating_add_counts [simp]:
  "saturating_add (unat (a :: u32)) (unat (b :: u32)) = unat a + unat b"
proof -
  have "x < 4294967296 \<Longrightarrow> y < 4294967296 \<Longrightarrow> x + y \<le> 2 ^ 64 - 1" for x y :: nat by simp
  from this [of "unat a" "unat b"] have "unat a + unat b \<le> 2 ^ 64 - 1" by simp
  then show ?thesis by (simp only: saturating_add_def min_absorb1)
qed

lemma Decode_rs_parse:
  assumes "rs_parse raw = Inr p" "pKind p = Full"
  shows "Decode orbit raw = bindE (checkFullSOA orbit (pA p) (pOrigin p) (pSerial p))
    (\<lambda>_. Inr (KindFull, Some \<lparr>iOrigin = pOrigin p, iSerial = pSerial p, iRecords = pA p\<rparr>, None))"
proof -
  from assms(1) obtain h r a r' b r'' where h: "rs_header raw = Inr (h, r)"
    and c: "unat (hCountA h) + unat (hCountB h) \<le> (length raw - rdOff r) div MIN_RECORD"
    and f: "\<not> ((if hKind h = 1 then Full else Delta) = Full \<and> (hFrom h \<noteq> 0 \<or> hCountB h \<noteq> 0))"
    and a: "rs_records (hOrigin h) (unat (hCountA h)) r = Inr (a, r')"
    and b: "rs_records (hOrigin h) (unat (hCountB h)) r' = Inr (b, r'')"
    and e: "rdOff r'' = length raw"
    and p: "p = \<lparr>pKind = (if hKind h = 1 then Full else Delta), pOrigin = hOrigin h,
      pSerial = hSerial h, pFromSerial = hFrom h, pA = a, pB = b\<rparr>"
    by (auto simp: rs_parse_def bindE_Inr_iff Let_def)
  have "hKind h = KindFull" using assms(2) p by (simp add: KindFull_def split: if_splits)
  then show ?thesis
    using h c f p rs_records_rd [OF a, of orbit] rs_records_rd [OF b, of orbit] e
    by (simp add: Decode_def rs_header_Inr Let_def KindFull_def MIN_RECORD_def minRecord_def)
qed

lemma rs_parse_Decode:
  assumes "Decode orbit raw = Inr (k, Some img, od)" "ascii (iOrigin img)"
    "list_all (\<lambda>rec. ascii (rOwner rec)) (iRecords img)"
  shows "rs_parse raw = Inr \<lparr>pKind = Full, pOrigin = iOrigin img, pSerial = iSerial img,
    pFromSerial = 0, pA = iRecords img, pB = []\<rparr>"
proof -
  from assms(1) have v: "validImage orbit img" and raw: "raw = headerBytes (fullHeader img) @ appendRecords (iRecords img)"
    by (simp_all add: Decode_full_iff)
  let ?h = "fullHeader img"
  let ?r = "\<lparr>rdB = raw, rdOff = length (headerBytes ?h)\<rparr>"
  have n: "unat (hCountA ?h) = length (iRecords img)" "hCountB ?h = 0" "hFrom ?h = 0" "hKind ?h = 1"
    using v by (simp_all add: fullHeader_def validImage_def KindFull_def)
  have h: "rs_header raw = Inr (?h, ?r)"
    using v raw by (auto simp: reads validImage_def fullHeader_def)
  have ok: "\<forall>rec \<in> set (iRecords img). engine_ok rec (iOrigin img)"
    using v assms(2,3) by (auto simp: validImage_def list_all_iff checkOrigin_Inr intro: checkRecord_engine_ok)
  have rest: "rest ?r = appendRecords (iRecords img)" using raw by (simp add: rest_def)
  have a: "rs_records (hOrigin ?h) (unat (hCountA ?h)) ?r =
      Inr (iRecords img, adv ?r (length (appendRecords (iRecords img))))"
    using ok rest n by (simp add: reads fullHeader_def)
  have "minRecord * length (iRecords img) \<le> length (appendRecords (iRecords img))"
    using v by (intro length_appendRecords_ge [of _ orbit "iOrigin img"]) (auto simp: validImage_def)
  then have c: "length (iRecords img) \<le> (length raw - length (headerBytes ?h)) div MIN_RECORD"
    using raw by (simp add: less_eq_div_iff_mult_less_eq minRecord_def MIN_RECORD_def mult.commute)
  show ?thesis
    using h a c n raw by (simp add: rs_parse_def Let_def) (simp add: fullHeader_def)
qed

section \<open>Properties\<close>

lemma ascii_lowerName: "validName b = Inr () \<Longrightarrow> ascii b \<Longrightarrow> ascii (lowerName b)"
proof -
  have "lowerByte c < 128" if "c < 128" for c
    using that by (simp add: word_less_nat_alt unat_lowerByte)
  then show "validName b = Inr () \<Longrightarrow> ascii b \<Longrightarrow> ascii (lowerName b)"
    by (auto simp: validName_iff lowerName_wire simp flip: map_lower_wire)
      (auto simp: ascii_def list_all_iff)
qed

text \<open>C1. What the management plane publishes the engine loads: the bytes \<open>EncodeFull\<close> writes for
  an image with ASCII names are parsed by the engine to the same zone, with the same serial, the
  lower-case origin and the records in canonical order.\<close>

theorem engine_loads_encoded_image:
  assumes "EncodeFull orbit img = Inr raw" "length (iRecords img) < 2 ^ 32"
    "ascii (iOrigin img)" "list_all (\<lambda>rec. ascii (rOwner rec)) (iRecords img)"
  shows "rs_parse raw = Inr \<lparr>pKind = Full, pOrigin = lowerName (iOrigin img), pSerial = iSerial img,
    pFromSerial = 0, pA = SortRecords (iRecords img), pB = []\<rparr>"
proof -
  have "Decode orbit raw = Inr (KindFull, Some (normImage img), None)"
    using nzf_full.decode_encode [OF assms(1)] assms(2) by (simp add: decodeImage_eq image_fits_def)
  moreover have "validName (iOrigin img) = Inr ()"
    using assms(1) by (simp add: EncodeFull_Inr checkOrigin_Inr)
  ultimately show ?thesis
    using rs_parse_Decode [of orbit raw KindFull "normImage img" None] assms(3,4)
    by (simp add: normImage_def ascii_lowerName list_all_iff)
qed

theorem engine_loads_encoded_image_witness:
  "rs_parse (case EncodeFull id exImage of Inr raw \<Rightarrow> raw | Inl _ \<Rightarrow> []) =
   Inr \<lparr>pKind = Full, pOrigin = [2, 97, 98, 0], pSerial = 7, pFromSerial = 0,
     pA = [exSOA 7, exA], pB = []\<rparr>"
proof -
  obtain raw where raw: "EncodeFull id exImage = Inr raw" using exImage_encodes by blast
  have n: "lowerName (iOrigin exImage) = [2, 97, 98, 0]" by code_simp
  have s: "SortRecords (iRecords exImage) = [exSOA 7, exA]" by code_simp
  have "length (iRecords exImage) < 2 ^ 32" "iSerial exImage = 7"
    "ascii (iOrigin exImage)" "list_all (\<lambda>rec. ascii (rOwner rec)) (iRecords exImage)"
    by (simp_all add: exImage_def exA_def exSOA_def ascii_def)
  then show ?thesis using engine_loads_encoded_image [OF raw] raw n s by simp
qed

text \<open>An image with no SOA: the engine reads it, the management plane refuses it.\<close>

definition exNoSOA :: "byte list" where
  "exNoSOA = magic @ [1, 0, 3, 1, 97, 0] @ put_u32 9 @ put_u32 0 @ put_u32 0 @ put_u32 0"

text \<open>C15. What the engine accepts the management plane accepts, up to the SOA checks only the latter
  makes: on every byte string the engine parses as a full image, \<open>Decode\<close> returns the same zone
  exactly when \<open>checkFullSOA\<close> succeeds, and its error otherwise.\<close>

theorem engine_accepts_at_most:
  assumes "rs_parse raw = Inr p" "pKind p = Full"
  shows "Decode orbit raw = (case checkFullSOA orbit (pA p) (pOrigin p) (pSerial p) of
      Inl e \<Rightarrow> Inl e
    | Inr _ \<Rightarrow> Inr (KindFull, Some \<lparr>iOrigin = pOrigin p, iSerial = pSerial p, iRecords = pA p\<rparr>, None))"
  using Decode_rs_parse [OF assms, of orbit] by (simp add: bindE_def)

theorem engine_accepts_at_most_witness:
  "Decode id exNoSOA = Inl NoSOA"
proof -
  have p: "rs_parse exNoSOA = Inr \<lparr>pKind = Full, pOrigin = [1, 97, 0], pSerial = 9, pFromSerial = 0,
      pA = [], pB = []\<rparr>" by code_simp
  show ?thesis using engine_accepts_at_most [OF p, of id] by (simp add: checkFullSOA_def)
qed

definition exBadImage :: nzf_image where
  "exBadImage = \<lparr>iOrigin = [1, 255, 0], iSerial = 7, iRecords =
     [(exSOA 7)\<lparr>rOwner := [1, 255, 0]\<rparr>, exA\<lparr>rOwner := [1, 254, 0]\<rparr>]\<rparr>"

text \<open>C38. The two parsers part on names outside ASCII: the management plane encodes an image of the
  zone \<open>\255.\<close> with a record owned by \<open>\254.\<close>, and the engine refuses those bytes as out of zone,
  whatever the Unicode folding table.\<close>

theorem engine_refuses_encoded_image:
  "\<exists>raw. EncodeFull orbit exBadImage = Inr raw \<and> rs_parse raw = Inl RsOutOfZone"
proof -
  let ?raw = "headerBytes (fullHeader (normImage exBadImage)) @ appendRecords (SortRecords (iRecords exBadImage))"
  have fold: "EqualFold orbit [1, 254, 0] [1, 255, 0]"
    by (simp add: EqualFold_def runes.simps decode_rune_def utf8_first_def)
  have w: "within orbit [1, 254, 0] [1, 255, 0]" "within orbit [1, 255, 0] [1, 255, 0]"
    using fold by (simp_all add: within_def within_from.simps)
  have v: "validName [1, 255, 0] = Inr ()" "validName [1, 254, 0] = Inr ()" by code_simp+
  have soa: "checkFullSOA orbit (iRecords exBadImage) [1, 255, 0] 7 = Inr ()"
    by (simp add: checkFullSOA_def exBadImage_def exSOA_def exA_def nzf_consts checkSOA_def
        soaSerial_def nameEnd_def nameEnd_from.simps)
  have "EncodeFull orbit exBadImage = Inr ?raw"
    using v w soa
    by (auto simp: EncodeFull_Inr checkOrigin_Inr checkRecord_Inr)
      (auto simp: exBadImage_def exSOA_def exA_def classIN_def)
  moreover have "rs_parse ?raw = Inl RsOutOfZone" by code_simp
  ultimately show ?thesis by blast
qed

end
