(* ===== verification/Go_Strings.thy ===== *)
theory Go_Strings
  imports Nexora_Prelude
begin

text \<open>
  The functions of Go's \<open>strings\<close>, \<open>strconv\<close> and \<open>encoding/hex\<close> packages the sources use, on
  strings as lists of characters: splitting at a character, prefixes and suffixes, ASCII case,
  decimal numbers and hexadecimal octets.
\<close>

section \<open>strings\<close>

fun split_at :: "char \<Rightarrow> string \<Rightarrow> string list" where
  "split_at sep [] = [[]]"
| "split_at sep (c # cs) =
     (if c = sep then [] # split_at sep cs
      else case split_at sep cs of [] \<Rightarrow> [[c]] | w # ws \<Rightarrow> (c # w) # ws)"

fun join_with :: "char \<Rightarrow> string list \<Rightarrow> string" where
  "join_with sep [] = []"
| "join_with sep [w] = w"
| "join_with sep (w # v # ws) = w @ sep # join_with sep (v # ws)"

definition HasPrefix :: "string \<Rightarrow> string \<Rightarrow> bool" where
  "HasPrefix s p \<longleftrightarrow> take (length p) s = p"

definition HasSuffix :: "string \<Rightarrow> string \<Rightarrow> bool" where
  "HasSuffix s p \<longleftrightarrow> length p \<le> length s \<and> drop (length s - length p) s = p"

definition TrimPrefix :: "string \<Rightarrow> string \<Rightarrow> string" where
  "TrimPrefix s p = (if HasPrefix s p then drop (length p) s else s)"

definition TrimSuffix :: "string \<Rightarrow> string \<Rightarrow> string" where
  "TrimSuffix s p = (if HasSuffix s p then take (length s - length p) s else s)"

definition isSpace :: "char \<Rightarrow> bool" where
  "isSpace c \<longleftrightarrow> of_char c \<in> {9 :: nat, 10, 11, 12, 13, 32}"

text \<open>\<open>strings.Fields\<close> and \<open>strings.TrimSpace\<close> on ASCII white space.\<close>

fun fields_acc :: "string \<Rightarrow> string \<Rightarrow> string list" where
  "fields_acc w [] = (if w = [] then [] else [rev w])"
| "fields_acc w (c # cs) =
     (if isSpace c then (if w = [] then fields_acc [] cs else rev w # fields_acc [] cs)
      else fields_acc (c # w) cs)"

definition Fields :: "string \<Rightarrow> string list" where
  "Fields s = fields_acc [] s"

definition TrimSpace :: "string \<Rightarrow> string" where
  "TrimSpace s = rev (dropWhile isSpace (rev (dropWhile isSpace s)))"

definition lower_char :: "char \<Rightarrow> char" where
  "lower_char c = (let n = of_char c :: nat in if 65 \<le> n \<and> n \<le> 90 then char_of (n + 32) else c)"

definition ToLower :: "string \<Rightarrow> string" where
  "ToLower s = map lower_char s"

lemma split_at_not_Nil [simp]: "split_at sep s \<noteq> []"
  by (induction s) (auto split: list.splits)

lemma join_split: "join_with sep (split_at sep s) = s"
proof (induction s)
  case (Cons c s)
  show ?case
  proof (cases "split_at sep s")
    case (Cons w ws)
    then show ?thesis using Cons.IH by (cases ws) auto
  qed simp
qed simp

lemma split_at_free: "w \<in> set (split_at sep s) \<Longrightarrow> sep \<notin> set w"
  by (induction s arbitrary: w) (auto split: list.splits if_splits)

lemma split_word: "sep \<notin> set w \<Longrightarrow> split_at sep w = [w]"
  by (induction w) auto

lemma split_word_sep: "sep \<notin> set w \<Longrightarrow> split_at sep (w @ sep # s) = w # split_at sep s"
  by (induction w) auto

lemma split_join: "ws \<noteq> [] \<Longrightarrow> \<forall>w \<in> set ws. sep \<notin> set w \<Longrightarrow> split_at sep (join_with sep ws) = ws"
  by (induction sep ws rule: join_with.induct) (auto simp: split_word split_word_sep)

lemma HasPrefix_append [simp]: "HasPrefix (p @ s) p"
  by (simp add: HasPrefix_def)

lemma TrimPrefix_append [simp]: "TrimPrefix (p @ s) p = s"
  by (simp add: TrimPrefix_def)

lemma HasPrefix_iff: "HasPrefix s p \<longleftrightarrow> (\<exists>t. s = p @ t)"
  by (metis HasPrefix_def append_eq_conv_conj)

lemma HasSuffix_iff: "HasSuffix s p \<longleftrightarrow> (\<exists>t. s = t @ p)"
proof
  assume "HasSuffix s p"
  then show "\<exists>t. s = t @ p" by (metis HasSuffix_def append_take_drop_id)
qed (auto simp: HasSuffix_def)

section \<open>strconv\<close>

definition isDigit :: "char \<Rightarrow> bool" where
  "isDigit c \<longleftrightarrow> 48 \<le> (of_char c :: nat) \<and> (of_char c :: nat) \<le> 57"

definition digitVal :: "char \<Rightarrow> nat" where
  "digitVal c = of_char c - 48"

definition digitChar :: "nat \<Rightarrow> char" where
  "digitChar n = char_of (48 + n)"

definition numVal :: "string \<Rightarrow> nat" where
  "numVal s = foldl (\<lambda>n c. n * 10 + digitVal c) 0 s"

text \<open>\<open>strconv.ParseUint(s, 10, bits)\<close> on a string: a nonempty run of digits within range.\<close>

definition ParseUint :: "string \<Rightarrow> nat \<Rightarrow> nat option" where
  "ParseUint s bits =
     (if s \<noteq> [] \<and> list_all isDigit s \<and> numVal s < 2 ^ bits then Some (numVal s) else None)"

fun showNat :: "nat \<Rightarrow> string" where
  "showNat n = (if n < 10 then [digitChar n] else showNat (n div 10) @ [digitChar (n mod 10)])"

declare showNat.simps [simp del]

lemma of_digitChar: "n < 10 \<Longrightarrow> (of_char (digitChar n) :: nat) = 48 + n"
  by (simp add: digitChar_def of_char_of)

lemma digitChar_digit: "n < 10 \<Longrightarrow> isDigit (digitChar n)" "n < 10 \<Longrightarrow> digitVal (digitChar n) = n"
  by (simp_all add: isDigit_def digitVal_def of_digitChar)

lemma digitChar_val: "isDigit c \<Longrightarrow> digitChar (digitVal c) = c"
  by (simp add: isDigit_def digitVal_def digitChar_def)

lemma digitVal_less: "isDigit c \<Longrightarrow> digitVal c < 10"
  unfolding isDigit_def digitVal_def by linarith

lemma numVal_snoc [simp]: "numVal (s @ [c]) = numVal s * 10 + digitVal c"
  by (simp add: numVal_def)

lemma numVal_Nil [simp]: "numVal [] = 0"
  by (simp add: numVal_def)

lemma numVal_showNat [simp]: "numVal (showNat n) = n"
proof (induction n rule: showNat.induct)
  case (1 n)
  show ?case
  proof (cases "n < 10")
    case True
    then show ?thesis
      using numVal_snoc [of "[]" "digitChar n"] by (simp add: showNat.simps [of n] digitChar_digit)
  next
    case False
    with 1 show ?thesis by (simp add: showNat.simps [of n] digitChar_digit)
  qed
qed

lemma showNat_digits: "list_all isDigit (showNat n) \<and> showNat n \<noteq> []"
proof (induction n rule: showNat.induct)
  case (1 n)
  then show ?case by (subst (1 2) showNat.simps) (auto simp: digitChar_digit)
qed

lemma ParseUint_showNat: "n < 2 ^ bits \<Longrightarrow> ParseUint (showNat n) bits = Some n"
  using showNat_digits [of n] by (simp add: ParseUint_def)

text \<open>A digit string without a leading zero is the one that prints its value.\<close>

lemma showNat_numVal:
  "s \<noteq> [] \<Longrightarrow> list_all isDigit s \<Longrightarrow> (length s > 1 \<longrightarrow> digitVal (hd s) \<noteq> 0) \<Longrightarrow> showNat (numVal s) = s"
proof (induction s rule: rev_induct)
  case (snoc c s)
  show ?case
  proof (cases "s = []")
    case True
    with snoc.prems show ?thesis
      using digitVal_less [of c] numVal_snoc [of "[]" c] by (simp add: showNat.simps digitChar_val)
  next
    case False
    have hd: "digitVal (hd s) \<noteq> 0" using snoc.prems False by auto
    with snoc False have ih: "showNat (numVal s) = s" by auto
    have pos: "numVal s \<noteq> 0"
    proof
      assume z: "numVal s = 0"
      then have "s = [digitChar 0]" using ih by (simp add: showNat.simps)
      then show False using hd by (simp add: digitChar_digit)
    qed
    have d: "digitVal c < 10" "isDigit c" using snoc.prems digitVal_less by auto
    have "showNat (numVal (s @ [c])) = showNat (numVal s) @ [c]"
      using pos d by (subst showNat.simps) (simp add: digitChar_val)
    then show ?thesis using ih by simp
  qed
qed simp

section \<open>encoding/hex\<close>

definition hexVal :: "char \<Rightarrow> nat option" where
  "hexVal c = (let n = of_char c :: nat in
     if 48 \<le> n \<and> n \<le> 57 then Some (n - 48)
     else if 97 \<le> n \<and> n \<le> 102 then Some (n - 87)
     else if 65 \<le> n \<and> n \<le> 70 then Some (n - 55)
     else None)"

definition hexChar :: "nat \<Rightarrow> char" where
  "hexChar n = (if n < 10 then char_of (48 + n) else char_of (87 + n))"

fun hexDecode :: "string \<Rightarrow> nat list option" where
  "hexDecode [] = Some []"
| "hexDecode [_] = None"
| "hexDecode (a # b # s) = (case (hexVal a, hexVal b, hexDecode s) of
     (Some x, Some y, Some r) \<Rightarrow> Some ((x * 16 + y) # r) | _ \<Rightarrow> None)"

definition hexEncode :: "nat list \<Rightarrow> string" where
  "hexEncode bs = concat (map (\<lambda>b. [hexChar (b div 16), hexChar (b mod 16)]) bs)"

definition isLowerHex :: "char \<Rightarrow> bool" where
  "isLowerHex c \<longleftrightarrow> (let n = of_char c :: nat in 48 \<le> n \<and> n \<le> 57 \<or> 97 \<le> n \<and> n \<le> 102)"

lemma hexVal_lower: "isLowerHex c \<Longrightarrow> \<exists>x. hexVal c = Some x \<and> x < 16 \<and> hexChar x = c"
  by (auto simp: isLowerHex_def hexVal_def hexChar_def Let_def)

lemma hexVal_less: "hexVal c = Some x \<Longrightarrow> x < 16"
  by (auto simp: hexVal_def Let_def split: if_splits)

lemma hexChar_lower: "x < 16 \<Longrightarrow> isLowerHex (hexChar x)"
  by (auto simp: isLowerHex_def hexChar_def Let_def of_char_of)

lemma hexDecode_lower:
  "list_all isLowerHex s \<Longrightarrow> even (length s) \<Longrightarrow>
   \<exists>bs. hexDecode s = Some bs \<and> length s = 2 * length bs \<and> hexEncode bs = s"
proof (induction s rule: hexDecode.induct)
  case (3 a b s)
  then obtain bs where "hexDecode s = Some bs" "length s = 2 * length bs" "hexEncode bs = s" by auto
  moreover obtain x where "hexVal a = Some x" "x < 16" "hexChar x = a"
    using "3.prems" hexVal_lower [of a] by auto
  moreover obtain y where "hexVal b = Some y" "y < 16" "hexChar y = b"
    using "3.prems" hexVal_lower [of b] by auto
  ultimately show ?case by (simp add: hexEncode_def)
qed (auto simp: hexEncode_def)

lemma hexEncode_lower: "\<forall>b \<in> set bs. b < 256 \<Longrightarrow> list_all isLowerHex (hexEncode bs)"
  by (induction bs) (auto simp: hexEncode_def intro!: hexChar_lower)

lemma hexDecode_less: "hexDecode s = Some bs \<Longrightarrow> (\<forall>b \<in> set bs. b < 256) \<and> length s = 2 * length bs"
proof (induction s arbitrary: bs rule: hexDecode.induct)
  case (3 a b s)
  from "3.prems" obtain x y r where r: "hexVal a = Some x" "hexVal b = Some y" "hexDecode s = Some r"
    "bs = (x * 16 + y) # r" by (auto split: option.splits)
  have "x < 16" "y < 16" using r hexVal_less by auto
  then have "x * 16 + y < 256" by linarith
  then show ?case using "3.IH" [OF r(3)] r by simp
qed auto

end
