(* ===== verification/Zone_Rules.thy ===== *)
theory Zone_Rules
  imports Nexora_Prelude Go_Strings "HOL-Library.AList" "HOL-Library.Char_ord"
begin

text \<open>
  The rules a zone's records obey (\<open>zone/validate.go\<close>) and their check after a record edit, which
  reads the edited owners and the names above them only (\<open>checkOwners\<close> in \<open>zone/service.go\<close>).
  \<open>dns.NextLabel\<close>, which finds the next label of a name, is a parameter; a loop over labels that
  does not end is the error \<open>NoReturn\<close>.
\<close>

section \<open>Resource records\<close>

text \<open>A \<open>dns.RR\<close>: its header, and its RDATA, of which the sources read the SOA fields only.\<close>

record dns_soa =
  dsNs :: string
  dsMbox :: string
  dsSerial :: u32
  dsRefresh :: u32
  dsRetry :: u32
  dsExpire :: u32
  dsMinttl :: u32

datatype 'd rdata = RSOA dns_soa | ROther 'd

record 'd rr =
  hName :: string
  hType :: u16
  hClass :: u16
  hTTL :: u32
  hRdlength :: u16
  rrData :: "'d rdata"

definition TypeNS :: u16 where "TypeNS = 2"
definition TypeCNAME :: u16 where "TypeCNAME = 5"
definition TypeSOA :: u16 where "TypeSOA = 6"
definition TypeDNAME :: u16 where "TypeDNAME = 39"
definition TypeDS :: u16 where "TypeDS = 43"

definition ManagedTypes :: "u16 \<Rightarrow> bool" where
  "ManagedTypes t \<longleftrightarrow> t \<in> {1, 28, TypeCNAME, TypeDNAME, 15, TypeNS, 12, 33, 16, 257, 44, 52, 65, 64, TypeDS, 35, 29}"

section \<open>The rules of one owner\<close>

datatype rule_error = LastApexNS | CnameConflict | DnameConflict | DsNotAtDelegation | DnameOccludes | NoReturn

text \<open>Records counted by lower-case owner and type.\<close>

type_synonym owner_types = "(string \<times> (u16 \<times> nat) list) list"

definition typesAt :: "owner_types \<Rightarrow> string \<Rightarrow> (u16 \<times> nat) list" where
  "typesAt ts w = (case map_of ts w of None \<Rightarrow> [] | Some m \<Rightarrow> m)"

definition countIn :: "(u16 \<times> nat) list \<Rightarrow> u16 \<Rightarrow> nat" where
  "countIn m t = (case map_of m t of None \<Rightarrow> 0 | Some n \<Rightarrow> n)"

definition addType :: "owner_types \<Rightarrow> string \<Rightarrow> u16 \<Rightarrow> owner_types" where
  "addType ts w t = AList.update w (AList.update t (countIn (typesAt ts w) t + 1) (typesAt ts w)) ts"

definition checkApexNS :: "nat \<Rightarrow> rule_error + unit" where
  "checkApexNS n = (if n = 0 then Inl LastApexNS else Inr ())"

type_synonym next_label = "string \<Rightarrow> nat \<Rightarrow> nat \<times> bool"

text \<open>The loop of \<open>ancestors\<close> from an offset; \<open>None\<close> when it does not end.\<close>

partial_function (option) ancestorsFrom ::
    "next_label \<Rightarrow> string \<Rightarrow> string \<Rightarrow> nat \<Rightarrow> bool \<Rightarrow> string list option" where
  "ancestorsFrom nl apex w off stop =
     (if \<not> stop \<and> int (length w) - int off \<ge> int (length apex)
      then Option.bind (ancestorsFrom nl apex w (fst (nl w off)) (snd (nl w off))) (\<lambda>out. Some (drop off w # out))
      else Some [])"

declare ancestorsFrom.simps [code]

definition ancestors :: "next_label \<Rightarrow> string \<Rightarrow> string \<Rightarrow> string list option" where
  "ancestors nl apex w = ancestorsFrom nl apex w (fst (nl w 0)) (snd (nl w 0))"

definition checkOwner :: "next_label \<Rightarrow> string \<Rightarrow> string \<Rightarrow> owner_types \<Rightarrow> rule_error + unit" where
  "checkOwner nl apex w types =
     (let t = typesAt types w; n = countIn t TypeCNAME in
      if n > 0 \<and> (n > 1 \<or> length t > 1 \<or> w = apex) then Inl CnameConflict
      else if countIn t TypeDNAME > 1 then Inl DnameConflict
      else if countIn t TypeDS > 0 \<and> (w = apex \<or> countIn t TypeNS = 0) then Inl DsNotAtDelegation
      else (case ancestors nl apex w of
          None \<Rightarrow> Inl NoReturn
        | Some parents \<Rightarrow> eachE (\<lambda>p. requireE (\<not> countIn (typesAt types p) TypeDNAME > 0) DnameOccludes) parents))"

section \<open>The whole zone\<close>

text \<open>One record of the loop of \<open>CheckSet\<close>: the owners in order of appearance, and the counts.\<close>

definition countRecord :: "string list \<times> owner_types \<Rightarrow> string \<times> u16 \<Rightarrow> string list \<times> owner_types" where
  "countRecord s p = ((if map_of (snd s) (fst p) = None then fst s @ [fst p] else fst s), addType (snd s) (fst p) (snd p))"

definition rrKey :: "'d rr \<Rightarrow> string \<times> u16" where
  "rrKey r = (ToLower (hName r), hType r)"

definition CheckSet :: "next_label \<Rightarrow> string \<Rightarrow> 'd rr list \<Rightarrow> rule_error + unit" where
  "CheckSet nl zoneName rrs =
     (let (owners, types) = foldl countRecord ([], []) (map rrKey rrs); apex = ToLower zoneName in
      bindE (checkApexNS (countIn (typesAt types apex) TypeNS)) (\<lambda>_.
      eachE (\<lambda>w. checkOwner nl apex w types) (sort owners)))"

section \<open>The edited owners\<close>

text \<open>\<open>rows\<close> are owner (lower case) and type of the zone's stored records. The query for a name below
  a DNAME is \<open>LIKE '%.' || owner\<close> with the wildcards of the owner escaped.\<close>

definition nameBelow :: "(string \<times> u16) list \<Rightarrow> string \<Rightarrow> bool" where
  "nameBelow rows w \<longleftrightarrow> list_ex (\<lambda>p. HasSuffix (fst p) (CHR ''.'' # w)) rows"

definition editedNames :: "next_label \<Rightarrow> string \<Rightarrow> string list \<Rightarrow> rule_error + string list" where
  "editedNames nl apex lower =
     bindE (mapE (\<lambda>w. case ancestors nl apex w of None \<Rightarrow> Inl NoReturn | Some out \<Rightarrow> Inr (w # out)) lower)
       (\<lambda>names. Inr (apex # concat names))"

definition checkEdited :: "next_label \<Rightarrow> string \<Rightarrow> (string \<times> u16) list \<Rightarrow> owner_types \<Rightarrow> string \<Rightarrow> rule_error + unit" where
  "checkEdited nl apex rows types w =
     (if map_of types w = None then Inr ()
      else bindE (checkOwner nl apex w types) (\<lambda>_.
        if countIn (typesAt types w) TypeDNAME = 0 then Inr ()
        else requireE (\<not> nameBelow rows w) DnameOccludes))"

definition checkOwners :: "next_label \<Rightarrow> string \<Rightarrow> (string \<times> u16) list \<Rightarrow> string list \<Rightarrow> rule_error + unit" where
  "checkOwners nl zoneName rows owners =
     (let apex = ToLower zoneName; lower = map ToLower owners in
      bindE (editedNames nl apex lower) (\<lambda>names.
      let types = foldl (\<lambda>ts p. addType ts (fst p) (snd p)) [] (filter (\<lambda>p. fst p \<in> set names) rows) in
      bindE (checkApexNS (countIn (typesAt types apex) TypeNS)) (\<lambda>_.
      eachE (checkEdited nl apex rows types) lower)))"

section \<open>Counting\<close>

definition typeCounts :: "(string \<times> u16) list \<Rightarrow> owner_types" where
  "typeCounts ps = foldl (\<lambda>ts p. addType ts (fst p) (snd p)) [] ps"

lemma typeCounts_snoc: "typeCounts (ps @ [p]) = addType (typeCounts ps) (fst p) (snd p)"
  by (simp add: typeCounts_def)

lemma typesAt_addType:
  "typesAt (addType ts w t) v = (if v = w then AList.update t (countIn (typesAt ts w) t + 1) (typesAt ts w) else typesAt ts v)"
  by (simp add: typesAt_def addType_def update_conv')

lemma countIn_typeCounts: "countIn (typesAt (typeCounts ps) w) t = count_list ps (w, t)"
proof (induction ps rule: rev_induct)
  case Nil
  show ?case by (simp add: typeCounts_def typesAt_def countIn_def)
next
  case (snoc p ps)
  then show ?case
    by (cases p) (auto simp: typeCounts_snoc typesAt_addType countIn_def update_conv' split: if_splits)
qed

lemma typesAt_types:
  "fst ` set (typesAt (typeCounts ps) w) = {t. (w, t) \<in> set ps} \<and> distinct (map fst (typesAt (typeCounts ps) w))"
proof (induction ps rule: rev_induct)
  case Nil
  show ?case by (simp add: typeCounts_def typesAt_def)
next
  case (snoc p ps)
  have "distinct (map fst (AList.update t n m))" if "distinct (map fst m)" for t n and m :: "(u16 \<times> nat) list"
    using that by (rule distinct_update)
  moreover have "fst ` set (AList.update t n m) = insert t (fst ` set m)" for t n and m :: "(u16 \<times> nat) list"
    using dom_update [of t n m] by (simp add: dom_map_of_conv_image_fst)
  ultimately show ?case using snoc by (cases p) (auto simp: typeCounts_snoc typesAt_addType)
qed

lemma typeCounts_None: "map_of (typeCounts ps) w = None \<longleftrightarrow> w \<notin> fst ` set ps"
  by (induction ps rule: rev_induct) (auto simp: typeCounts_def addType_def update_conv')

lemma several_types:
  assumes "(w, t) \<in> set ps"
  shows "length (typesAt (typeCounts ps) w) > 1 \<longleftrightarrow> (\<exists>u. u \<noteq> t \<and> (w, u) \<in> set ps)"
proof -
  let ?m = "typesAt (typeCounts ps) w"
  have s: "{u. (w, u) \<in> set ps} = set (map fst ?m)" "distinct (map fst ?m)" using typesAt_types [of ps w] by auto
  have t: "t \<in> set (map fst ?m)" using assms s(1) by blast
  have l: "length ?m = card (set (map fst ?m))" using distinct_card [OF s(2)] by simp
  have "(1 < card A) = (\<exists>u. u \<noteq> t \<and> u \<in> A)" if "finite A" "t \<in> A" for A :: "u16 set"
    using that by (metis One_nat_def card_1_singletonE card_gt_0_iff card_le_Suc0_iff_eq empty_iff linorder_not_less)
  from this [OF finite_set t] show ?thesis unfolding l using s(1) by blast
qed

lemma count_pos: "0 < count_list ps x \<longleftrightarrow> x \<in> set ps"
  by (simp add: count_list_0_iff zero_less_iff_neq_zero)

lemma collect_owners:
  "foldl countRecord ([], []) ps = (os, ts) \<Longrightarrow> ts = typeCounts ps \<and> set os = fst ` set ps"
proof (induction ps arbitrary: os ts rule: rev_induct)
  case Nil
  then show ?case by (simp add: typeCounts_def)
next
  case (snoc p ps)
  obtain o1 t1 where f: "foldl countRecord ([], []) ps = (o1, t1)" by fastforce
  from snoc.IH [OF f] have "t1 = typeCounts ps" "set o1 = fst ` set ps" by auto
  moreover from snoc.prems have "os = fst (countRecord (o1, t1) p)" "ts = snd (countRecord (o1, t1) p)" by (simp_all add: f)
  moreover have "insert (fst p) (fst ` set ps) = fst ` set ps" if "map_of (typeCounts ps) (fst p) \<noteq> None"
    using that typeCounts_None [of ps "fst p"] by (simp add: insert_absorb)
  ultimately show ?case by (auto simp: countRecord_def typeCounts_snoc)
qed

section \<open>What the checks decide\<close>

definition ownerOk :: "next_label \<Rightarrow> string \<Rightarrow> (string \<times> u16) list \<Rightarrow> string \<Rightarrow> bool" where
  "ownerOk nl apex ps w \<longleftrightarrow>
     ((w, TypeCNAME) \<in> set ps \<longrightarrow> count_list ps (w, TypeCNAME) = 1 \<and> (\<forall>t. (w, t) \<in> set ps \<longrightarrow> t = TypeCNAME) \<and> w \<noteq> apex) \<and>
     count_list ps (w, TypeDNAME) \<le> 1 \<and>
     ((w, TypeDS) \<in> set ps \<longrightarrow> w \<noteq> apex \<and> (w, TypeNS) \<in> set ps) \<and>
     (\<exists>parents. ancestors nl apex w = Some parents \<and> (\<forall>p \<in> set parents. (p, TypeDNAME) \<notin> set ps))"

definition zoneOk :: "next_label \<Rightarrow> string \<Rightarrow> (string \<times> u16) list \<Rightarrow> bool" where
  "zoneOk nl apex ps \<longleftrightarrow> (apex, TypeNS) \<in> set ps \<and> (\<forall>w \<in> fst ` set ps. ownerOk nl apex ps w)"

lemma checkOwner_iff: "checkOwner nl apex w (typeCounts ps) = Inr u \<longleftrightarrow> ownerOk nl apex ps w"
proof -
  let ?c = "\<lambda>t. count_list ps (w, t)"
  have cname: "(?c TypeCNAME > 0 \<and> (?c TypeCNAME > 1 \<or> length (typesAt (typeCounts ps) w) > 1 \<or> w = apex)) \<longleftrightarrow>
      \<not> ((w, TypeCNAME) \<in> set ps \<longrightarrow> ?c TypeCNAME = 1 \<and> (\<forall>t. (w, t) \<in> set ps \<longrightarrow> t = TypeCNAME) \<and> w \<noteq> apex)"
    using several_types [of w TypeCNAME ps] count_pos [of ps "(w, TypeCNAME)"] by (auto simp: neq_iff)
  show ?thesis
    unfolding checkOwner_def Let_def countIn_typeCounts ownerOk_def cname
    by (auto simp: eachE_Inr_iff count_list_0_iff count_pos not_less split: option.splits)
qed

lemma CheckSet_iff: "CheckSet nl z rrs = Inr u \<longleftrightarrow> zoneOk nl (ToLower z) (map rrKey rrs)"
proof -
  obtain os ts where f: "foldl countRecord ([], []) (map rrKey rrs) = (os, ts)" by fastforce
  note c = collect_owners [OF f]
  show ?thesis
    unfolding CheckSet_def f using c
    by (simp add: Let_def bindE_Inr_iff eachE_Inr_iff checkOwner_iff countIn_typeCounts zoneOk_def checkApexNS_def
      count_list_0_iff)
qed

lemma mapE_Inl: "mapE f xs = Inl e \<Longrightarrow> \<exists>x \<in> set xs. f x = Inl e"
  by (induction xs) (auto simp: bindE_Inl_iff)

lemma eachE_Inl: "eachE f xs = Inl e \<Longrightarrow> \<exists>x \<in> set xs. f x = Inl e"
  by (induction xs) (auto simp: bindE_Inl_iff)

lemma count_filter: "P x \<Longrightarrow> count_list (filter P xs) x = count_list xs x"
  by (induction xs) auto

text \<open>An owner's check reads the owner and the names above it only.\<close>

lemma ownerOk_filter:
  assumes "w \<in> N" "\<And>parents. ancestors nl apex w = Some parents \<Longrightarrow> set parents \<subseteq> N"
  shows "ownerOk nl apex (filter (\<lambda>p. fst p \<in> N) ps) w = ownerOk nl apex ps w"
  using assms by (auto simp: ownerOk_def count_filter)

lemma checkOwners_iff:
  "checkOwners nl z rows owners = Inr u \<longleftrightarrow> (ToLower z, TypeNS) \<in> set rows \<and>
     (\<forall>w \<in> ToLower ` set owners. ancestors nl (ToLower z) w \<noteq> None \<and>
       (w \<in> fst ` set rows \<longrightarrow> ownerOk nl (ToLower z) rows w \<and> ((w, TypeDNAME) \<in> set rows \<longrightarrow> \<not> nameBelow rows w)))"
  (is "?L \<longleftrightarrow> ?R")
proof (cases "editedNames nl (ToLower z) (map ToLower owners)")
  case (Inl e)
  then have "\<exists>w \<in> ToLower ` set owners. ancestors nl (ToLower z) w = None"
    using mapE_Inl [of _ "map ToLower owners" e] by (fastforce simp: editedNames_def bindE_Inl_iff split: option.splits)
  then show ?thesis using Inl by (auto simp: checkOwners_def Let_def)
next
  case (Inr names)
  then obtain nss where nss: "list_all2 (\<lambda>w ns. (case ancestors nl (ToLower z) w of None \<Rightarrow> Inl NoReturn | Some out \<Rightarrow> Inr (w # out)) = Inr ns) (map ToLower owners) nss"
    "names = ToLower z # concat nss" by (auto simp: editedNames_def bindE_Inr_iff mapE_Inr_iff)
  have sub: "\<exists>out. ancestors nl (ToLower z) w = Some out \<and> set (w # out) \<subseteq> set names" if w: "w \<in> ToLower ` set owners" for w
  proof -
    from w obtain i where i: "i < length (map ToLower owners)" "w = map ToLower owners ! i" by (metis in_set_conv_nth list.set_map)
    from list_all2_nthD [OF nss(1) i(1)] i(2) have "\<exists>out. ancestors nl (ToLower z) w = Some out \<and> nss ! i = w # out"
      by (auto split: option.splits)
    moreover have "nss ! i \<in> set nss" using i(1) nss(1) by (simp add: list_all2_lengthD [symmetric])
    moreover have "set ns \<subseteq> set names" if "ns \<in> set nss" for ns using that nss(2) by auto
    ultimately show ?thesis by (metis (no_types))
  qed
  have apex: "ToLower z \<in> set names" using nss(2) by simp
  let ?f = "filter (\<lambda>p. fst p \<in> set names) rows"
  have own: "checkEdited nl (ToLower z) rows (typeCounts ?f) w = Inr () \<longleftrightarrow>
      (w \<in> fst ` set rows \<longrightarrow> ownerOk nl (ToLower z) rows w \<and> ((w, TypeDNAME) \<in> set rows \<longrightarrow> \<not> nameBelow rows w))"
    if w: "w \<in> ToLower ` set owners" for w
  proof -
    obtain out where o: "ancestors nl (ToLower z) w = Some out" "set (w # out) \<subseteq> set names" using sub [OF w] by blast
    have "ownerOk nl (ToLower z) ?f w = ownerOk nl (ToLower z) rows w" by (rule ownerOk_filter) (use o in auto)
    then show ?thesis
      using o(2) by (auto simp: checkEdited_def typeCounts_None bindE_Inr_iff checkOwner_iff countIn_typeCounts count_filter count_list_0_iff)
  qed
  have "\<forall>w \<in> set owners. ancestors nl (ToLower z) (ToLower w) \<noteq> None" using sub by fastforce
  then show ?thesis
    using Inr own apex
    by (auto simp: checkOwners_def Let_def bindE_Inr_iff typeCounts_def [symmetric] eachE_Inr_iff countIn_typeCounts
      checkApexNS_def count_filter count_list_0_iff)
qed

section \<open>Labels\<close>

text \<open>What the sources rely on of \<open>dns.NextLabel\<close>: it finds a label start behind the offset, after a
  dot; and in a name without escapes it overlooks no dot but the last octet.\<close>

definition label_law :: "next_label \<Rightarrow> bool" where
  "label_law nl \<longleftrightarrow> (\<forall>s off i. nl s off = (i, False) \<longrightarrow> off < i \<and> i < length s \<and> s ! (i - 1) = CHR ''.'')"

definition plain_law :: "next_label \<Rightarrow> bool" where
  "plain_law nl \<longleftrightarrow> (\<forall>s off j. CHR 0x5C \<notin> set s \<longrightarrow> off \<le> j \<longrightarrow> Suc j < length s \<longrightarrow> s ! j = CHR ''.'' \<longrightarrow>
     \<not> snd (nl s off) \<and> fst (nl s off) \<le> Suc j)"

lemma suffix_at:
  assumes "0 < k" "k \<le> length w" "w ! (k - 1) = CHR ''.''"
  shows "HasSuffix w (CHR ''.'' # drop k w)"
proof -
  have "drop (k - 1) w = CHR ''.'' # drop k w" using assms Cons_nth_drop_Suc [of "k - 1" w] by simp
  then show ?thesis using assms by (simp add: HasSuffix_def Suc_diff_le [symmetric])
qed

lemma ancestorsFrom_stop [simp]: "ancestorsFrom nl apex w i True = Some []"
  by (simp add: ancestorsFrom.simps)

lemma ancestorsFrom_step:
  "\<not> stop \<Longrightarrow> int (length w) - int off \<ge> int (length apex) \<Longrightarrow> nl w off = (i, e) \<Longrightarrow>
    ancestorsFrom nl apex w off stop = Option.bind (ancestorsFrom nl apex w i e) (\<lambda>out. Some (drop off w # out))"
  by (simp add: ancestorsFrom.simps)

lemma ancestorsFrom_spec:
  assumes "label_law nl" "\<not> stop \<Longrightarrow> 0 < off \<and> off < length w \<and> w ! (off - 1) = CHR ''.''"
  shows "\<exists>out. ancestorsFrom nl apex w off stop = Some out \<and> (\<forall>p \<in> set out. HasSuffix w (CHR ''.'' # p))"
  using assms(2)
proof (induction "length w - off" arbitrary: off stop rule: less_induct)
  case less
  show ?case
  proof (cases "\<not> stop \<and> int (length w) - int off \<ge> int (length apex)")
    case True
    obtain i e where n: "nl w off = (i, e)" by fastforce
    have o: "0 < off" "off < length w" "w ! (off - 1) = CHR ''.''" using True less.prems by auto
    have "\<exists>out. ancestorsFrom nl apex w i e = Some out \<and> (\<forall>p \<in> set out. HasSuffix w (CHR ''.'' # p))"
    proof (cases e)
      case True
      then show ?thesis by simp
    next
      case False
      then have "off < i" "i < length w" "w ! (i - 1) = CHR ''.''" using assms(1) n by (auto simp: label_law_def)
      with less.hyps [of i e] show ?thesis using o(2) by simp
    qed
    then show ?thesis using suffix_at [OF o(1) _ o(3)] o(2) ancestorsFrom_step [of stop apex w off nl i e] n True by auto
  qed (auto simp: ancestorsFrom.simps [of nl apex w off stop])
qed

lemma ancestors_spec:
  assumes "label_law nl"
  obtains out where "ancestors nl apex w = Some out" "\<And>p. p \<in> set out \<Longrightarrow> HasSuffix w (CHR ''.'' # p)"
proof -
  obtain i e where n: "nl w 0 = (i, e)" by fastforce
  have "\<not> e \<Longrightarrow> 0 < i \<and> i < length w \<and> w ! (i - 1) = CHR ''.''" using assms n by (auto simp: label_law_def)
  from ancestorsFrom_spec [OF assms this, of e apex] show thesis using that n by (auto simp: ancestors_def)
qed

lemma plain_lawD:
  assumes "plain_law nl" "CHR 0x5C \<notin> set s" "off < k" "k < length s" "s ! (k - 1) = CHR ''.''"
  shows "\<not> snd (nl s off)" "fst (nl s off) \<le> k"
proof -
  have "off \<le> k - 1" "Suc (k - 1) < length s" using assms(3,4) by auto
  with assms(1,2,5) have "\<not> snd (nl s off) \<and> fst (nl s off) \<le> Suc (k - 1)" unfolding plain_law_def by blast
  then show "\<not> snd (nl s off)" "fst (nl s off) \<le> k" using assms(3) by auto
qed

lemma ancestorsFrom_complete:
  assumes "label_law nl" "plain_law nl" "CHR 0x5C \<notin> set w" "ancestorsFrom nl apex w off stop = Some out" "\<not> stop"
    "off \<le> k" "0 < k" "k < length w" "w ! (k - 1) = CHR ''.''" "length apex \<le> length w - k" "0 < off"
  shows "drop k w \<in> set out"
  using assms(4-6,11)
proof (induction "length w - off" arbitrary: off stop out rule: less_induct)
  case less
  have c: "\<not> stop \<and> int (length w) - int off \<ge> int (length apex)" using less.prems assms(8,10) by linarith
  then obtain out' where out: "ancestorsFrom nl apex w (fst (nl w off)) (snd (nl w off)) = Some out'" "out = drop off w # out'"
    using less.prems(1) ancestorsFrom_step [of stop apex w off nl "fst (nl w off)" "snd (nl w off)"] by (auto split: Option.bind_splits)
  show ?case
  proof (cases "off = k")
    case False
    then have "off < k" using less.prems(3) by simp
    note n = plain_lawD [OF assms(2,3) this assms(8,9)]
    moreover have "off < fst (nl w off)" using n(1) assms(1) by (cases "nl w off") (auto simp: label_law_def)
    ultimately show ?thesis using less.hyps [OF _ out(1)] out(2) assms(8) less.prems(3) n by auto
  qed (use out(2) in simp)
qed

lemma ancestors_complete:
  assumes "label_law nl" "plain_law nl" "CHR 0x5C \<notin> set w" "ancestors nl apex w = Some out" "HasSuffix w (CHR ''.'' # p)"
    "length apex \<le> length p" "p \<noteq> []"
  shows "p \<in> set out"
proof -
  let ?k = "length w - length p"
  have d: "length p < length w" "drop (length w - Suc (length p)) w = CHR ''.'' # p" using assms(5) by (auto simp: HasSuffix_def)
  have i: "?k - 1 = length w - Suc (length p)" by simp
  then have "drop (?k - 1) w = CHR ''.'' # p" using d(2) by simp
  then have "w ! (?k - 1) = CHR ''.''" by (metis hd_drop_conv_nth list.sel(1) drop_eq_Nil2 linorder_not_le list.distinct(1))
  then have k: "0 < ?k" "?k < length w" "w ! (?k - 1) = CHR ''.''" using d(1) assms(7) by (auto simp flip: length_greater_0_conv)
  have "drop ?k w = tl (drop (?k - 1) w)" using k(1) by (metis Suc_diff_1 drop_Suc tl_drop)
  then have "drop ?k w = p" using d(2) i by simp
  note n = plain_lawD [OF assms(2,3) k]
  have "0 < fst (nl w 0)" using n(1) assms(1) by (cases "nl w 0") (auto simp: label_law_def)
  from ancestorsFrom_complete [OF assms(1-3) assms(4) [unfolded ancestors_def] n k(1,2,3) _ this] \<open>drop ?k w = p\<close> assms(6) d(1)
  show ?thesis by simp
qed

section \<open>An edit keeps the rules\<close>

definition sameAway :: "string set \<Rightarrow> (string \<times> u16) list \<Rightarrow> (string \<times> u16) list \<Rightarrow> bool" where
  "sameAway os ps qs \<longleftrightarrow> (\<forall>k. fst k \<notin> os \<longrightarrow> count_list qs k = count_list ps k)"

lemma zoneOkD: "zoneOk nl apex ps \<Longrightarrow> w \<in> fst ` set ps \<Longrightarrow> ownerOk nl apex ps w"
  unfolding zoneOk_def by blast

lemma sameAway_mem: "sameAway os ps qs \<Longrightarrow> fst k \<notin> os \<Longrightarrow> k \<in> set qs \<longleftrightarrow> k \<in> set ps"
  unfolding sameAway_def count_pos [symmetric] by presburger

lemma checkOwners_sound:
  assumes "label_law nl" "zoneOk nl (ToLower z) ps" "sameAway (ToLower ` set owners) ps qs"
    "checkOwners nl z qs owners = Inr ()"
  shows "zoneOk nl (ToLower z) qs"
proof -
  let ?A = "ToLower z" and ?O = "ToLower ` set owners"
  note mem = sameAway_mem [OF assms(3)]
  have ap: "(?A, TypeNS) \<in> set qs"
    and ed: "\<And>w. w \<in> ?O \<Longrightarrow> w \<in> fst ` set qs \<Longrightarrow> ownerOk nl ?A qs w \<and> ((w, TypeDNAME) \<in> set qs \<longrightarrow> \<not> nameBelow qs w)"
    using assms(4) unfolding checkOwners_iff by blast+
  have "ownerOk nl ?A qs w" if w: "w \<in> fst ` set qs" "w \<notin> ?O" for w
  proof -
    have at: "(w, t) \<in> set qs \<longleftrightarrow> (w, t) \<in> set ps" "count_list qs (w, t) = count_list ps (w, t)" for t
      using mem [of "(w, t)"] assms(3) w(2) by (auto simp: sameAway_def)
    then have "w \<in> fst ` set ps" using w(1) by force
    then have old: "ownerOk nl ?A ps w" using zoneOkD [OF assms(2)] by blast
    obtain out where out: "ancestors nl ?A w = Some out" "\<And>p. p \<in> set out \<Longrightarrow> HasSuffix w (CHR ''.'' # p)"
      using ancestors_spec [OF assms(1)] by blast
    have "(p, TypeDNAME) \<notin> set qs" if p: "p \<in> set out" for p
    proof (cases "p \<in> ?O")
      case True
      have "nameBelow qs p" using out(2) [OF p] w(1) by (auto simp: nameBelow_def list_ex_iff)
      then show ?thesis using ed [OF True] by force
    next
      case False
      then show ?thesis using mem [of "(p, TypeDNAME)"] old out(1) p by (auto simp: ownerOk_def)
    qed
    then show ?thesis using old out(1) unfolding ownerOk_def at by auto
  qed
  then show ?thesis using ap ed unfolding zoneOk_def by blast
qed

lemma checkOwners_complete:
  assumes "label_law nl" "plain_law nl" "zoneOk nl (ToLower z) qs" "\<forall>w \<in> fst ` set qs. CHR 0x5C \<notin> set w"
    "\<forall>w \<in> set owners. length z \<le> length w \<and> w \<noteq> []"
  shows "checkOwners nl z qs owners = Inr ()"
  unfolding checkOwners_iff
proof (intro conjI ballI impI)
  let ?A = "ToLower z"
  show "(?A, TypeNS) \<in> set qs" using assms(3) by (simp add: zoneOk_def)
  fix w assume w: "w \<in> ToLower ` set owners"
  show "ancestors nl ?A w \<noteq> None" by (rule ancestors_spec [OF assms(1)]) auto
  assume q: "w \<in> fst ` set qs"
  show "ownerOk nl ?A qs w" using zoneOkD [OF assms(3) q] .
  assume d: "(w, TypeDNAME) \<in> set qs"
  show "\<not> nameBelow qs w"
  proof
    assume "nameBelow qs w"
    then obtain v where v: "v \<in> fst ` set qs" "HasSuffix v (CHR ''.'' # w)" by (auto simp: nameBelow_def list_ex_iff)
    then have "ownerOk nl ?A qs v" using zoneOkD [OF assms(3)] by blast
    then obtain out where out: "ancestors nl ?A v = Some out" "(w, TypeDNAME) \<in> set qs \<Longrightarrow> w \<notin> set out"
      by (auto simp: ownerOk_def)
    have "length ?A \<le> length w" "w \<noteq> []" using w assms(5) by (auto simp: ToLower_def)
    then have "w \<in> set out" using ancestors_complete [OF assms(1,2) _ out(1) v(2)] assms(4) v(1) by blast
    then show False using out(2) d by blast
  qed
qed

text \<open>Example: \<open>dns.NextLabel\<close> stops after a dot that an even number of backslashes precedes.\<close>

definition exNextLabel :: next_label where
  "exNextLabel s off =
     (case filter (\<lambda>i. s ! i = CHR ''.'' \<and> even (length (takeWhile (\<lambda>c. c = CHR 0x5C) (rev (take i s))))) [off..<length s - 1] of
        [] \<Rightarrow> (length s, True)
      | i # _ \<Rightarrow> (Suc i, False))"

lemma exNextLabel_laws: "label_law exNextLabel" "plain_law exNextLabel"
proof -
  show "label_law exNextLabel" unfolding label_law_def
  proof (intro allI impI)
    fix s off i assume "exNextLabel s off = (i, False)"
    then obtain j js where j: "filter (\<lambda>i. s ! i = CHR ''.'' \<and> even (length (takeWhile (\<lambda>c. c = CHR 0x5C) (rev (take i s)))))
      [off..<length s - 1] = j # js" "i = Suc j" by (auto simp: exNextLabel_def split: list.splits)
    from j(1) have "j \<in> set (filter (\<lambda>i. s ! i = CHR ''.'' \<and> even (length (takeWhile (\<lambda>c. c = CHR 0x5C) (rev (take i s)))))
      [off..<length s - 1])" by simp
    then have "j \<in> set [off..<length s - 1]" "s ! j = CHR ''.''" by auto
    then show "off < i \<and> i < length s \<and> s ! (i - 1) = CHR ''.''" using j(2) by auto
  qed
next
  show "plain_law exNextLabel" unfolding plain_law_def
  proof (intro allI impI)
    fix s off j assume h: "CHR 0x5C \<notin> set s" "off \<le> j" "Suc j < length s" "s ! j = CHR ''.''"
    have t: "takeWhile (\<lambda>c. c = CHR 0x5C) (rev (take i s)) = []" for i
    proof (cases "rev (take i s)")
      case (Cons a l)
      then have "a \<in> set s" by (metis in_set_takeD list.set_intros(1) set_rev)
      then show ?thesis using h(1) Cons by auto
    qed auto
    define xs where "xs = filter (\<lambda>i. s ! i = CHR ''.'') [off..<length s - 1]"
    have "sorted xs" "j \<in> set xs" using h by (auto simp: xs_def sorted_wrt_filter)
    moreover have "exNextLabel s off = (case xs of [] \<Rightarrow> (length s, True) | i # _ \<Rightarrow> (Suc i, False))"
      by (simp add: exNextLabel_def t xs_def)
    ultimately show "\<not> snd (exNextLabel s off) \<and> fst (exNextLabel s off) \<le> Suc j" by (cases xs) auto
  qed
qed

lemma lower_no_escape:
  assumes "CHR 0x5C \<notin> set w"
  shows "CHR 0x5C \<notin> set (ToLower w)"
proof -
  have "lower_char c \<noteq> CHR 0x5C" if "c \<noteq> CHR 0x5C" for c
    using that by (cases "65 \<le> (of_char c :: nat) \<and> (of_char c :: nat) \<le> 90")
      (auto simp: lower_char_def Let_def dest: arg_cong [where f = "of_char :: char \<Rightarrow> nat"])
  then show ?thesis using assms unfolding ToLower_def by (metis imageE list.set_map)
qed

lemma checkOwner_returns:
  assumes "label_law nl"
  shows "checkOwner nl apex w types \<noteq> Inl NoReturn"
proof -
  obtain out where "ancestors nl apex w = Some out" using ancestors_spec [OF assms] by blast
  then show ?thesis by (auto simp: checkOwner_def Let_def requireE_def dest!: eachE_Inl split: if_splits)
qed

section \<open>Properties\<close>

text \<open>C35. The checks return for every zone: if \<open>dns.NextLabel\<close> always finds a label start behind its
  offset, the loop over the names above an owner ends, for whole zones and for edits alike.\<close>

theorem zone_checks_return:
  assumes "label_law nl"
  shows "CheckSet nl z rrs \<noteq> Inl NoReturn \<and> checkOwners nl z rows owners \<noteq> Inl NoReturn"
proof
  show "CheckSet nl z rrs \<noteq> Inl NoReturn"
    by (auto simp: CheckSet_def Let_def bindE_Inl_iff checkApexNS_def checkOwner_returns [OF assms]
      dest!: eachE_Inl split: prod.splits if_splits)
  have up: "ancestors nl a w \<noteq> None" for a w by (rule ancestors_spec [OF assms]) auto
  have "editedNames nl a ws \<noteq> Inl e" for a ws e
  proof
    assume "editedNames nl a ws = Inl e"
    then obtain w where "(case ancestors nl a w of None \<Rightarrow> Inl NoReturn | Some out \<Rightarrow> Inr (w # out)) = Inl e"
      by (auto simp: editedNames_def bindE_Inl_iff dest!: mapE_Inl)
    then show False using up [of a w] by (auto split: option.splits)
  qed
  moreover have "checkEdited nl a rs ts w \<noteq> Inl NoReturn" for a rs ts w
    by (auto simp: checkEdited_def bindE_Inl_iff checkOwner_returns [OF assms] requireE_def split: if_splits)
  ultimately show "checkOwners nl z rows owners \<noteq> Inl NoReturn"
    by (auto simp: checkOwners_def Let_def bindE_Inl_iff checkApexNS_def dest!: eachE_Inl split: if_splits)
qed

theorem zone_checks_return_witness: "CheckSet exNextLabel ''ab.'' ([] :: unit rr list) \<noteq> Inl NoReturn"
  using zone_checks_return [OF exNextLabel_laws(1)] by blast

text \<open>C14. The check after a record edit is as good as the check of the whole zone. If the zone obeyed
  the rules and the edit touched the given owners only, then \<open>checkOwners\<close> accepts only what
  \<open>CheckSet\<close> accepts; and when no owner has an escaped octet and the edited ones lie in the zone,
  it accepts all of it.\<close>

theorem record_edit_check:
  assumes "label_law nl" "plain_law nl" "CheckSet nl z old = Inr ()"
    "sameAway (ToLower ` set owners) (map rrKey old) (map rrKey new)"
  shows "(checkOwners nl z (map rrKey new) owners = Inr () \<longrightarrow> CheckSet nl z new = Inr ()) \<and>
    ((\<forall>r \<in> set new. CHR 0x5C \<notin> set (hName r)) \<and> (\<forall>w \<in> set owners. length z \<le> length w \<and> w \<noteq> []) \<longrightarrow>
      CheckSet nl z new = Inr () \<longrightarrow> checkOwners nl z (map rrKey new) owners = Inr ())"
proof -
  have "\<forall>w \<in> fst ` set (map rrKey new). CHR 0x5C \<notin> set w" if "\<forall>r \<in> set new. CHR 0x5C \<notin> set (hName r)"
    using that lower_no_escape by (auto simp: rrKey_def)
  then show ?thesis
    using checkOwners_sound [OF assms(1) _ assms(4)] checkOwners_complete [OF assms(1,2), of z "map rrKey new" owners] assms(3)
    unfolding CheckSet_iff by blast
qed

definition exRR :: "string \<Rightarrow> u16 \<Rightarrow> unit rr" where
  "exRR w t = \<lparr>hName = w, hType = t, hClass = 1, hTTL = 60, hRdlength = 0, rrData = ROther ()\<rparr>"

theorem record_edit_check_witness:
  "CheckSet exNextLabel ''ab.'' [exRR ''ab.'' 2, exRR ''d.ab.'' 39] = Inr ()"
proof -
  have "CheckSet exNextLabel ''ab.'' [exRR ''ab.'' 2] = Inr ()" by code_simp
  moreover have "sameAway (ToLower ` set [''d.ab.'']) (map rrKey [exRR ''ab.'' 2]) (map rrKey [exRR ''ab.'' 2, exRR ''d.ab.'' 39])"
    by (auto simp: sameAway_def rrKey_def exRR_def)
  moreover have "checkOwners exNextLabel ''ab.'' (map rrKey [exRR ''ab.'' 2, exRR ''d.ab.'' 39]) [''d.ab.''] = Inr ()" by code_simp
  ultimately show ?thesis using record_edit_check [OF exNextLabel_laws, of "''ab.''"] by blast
qed


end
