(* ===== verification/Serials.thy ===== *)
theory Serials
  imports Nexora_Prelude
begin

text \<open>
  Serial numbers (\<open>mgmt/internal/zone/serial.go\<close>): the 32-bit comparison of RFC 1982 as the code
  writes it, and its reading as a distance on the circle of serials.
\<close>

definition SerialLess :: "u32 \<Rightarrow> u32 \<Rightarrow> bool" where
  "SerialLess a b =
     (if a = b then False
      else let half = push_bit 31 1 in (a < b \<and> b - a < half) \<or> (b < a \<and> half < a - b))"

definition SerialNext :: "u32 \<Rightarrow> u32" where
  "SerialNext s = s + 1"

lemma half_unat: "unat (push_bit 31 1 :: u32) = 2147483648"
  by simp

lemma unat_sub_u32:
  "unat (b - a :: u32) = (if unat a \<le> unat b then unat b - unat a else unat b + 4294967296 - unat a)"
  by (simp add: unat_sub_if_size word_size)

lemma SerialLess_distance: "SerialLess a b \<longleftrightarrow> 0 < unat (b - a) \<and> unat (b - a) < 2147483648"
proof -
  have ab: "unat a < 4294967296" "unat b < 4294967296" by simp_all
  have lt: "a < b \<longleftrightarrow> unat a < unat b" "b < a \<longleftrightarrow> unat b < unat a" by (simp_all add: word_less_nat_alt)
  have "SerialLess a b \<longleftrightarrow> (unat a < unat b \<and> unat (b - a) < 2147483648) \<or>
      (unat b < unat a \<and> 2147483648 < unat (a - b))"
    by (auto simp: SerialLess_def Let_def word_less_nat_alt half_unat simp del: push_bit_of_1)
  also have "\<dots> \<longleftrightarrow> 0 < unat (b - a) \<and> unat (b - a) < 2147483648"
    using ab by (auto simp: unat_sub_u32 simp del: unat_u32_lt)
  finally show ?thesis .
qed

lemma SerialLess_irrefl [simp]: "\<not> SerialLess a a"
  by (simp add: SerialLess_def)

lemma SerialLess_asym: "SerialLess a b \<Longrightarrow> \<not> SerialLess b a"
proof -
  have ab: "unat a < 4294967296" "unat b < 4294967296" by simp_all
  then show "SerialLess a b \<Longrightarrow> \<not> SerialLess b a"
    by (auto simp: SerialLess_distance unat_sub_u32 simp del: unat_u32_lt split: if_splits)
qed

lemma SerialNext_less: "SerialLess s (SerialNext s)"
  by (simp add: SerialLess_distance SerialNext_def)

section \<open>Properties\<close>

text \<open>\<open>SerialLess a b\<close> holds exactly when \<open>b\<close> is reached from \<open>a\<close> by adding between 1 and
  \<open>2 ^ 31 - 1\<close> with wrap-around (RFC 1982): so it is irreflexive and asymmetric, two different
  serials are incomparable only at distance \<open>2 ^ 31\<close>, and the successor is always greater.\<close>

lemma SerialLess_rfc1982:
  "(SerialLess a b \<longleftrightarrow> (\<exists>n. 0 < n \<and> n < 2 ^ 31 \<and> b = a + word_of_nat n)) \<and>
   \<not> (SerialLess a b \<and> SerialLess b a) \<and>
   (a = b \<or> SerialLess a b \<or> SerialLess b a \<or> b = a + 2 ^ 31) \<and>
   SerialLess a (SerialNext a)"
proof -
  have 1: "SerialLess a b \<longleftrightarrow> (\<exists>n. 0 < n \<and> n < 2 ^ 31 \<and> b = a + word_of_nat n)"
  proof
    assume "SerialLess a b"
    then show "\<exists>n. 0 < n \<and> n < 2 ^ 31 \<and> b = a + word_of_nat n"
      by (intro exI [of _ "unat (b - a)"]) (simp add: SerialLess_distance)
  next
    assume "\<exists>n. 0 < n \<and> n < 2 ^ 31 \<and> b = a + word_of_nat n"
    then show "SerialLess a b" by (auto simp: SerialLess_distance unat_of_nat)
  qed
  have 3: "a = b \<or> SerialLess a b \<or> SerialLess b a \<or> b = a + 2 ^ 31"
  proof (cases "unat (b - a) = 2147483648")
    case True
    then have "b - a = 2 ^ 31" by (intro word_unat_eq_iff [THEN iffD2]) simp
    then show ?thesis by (simp add: diff_eq_eq)
  next
    case False
    have ab: "unat a < 4294967296" "unat b < 4294967296" by simp_all
    show ?thesis
      using False ab by (auto simp: SerialLess_distance unat_sub_u32 word_unat_eq_iff simp del: unat_u32_lt split: if_splits)
  qed
  show ?thesis using 1 3 SerialLess_asym SerialNext_less by blast
qed

end
