(* ===== verification/Zone_Build.thy ===== *)
theory Zone_Build
  imports Nzf_Laws Serials
begin

text \<open>
  Building the served versions of a zone (\<open>mgmt/internal/zone/build.go\<close>): the difference of two
  record sets, the journal of deltas and the images beside it, and loading the served set back.
  The database is the state of one zone: its rows of \<open>zone_images\<close> and \<open>zone_journal\<close> and the
  content-addressed \<open>blobs\<close> table; a transaction that fails leaves no state, so an operation
  returns an error or the new state. What works on \<open>dns.RR\<close> values, the zstd and SHA-256 calls
  and the iteration order of a Go map are fields of the environment \<open>build_env\<close>.
\<close>

section \<open>Types\<close>

record zone_soa =
  soaMName :: string
  soaRName :: string
  soaRefresh :: u32
  soaRetry :: u32
  soaExpire :: u32
  soaMinimum :: u32
  soaTTL :: u32

record zone_row =
  zName :: string
  zKind :: string
  zSerial :: u32
  zSOA :: zone_soa
  zCurrentSeq :: int
  zImageSeq :: int
  zDNSSEC :: bool
  zZonemdGenerate :: bool

type_synonym sha = "byte list"

record image_row =
  irSeq :: int
  irSerial :: u32
  irSha :: sha
  irSize :: nat

record journal_row =
  jrSeq :: int
  jrFrom :: u32
  jrTo :: u32
  jrSha :: sha
  jrSize :: nat

record zone_db =
  dbImages :: "image_row list"
  dbJournal :: "journal_row list"
  dbBlobs :: "(sha \<times> byte list) list"

datatype zone_error =
    EncodeError malformed
  | DecodeError malformed
  | WrongBlobKind
  | NoRows
  | UniqueViolation
  | NeedSerial
  | IndexPanic
  | External nat

type_synonym 'a zres = "zone_error + 'a"

text \<open>The calls out of the package. \<open>signer\<close> is \<open>None\<close> for a nil \<open>Signer\<close>.\<close>

record 'rr rr_signer =
  sgSign :: "zone_row \<Rightarrow> 'rr list \<Rightarrow> 'rr list zres"
  sgResignSOA :: "zone_row \<Rightarrow> 'rr list \<Rightarrow> 'rr list zres"
  sgSignZONEMD :: "zone_row \<Rightarrow> 'rr list \<Rightarrow> 'rr list zres"

record 'rr build_env =
  fromRR :: "'rr \<Rightarrow> nzf_record zres"
  soaRR :: "zone_row \<Rightarrow> 'rr"
  setSerialRR :: "u32 \<Rightarrow> 'rr \<Rightarrow> 'rr"
  storedRRs :: "'rr list zres"
  zmdPlaceholder :: "zone_row \<Rightarrow> 'rr"
  zmdApply :: "zone_row \<Rightarrow> 'rr list \<Rightarrow> 'rr list zres"
  signer :: "'rr rr_signer option"
  wireName :: "string \<Rightarrow> byte list zres"
  foldTable :: "rune \<Rightarrow> rune"
  zstd :: "byte list \<Rightarrow> byte list"
  unzstd :: "byte list \<Rightarrow> byte list zres"
  sha256 :: "byte list \<Rightarrow> sha"
  mapOrder :: "nzf_record list \<Rightarrow> nzf_record list"

record 'rr zone_edit =
  edBefore :: "'rr list"
  edAfter :: "'rr list"

record 'rr rebuild_options =
  opEdit :: "'rr zone_edit option"
  opSerial :: "u32 option"
  opForce :: bool

definition journalKept :: int where "journalKept = 100"
definition imageEveryDelta :: int where "imageEveryDelta = 64"
definition imageMinDeltaBytes :: nat where "imageMinDeltaBytes = 65536"
definition maxServedSize :: nat where "maxServedSize = 2147483648"

definition TypeZONEMD :: u16 where "TypeZONEMD = 63"
definition TypeRRSIG :: u16 where "TypeRRSIG = 46"

section \<open>Record sets\<close>

definition isSOAData :: "nzf_record \<Rightarrow> bool" where
  "isSOAData r =
     (if rType r = typeSOA \<or> rType r = TypeZONEMD then True
      else if rType r \<noteq> TypeRRSIG \<or> length (rRData r) < 2 then False
      else case get_u16 (rRData r) of
        None \<Rightarrow> False
      | Some covered \<Rightarrow> covered = typeSOA \<or> covered = TypeZONEMD)"

definition soaWithSigs :: "nzf_record list \<Rightarrow> nzf_record list" where
  "soaWithSigs rs =
     filter (\<lambda>r. rType r = typeSOA) rs @ filter (\<lambda>r. rType r \<noteq> typeSOA \<and> isSOAData r) rs"

definition recordKey :: "nzf_record \<Rightarrow> byte list" where
  "recordKey r = rOwner r @ (put_u16 (rType r) @ put_u16 (rClass r) @ put_u32 (rTTL r)) @ rRData r"

text \<open>The loop over \<open>desired\<close>: the keys wanted so far and the records to add.\<close>

fun diff_want :: "byte list list \<Rightarrow> byte list list \<Rightarrow> nzf_record list \<Rightarrow> byte list list \<times> nzf_record list" where
  "diff_want prev want [] = (want, [])"
| "diff_want prev want (r # rs) =
     (if isSOAData r then diff_want prev want rs
      else if recordKey r \<in> set want then diff_want prev want rs
      else let (want', added) = diff_want prev (recordKey r # want) rs
           in (want', if recordKey r \<in> set prev then added else r # added))"

definition diffIgnoringSOA ::
    "nzf_record list \<Rightarrow> nzf_record list \<Rightarrow> nzf_record list \<times> nzf_record list" where
  "diffIgnoringSOA previous desired =
     (let prev = map recordKey (filter (\<lambda>r. \<not> isSOAData r) previous);
          (want, added) = diff_want prev [] desired
      in (filter (\<lambda>r. \<not> isSOAData r \<and> recordKey r \<notin> set want) previous, added))"

definition soaFieldsEqual :: "nzf_record list \<Rightarrow> nzf_record list \<Rightarrow> bool" where
  "soaFieldsEqual previous desired =
     (case (soaWithSigs previous, soaWithSigs desired) of
        (a # _, b # _) \<Rightarrow>
          let ra = rRData a; rb = rRData b; s = length ra - 20 in
          \<not> (rTTL a \<noteq> rTTL b \<or> rOwner a \<noteq> rOwner b \<or> length ra \<noteq> length rb \<or> length ra < 20) \<and>
          take s ra = take s rb \<and> drop (s + 4) ra = drop (s + 4) rb
      | _ \<Rightarrow> False)"

definition servedSerial :: "nzf_record list \<Rightarrow> u32 zres" where
  "servedSerial soaFirst = (case soaFirst of
     [] \<Rightarrow> Inl IndexPanic
   | r # _ \<Rightarrow>
       if length (rRData r) < 20 then Inl IndexPanic
       else case get_u32 (drop (length (rRData r) - 20) (rRData r)) of
         None \<Rightarrow> Inl IndexPanic | Some s \<Rightarrow> Inr s)"

definition withSerial :: "nzf_record \<Rightarrow> u32 \<Rightarrow> nzf_record zres" where
  "withSerial r serial =
     (let rd = rRData r; n = length rd - 20 in
      if length rd < 20 then Inl IndexPanic
      else Inr (r\<lparr>rRData := take n rd @ put_u32 serial @ drop (n + 4) rd\<rparr>))"

definition nextSerial :: "zone_row \<Rightarrow> u32 option \<Rightarrow> u32 zres" where
  "nextSerial z serial =
     (if zKind z = ''secondary'' then
        (case serial of None \<Rightarrow> Inl NeedSerial | Some s \<Rightarrow> Inr s)
      else
        let newSerial = (case serial of
              Some s \<Rightarrow> if SerialLess (zSerial z) s then s else SerialNext (zSerial z)
            | None \<Rightarrow> SerialNext (zSerial z))
        in Inr (if zCurrentSeq z = 0 \<and> serial = None then zSerial z else newSerial))"

section \<open>Blobs\<close>

definition PutBlob :: "'rr build_env \<Rightarrow> zone_db \<Rightarrow> byte list \<Rightarrow> sha \<times> zone_db" where
  "PutBlob env db data =
     (let k = sha256 env data in
      (k, if k \<in> fst ` set (dbBlobs db) then db else db\<lparr>dbBlobs := (k, data) # dbBlobs db\<rparr>))"

definition putBlob :: "'rr build_env \<Rightarrow> zone_db \<Rightarrow> byte list \<Rightarrow> sha \<times> zone_db" where
  "putBlob env db raw = PutBlob env db (zstd env raw)"

definition Decompress :: "'rr build_env \<Rightarrow> byte list \<Rightarrow> nat \<Rightarrow> byte list zres" where
  "Decompress env data maxSize =
     (if maxSize = 0 then Inl (External 0)
      else bindE (unzstd env data) (\<lambda>out.
        bindE (requireE (length out \<le> maxSize) (External 1)) (\<lambda>_. Inr out)))"

definition readBlob :: "'rr build_env \<Rightarrow> zone_db \<Rightarrow> sha \<Rightarrow> byte list zres" where
  "readBlob env db k = (case map_of (dbBlobs db) k of
     None \<Rightarrow> Inl NoRows
   | Some data \<Rightarrow> Decompress env data maxServedSize)"

section \<open>Loading the served set\<close>

text \<open>The Go map from record keys to records, as the list of its values.\<close>

definition map_put :: "nzf_record list \<Rightarrow> nzf_record \<Rightarrow> nzf_record list" where
  "map_put m r = filter (\<lambda>x. recordKey x \<noteq> recordKey r) m @ [r]"

definition map_delete :: "nzf_record list \<Rightarrow> nzf_record \<Rightarrow> nzf_record list" where
  "map_delete m r = filter (\<lambda>x. recordKey x \<noteq> recordKey r) m"

definition applyDelta :: "nzf_record list \<Rightarrow> nzf_delta \<Rightarrow> nzf_record list" where
  "applyDelta m d = foldl map_put (foldl map_delete m (dDeleted d)) (dAdded d)"

definition liftDecode :: "malformed + 'a \<Rightarrow> 'a zres" where
  "liftDecode m = (case m of Inl e \<Rightarrow> Inl (DecodeError e) | Inr x \<Rightarrow> Inr x)"

definition liftEncode :: "malformed + 'a \<Rightarrow> 'a zres" where
  "liftEncode m = (case m of Inl e \<Rightarrow> Inl (EncodeError e) | Inr x \<Rightarrow> Inr x)"

fun loadDeltas :: "'rr build_env \<Rightarrow> zone_db \<Rightarrow> sha list \<Rightarrow> nzf_record list \<Rightarrow> nzf_record list zres" where
  "loadDeltas env db [] m = Inr m"
| "loadDeltas env db (k # ks) m =
     bindE (readBlob env db k) (\<lambda>raw.
     bindE (liftDecode (Decode (foldTable env) raw)) (\<lambda>(_, _, d).
     case d of None \<Rightarrow> Inl WrongBlobKind | Some d \<Rightarrow> loadDeltas env db ks (applyDelta m d)))"

definition journalSince :: "zone_db \<Rightarrow> int \<Rightarrow> int \<Rightarrow> journal_row list" where
  "journalSince db from_seq to_seq =
     sort_key jrSeq (filter (\<lambda>j. from_seq < jrSeq j \<and> jrSeq j \<le> to_seq) (dbJournal db))"

definition loadServed :: "'rr build_env \<Rightarrow> zone_db \<Rightarrow> zone_row \<Rightarrow> nzf_record list zres" where
  "loadServed env db z =
     (case filter (\<lambda>i. irSeq i = zImageSeq z) (dbImages db) of
        [] \<Rightarrow> Inl NoRows
      | i # _ \<Rightarrow>
          bindE (readBlob env db (irSha i)) (\<lambda>raw.
          bindE (liftDecode (Decode (foldTable env) raw)) (\<lambda>(_, img, _).
          case img of
            None \<Rightarrow> Inl WrongBlobKind
          | Some img \<Rightarrow>
              bindE (loadDeltas env db (map jrSha (journalSince db (zImageSeq z) (zCurrentSeq z)))
                (foldl map_put [] (iRecords img))) (\<lambda>m.
              Inr (SortRecords (mapOrder env m))))))"

section \<open>Writing a version\<close>

definition needImage :: "zone_db \<Rightarrow> zone_row \<Rightarrow> int \<Rightarrow> bool zres" where
  "needImage db z seq =
     (if zImageSeq z = 0 \<or> imageEveryDelta \<le> seq - zImageSeq z then Inr True
      else case filter (\<lambda>i. irSeq i = zImageSeq z) (dbImages db) of
        [] \<Rightarrow> Inl NoRows
      | i # _ \<Rightarrow>
          let deltaBytes = sum_list (map jrSize (filter (\<lambda>j. zImageSeq z < jrSeq j) (dbJournal db)))
          in Inr (imageMinDeltaBytes \<le> deltaBytes \<and> irSize i \<le> deltaBytes * 4))"

definition writeImage ::
    "'rr build_env \<Rightarrow> zone_db \<Rightarrow> zone_row \<Rightarrow> byte list \<Rightarrow> int \<Rightarrow> u32 \<Rightarrow> nzf_record list
     \<Rightarrow> (zone_db \<times> zone_row) zres" where
  "writeImage env db z origin seq serial recs =
     bindE (liftEncode (EncodeFull (foldTable env) \<lparr>iOrigin = origin, iSerial = serial, iRecords = recs\<rparr>)) (\<lambda>raw.
     let (k, db1) = putBlob env db raw in
     bindE (requireE (seq \<notin> irSeq ` set (dbImages db1)) UniqueViolation) (\<lambda>_.
     Inr (db1\<lparr>dbImages := filter (\<lambda>i. \<not> irSeq i < seq)
            (\<lparr>irSeq = seq, irSerial = serial, irSha = k, irSize = length raw\<rparr> # dbImages db1)\<rparr>,
          z\<lparr>zImageSeq := seq\<rparr>)))"

definition insertJournal ::
    "'rr build_env \<Rightarrow> zone_db \<Rightarrow> int \<Rightarrow> nzf_delta option \<Rightarrow> zone_db zres" where
  "insertJournal env db seq od = (case od of
     None \<Rightarrow> Inr db
   | Some d \<Rightarrow>
       bindE (liftEncode (EncodeDelta (foldTable env) d)) (\<lambda>raw.
       let (k, db1) = putBlob env db raw in
       bindE (requireE (seq \<notin> jrSeq ` set (dbJournal db1)) UniqueViolation) (\<lambda>_.
       Inr (db1\<lparr>dbJournal := \<lparr>jrSeq = seq, jrFrom = dFromSerial d, jrTo = dToSerial d, jrSha = k,
         jrSize = length raw\<rparr> # dbJournal db1\<rparr>))))"

definition writeVersion ::
    "'rr build_env \<Rightarrow> zone_db \<Rightarrow> zone_row \<Rightarrow> byte list \<Rightarrow> u32 \<Rightarrow> nzf_delta option \<Rightarrow> bool
     \<Rightarrow> nzf_record list zres \<Rightarrow> (zone_db \<times> zone_row) zres" where
  "writeVersion env db z origin newSerial od forceImage img =
     (let seq = zCurrentSeq z + 1 in
      bindE (insertJournal env db seq od) (\<lambda>db1.
      bindE (needImage db1 z seq) (\<lambda>due.
      bindE (if due \<or> forceImage
             then bindE img (\<lambda>recs. writeImage env db1 z origin seq newSerial recs)
             else Inr (db1, z)) (\<lambda>(db2, z2).
      Inr (db2\<lparr>dbJournal := filter (\<lambda>j. \<not> (jrSeq j \<le> seq - journalKept \<and> jrSeq j \<le> zImageSeq z2))
                (dbJournal db2)\<rparr>,
           z2\<lparr>zSerial := newSerial, zCurrentSeq := seq\<rparr>)))))"

section \<open>Rebuild\<close>

definition toRecords :: "'rr build_env \<Rightarrow> 'rr list \<Rightarrow> nzf_record list zres" where
  "toRecords env rrs = mapE (fromRR env) rrs"

definition setSOASerial :: "'rr build_env \<Rightarrow> 'rr list \<Rightarrow> u32 \<Rightarrow> 'rr list" where
  "setSOASerial env rrs serial = map (setSerialRR env serial) rrs"

definition desiredRRs :: "'rr build_env \<Rightarrow> zone_row \<Rightarrow> 'rr list zres" where
  "desiredRRs env z = bindE (storedRRs env) (\<lambda>recs. Inr (soaRR env z # recs))"

definition generateZonemd :: "zone_row \<Rightarrow> bool" where
  "generateZonemd z \<longleftrightarrow> zZonemdGenerate z \<and> zKind z = ''primary''"

text \<open>\<open>whenSigned\<close> is the guard \<open>z.DNSSECEnabled && signer != nil\<close> around a signer call.\<close>

definition whenSigned ::
    "'rr build_env \<Rightarrow> zone_row \<Rightarrow> ('rr rr_signer \<Rightarrow> zone_row \<Rightarrow> 'rr list \<Rightarrow> 'rr list zres)
     \<Rightarrow> 'rr list \<Rightarrow> 'rr list zres" where
  "whenSigned env z f rrs = (case signer env of
     Some s \<Rightarrow> if zDNSSEC z then f s z rrs else Inr rrs
   | None \<Rightarrow> Inr rrs)"

definition rebuildDesired :: "'rr build_env \<Rightarrow> zone_row \<Rightarrow> 'rr list zres" where
  "rebuildDesired env z =
     bindE (desiredRRs env z) (\<lambda>desired.
     whenSigned env z sgSign (if generateZonemd z then desired @ [zmdPlaceholder env z] else desired))"

definition rebuildFinal :: "'rr build_env \<Rightarrow> zone_row \<Rightarrow> u32 \<Rightarrow> 'rr list \<Rightarrow> 'rr list zres" where
  "rebuildFinal env z newSerial desired =
     bindE (whenSigned env z sgResignSOA (setSOASerial env desired newSerial)) (\<lambda>desired.
     if generateZonemd z
     then bindE (zmdApply env z desired) (whenSigned env z sgSignZONEMD)
     else Inr desired)"

definition rebuildDelta ::
    "zone_row \<Rightarrow> byte list \<Rightarrow> u32 \<Rightarrow> nzf_record list \<Rightarrow> nzf_record list \<Rightarrow> nzf_record list
     \<Rightarrow> nzf_record list \<Rightarrow> (nzf_delta option \<times> bool) zres" where
  "rebuildDelta z origin newSerial previous deleted desiredRecs added =
     (if zCurrentSeq z > 0 then
        let del = soaWithSigs previous @ deleted; add = soaWithSigs desiredRecs @ added in
        bindE (servedSerial del) (\<lambda>served.
        bindE (if served \<noteq> zSerial z then
                 (case del of [] \<Rightarrow> Inl IndexPanic
                  | r # rs \<Rightarrow> bindE (withSerial r (zSerial z)) (\<lambda>r'. Inr (r' # rs, True)))
               else Inr (del, False)) (\<lambda>(del', force).
        Inr (Some \<lparr>dOrigin = origin, dFromSerial = zSerial z, dToSerial = newSerial,
          dDeleted = del', dAdded = add\<rparr>, force)))
      else Inr (None, False))"

definition servedRow :: "zone_db \<Rightarrow> zone_row \<Rightarrow> u32 zres" where
  "servedRow db z = (case filter (\<lambda>j. jrSeq j = zCurrentSeq z) (dbJournal db) of
     j # _ \<Rightarrow> Inr (jrTo j)
   | [] \<Rightarrow> (case filter (\<lambda>i. irSeq i = zCurrentSeq z) (dbImages db) of
       i # _ \<Rightarrow> Inr (irSerial i) | [] \<Rightarrow> Inl NoRows))"

definition rebuildEdit ::
    "'rr build_env \<Rightarrow> zone_db \<Rightarrow> zone_row \<Rightarrow> 'rr zone_edit \<Rightarrow> u32 option
     \<Rightarrow> (bool \<times> zone_db \<times> zone_row) zres" where
  "rebuildEdit env db z ed serial =
     bindE (toRecords env (edBefore ed)) (\<lambda>beforeRecs.
     bindE (toRecords env (edAfter ed)) (\<lambda>afterRecs.
     let (deleted, added) = diffIgnoringSOA beforeRecs afterRecs in
     if deleted = [] \<and> added = [] \<and> serial = None then Inr (False, db, z)
     else
       bindE (nextSerial z serial) (\<lambda>newSerial.
       bindE (servedRow db z) (\<lambda>served.
       bindE (fromRR env (soaRR env z)) (\<lambda>oldSOA.
       bindE (fromRR env (setSerialRR env newSerial (soaRR env z))) (\<lambda>newSOA.
       bindE (wireName env (zName z)) (\<lambda>origin.
       bindE (writeVersion env db z origin newSerial
         (Some \<lparr>dOrigin = origin, dFromSerial = zSerial z, dToSerial = newSerial,
           dDeleted = oldSOA # deleted, dAdded = newSOA # added\<rparr>)
         (served \<noteq> zSerial z)
         (bindE (desiredRRs env z) (\<lambda>desired. toRecords env (setSOASerial env desired newSerial))))
         (\<lambda>(db', z'). Inr (True, db', z')))))))))"

definition rebuildAll ::
    "'rr build_env \<Rightarrow> zone_db \<Rightarrow> zone_row \<Rightarrow> 'rr rebuild_options \<Rightarrow> (bool \<times> zone_db \<times> zone_row) zres" where
  "rebuildAll env db z opts =
     bindE (rebuildDesired env z) (\<lambda>desired.
     bindE (if zCurrentSeq z > 0 then loadServed env db z else Inr []) (\<lambda>previous.
     bindE (toRecords env desired) (\<lambda>desiredRecs.
     let (deleted, added) = diffIgnoringSOA previous desiredRecs;
         soaChanged = (zCurrentSeq z = 0 \<or> \<not> soaFieldsEqual previous desiredRecs) in
     if deleted = [] \<and> added = [] \<and> \<not> soaChanged \<and> \<not> opForce opts \<and> opSerial opts = None
     then Inr (False, db, z)
     else
       bindE (nextSerial z (opSerial opts)) (\<lambda>newSerial.
       bindE (rebuildFinal env z newSerial desired) (\<lambda>final.
       bindE (toRecords env final) (\<lambda>finalRecs.
       bindE (wireName env (zName z)) (\<lambda>origin.
       bindE (rebuildDelta z origin newSerial previous deleted finalRecs added) (\<lambda>(od, force).
       bindE (writeVersion env db z origin newSerial od force (Inr finalRecs)) (\<lambda>(db', z').
       Inr (True, db', z'))))))))))"

definition Rebuild ::
    "'rr build_env \<Rightarrow> zone_db \<Rightarrow> zone_row \<Rightarrow> 'rr rebuild_options \<Rightarrow> (bool \<times> zone_db \<times> zone_row) zres" where
  "Rebuild env db z opts =
     (case opEdit opts of
        Some ed \<Rightarrow>
          if \<not> zDNSSEC z \<and> \<not> generateZonemd z \<and> zKind z = ''primary'' \<and> zCurrentSeq z > 0 \<and> \<not> opForce opts
          then rebuildEdit env db z ed (opSerial opts)
          else rebuildAll env db z opts
      | None \<Rightarrow> rebuildAll env db z opts)"

end
