(* ===== verification/Zone_Store.thy ===== *)
theory Zone_Store
  imports Zone_Build
begin

text \<open>
  The version store of \<open>zone/build.go\<close> refines its specification: a zone has one served record
  set. Record keys identify records, the difference of two sets applied to the first gives the
  second, and the image plus the later deltas of the journal load back as the set last written.
\<close>

section \<open>Record keys identify records\<close>

definition validOwner :: "nzf_record \<Rightarrow> bool" where
  "validOwner r \<longleftrightarrow> validName (rOwner r) = Inr ()"

lemma wire_of_append_inj:
  "good_labels ls \<Longrightarrow> good_labels ms \<Longrightarrow> wire_of ls @ x = wire_of ms @ y \<Longrightarrow> ls = ms \<and> x = y"
proof (induction ls arbitrary: ms)
  case Nil
  then show ?case by (cases ms) (auto simp: length_octet_zero)
next
  case (Cons l ls)
  show ?case
  proof (cases ms)
    case Nil
    then show ?thesis using Cons.prems by (auto simp: length_octet_zero)
  next
    case (Cons m ms')
    have "length l = length m"
      using Cons.prems Cons length_octet_eq [of l m] by auto
    then show ?thesis
      using Cons.prems Cons Cons.IH [of ms'] by auto
  qed
qed

lemma put_u16_inj: "put_u16 a @ x = put_u16 b @ y \<Longrightarrow> a = b \<and> x = y"
proof -
  assume e: "put_u16 a @ x = put_u16 b @ y"
  then have "get_u16 (put_u16 a @ x) = get_u16 (put_u16 b @ y)" by (rule arg_cong)
  then have "a = b" by simp
  with e show ?thesis by simp
qed

lemma put_u32_inj: "put_u32 a @ x = put_u32 b @ y \<Longrightarrow> a = b \<and> x = y"
proof -
  assume e: "put_u32 a @ x = put_u32 b @ y"
  then have "get_u32 (put_u32 a @ x) = get_u32 (put_u32 b @ y)" by (rule arg_cong)
  then have "a = b" by simp
  with e show ?thesis by simp
qed

lemma put_eq_iff [simp]: "put_u16 a = put_u16 b \<longleftrightarrow> a = b" "put_u32 c = put_u32 d \<longleftrightarrow> c = d"
  using put_u16_inj [of a "[]" b "[]"] put_u32_inj [of c "[]" d "[]"] by auto

lemma recordKey_inj:
  assumes "validOwner r" "validOwner s" "recordKey r = recordKey s"
  shows "r = s"
proof -
  from assms(1,2) obtain ls ms where w: "good_labels ls" "rOwner r = wire_of ls"
    "good_labels ms" "rOwner s = wire_of ms" by (auto simp: validOwner_def validName_iff)
  from assms(3) w have "ls = ms \<and> (put_u16 (rType r) @ put_u16 (rClass r) @ put_u32 (rTTL r)) @ rRData r =
      (put_u16 (rType s) @ put_u16 (rClass s) @ put_u32 (rTTL s)) @ rRData s"
    by (intro wire_of_append_inj) (simp_all add: recordKey_def)
  then show ?thesis
    using w by simp
qed

lemma recordKey_eq_iff: "validOwner r \<Longrightarrow> validOwner s \<Longrightarrow> recordKey r = recordKey s \<longleftrightarrow> r = s"
  using recordKey_inj by blast

section \<open>The map of loadServed\<close>

definition allValid :: "nzf_record list \<Rightarrow> bool" where
  "allValid rs \<longleftrightarrow> list_all validOwner rs"

lemma allValid_iff: "allValid rs \<longleftrightarrow> (\<forall>r \<in> set rs. validOwner r)"
  by (simp add: allValid_def list_all_iff)

lemma allValid_simps [simp]:
  "allValid []"
  "allValid (r # rs) \<longleftrightarrow> validOwner r \<and> allValid rs"
  "allValid (rs @ ss) \<longleftrightarrow> allValid rs \<and> allValid ss"
  by (auto simp: allValid_def)

lemma map_put_set: "allValid m \<Longrightarrow> validOwner r \<Longrightarrow> set (map_put m r) = insert r (set m)"
  by (auto simp: map_put_def allValid_iff recordKey_eq_iff)

lemma map_delete_set: "allValid m \<Longrightarrow> validOwner r \<Longrightarrow> set (map_delete m r) = set m - {r}"
  by (auto simp: map_delete_def allValid_iff recordKey_eq_iff)

lemma allValid_map_put: "allValid m \<Longrightarrow> validOwner r \<Longrightarrow> allValid (map_put m r)"
  by (auto simp: map_put_def allValid_iff)

lemma allValid_map_delete: "allValid m \<Longrightarrow> allValid (map_delete m r)"
  by (auto simp: map_delete_def allValid_iff)

lemma foldl_put_set: "allValid m \<Longrightarrow> allValid rs \<Longrightarrow> set (foldl map_put m rs) = set m \<union> set rs"
  by (induction rs arbitrary: m) (auto simp: allValid_map_put map_put_set)

lemma foldl_put_valid: "allValid m \<Longrightarrow> allValid rs \<Longrightarrow> allValid (foldl map_put m rs)"
  by (induction rs arbitrary: m) (auto simp: allValid_map_put)

lemma foldl_delete_valid: "allValid m \<Longrightarrow> allValid (foldl map_delete m rs)"
  by (induction rs arbitrary: m) (auto simp: allValid_map_delete)

lemma foldl_delete_set: "allValid m \<Longrightarrow> allValid rs \<Longrightarrow> set (foldl map_delete m rs) = set m - set rs"
  by (induction rs arbitrary: m) (auto simp: allValid_map_delete map_delete_set)

lemma distinct_map_put: "distinct m \<Longrightarrow> distinct (map_put m r)"
  by (auto simp: map_put_def)

lemma distinct_foldl_put: "distinct m \<Longrightarrow> distinct (foldl map_put m rs)"
  by (induction rs arbitrary: m) (auto simp: distinct_map_put)

lemma distinct_foldl_delete: "distinct m \<Longrightarrow> distinct (foldl map_delete m rs)"
  by (induction rs arbitrary: m) (auto simp: map_delete_def)

lemma applyDelta_set:
  "allValid m \<Longrightarrow> allValid (dDeleted d) \<Longrightarrow> allValid (dAdded d) \<Longrightarrow>
   set (applyDelta m d) = (set m - set (dDeleted d)) \<union> set (dAdded d)"
  by (simp add: applyDelta_def foldl_put_set foldl_delete_valid foldl_delete_set)

lemma applyDelta_valid:
  "allValid m \<Longrightarrow> allValid (dAdded d) \<Longrightarrow> allValid (applyDelta m d)"
  by (simp add: applyDelta_def foldl_put_valid foldl_delete_valid)

lemma applyDelta_distinct: "distinct m \<Longrightarrow> distinct (applyDelta m d)"
  by (simp add: applyDelta_def distinct_foldl_put distinct_foldl_delete)

section \<open>Differences\<close>

lemma soaWithSigs_set: "set (soaWithSigs rs) = {r \<in> set rs. isSOAData r}"
  by (auto simp: soaWithSigs_def isSOAData_def)

lemma diff_want_fst:
  "set (fst (diff_want prev want rs)) = set want \<union> recordKey ` {r \<in> set rs. \<not> isSOAData r}"
  by (induction prev want rs rule: diff_want.induct) (auto simp: Let_def split: prod.splits)

lemma diff_want_snd:
  "allValid rs \<Longrightarrow> set (snd (diff_want prev want rs)) =
   {r \<in> set rs. \<not> isSOAData r \<and> recordKey r \<notin> set prev \<and> recordKey r \<notin> set want}"
proof (induction prev want rs rule: diff_want.induct)
  case (2 prev want r rs)
  then show ?case
    by (auto simp: Let_def allValid_iff recordKey_eq_iff split: prod.splits)
qed simp

lemma diffIgnoringSOA_set:
  assumes "allValid previous" "allValid desired" "diffIgnoringSOA previous desired = (deleted, added)"
  shows "set deleted = {r \<in> set previous. \<not> isSOAData r \<and> r \<notin> set desired}"
    and "set added = {r \<in> set desired. \<not> isSOAData r \<and> r \<notin> set previous}"
proof -
  let ?prev = "map recordKey (filter (\<lambda>r. \<not> isSOAData r) previous)"
  have d: "deleted = filter (\<lambda>r. \<not> isSOAData r \<and> recordKey r \<notin> set (fst (diff_want ?prev [] desired))) previous"
    and a: "added = snd (diff_want ?prev [] desired)"
    using assms(3) by (auto simp: diffIgnoringSOA_def Let_def split: prod.splits)
  have key: "recordKey r = recordKey s \<longleftrightarrow> r = s" if "r \<in> set previous \<union> set desired"
      "s \<in> set previous \<union> set desired" for r s
    using that assms(1,2) by (intro recordKey_eq_iff) (auto simp: allValid_iff)
  show "set deleted = {r \<in> set previous. \<not> isSOAData r \<and> r \<notin> set desired}"
    using key unfolding d by (auto simp: diff_want_fst image_iff)
  show "set added = {r \<in> set desired. \<not> isSOAData r \<and> r \<notin> set previous}"
    using key unfolding a diff_want_snd [OF assms(2)] by (auto simp: image_iff)
qed

section \<open>Blobs\<close>

text \<open>What the store relies on of its environment: zstd inflates what it deflated, SHA-256 does not
  collide, and ranging over a Go map visits every entry once.\<close>

definition env_ok :: "'rr build_env \<Rightarrow> bool" where
  "env_ok env \<longleftrightarrow> (\<forall>x. unzstd env (zstd env x) = Inr x) \<and> inj (sha256 env) \<and>
     (\<forall>m. mset (mapOrder env m) = mset m)"

definition contentAddressed :: "'rr build_env \<Rightarrow> zone_db \<Rightarrow> bool" where
  "contentAddressed env db \<longleftrightarrow> list_all (\<lambda>(k, d). k = sha256 env d) (dbBlobs db)"

lemma putBlob_frame:
  "putBlob env db raw = (k, db1) \<Longrightarrow> dbImages db1 = dbImages db \<and> dbJournal db1 = dbJournal db"
  by (auto simp: putBlob_def PutBlob_def Let_def split: if_splits)

lemma putBlob_content:
  "putBlob env db raw = (k, db1) \<Longrightarrow> contentAddressed env db \<Longrightarrow> contentAddressed env db1"
  by (auto simp: putBlob_def PutBlob_def contentAddressed_def Let_def split: if_splits)

lemma putBlob_read:
  assumes "env_ok env" "contentAddressed env db" "putBlob env db raw = (k, db1)"
    "length raw \<le> maxServedSize"
  shows "readBlob env db1 k = Inr raw"
proof -
  have k: "k = sha256 env (zstd env raw)" using assms(3) by (simp add: putBlob_def PutBlob_def Let_def)
  have c: "contentAddressed env db1" using putBlob_content assms by blast
  have "k \<in> fst ` set (dbBlobs db1)"
    using assms(3) k by (auto simp: putBlob_def PutBlob_def Let_def split: if_splits)
  then obtain d where d: "map_of (dbBlobs db1) k = Some d" by (metis map_of_eq_None_iff not_None_eq)
  then have "(k, d) \<in> set (dbBlobs db1)" by (rule map_of_SomeD)
  with c have "k = sha256 env d" by (auto simp: contentAddressed_def list_all_iff)
  with k assms(1) have "d = zstd env raw" by (auto simp: env_ok_def inj_def)
  with d assms(1,4) show ?thesis
    by (simp add: readBlob_def Decompress_def env_ok_def maxServedSize_def)
qed

lemma putBlob_keep:
  assumes "putBlob env db raw = (k, db1)" "readBlob env db k' = Inr x"
  shows "readBlob env db1 k' = Inr x"
proof -
  have "map_of (dbBlobs db) k' \<noteq> None" using assms(2) by (auto simp: readBlob_def split: option.splits)
  then have "k' \<in> fst ` set (dbBlobs db)" by (simp add: map_of_eq_None_iff)
  then have "map_of (dbBlobs db1) k' = map_of (dbBlobs db) k'"
    using assms(1) by (cases "sha256 env (zstd env raw) = k'") (auto simp: putBlob_def PutBlob_def Let_def)
  then show ?thesis using assms(2) by (simp add: readBlob_def)
qed

section \<open>Loading\<close>

lemma liftDecode_Inr: "liftDecode m = Inr x \<longleftrightarrow> m = Inr x"
  by (auto simp: liftDecode_def split: sum.splits)

lemma liftEncode_Inr: "liftEncode m = Inr x \<longleftrightarrow> m = Inr x"
  by (auto simp: liftEncode_def split: sum.splits)

definition loadMap :: "'rr build_env \<Rightarrow> zone_db \<Rightarrow> zone_row \<Rightarrow> nzf_record list zres" where
  "loadMap env db z =
     (case filter (\<lambda>i. irSeq i = zImageSeq z) (dbImages db) of
        [] \<Rightarrow> Inl NoRows
      | i # _ \<Rightarrow>
          bindE (readBlob env db (irSha i)) (\<lambda>raw.
          bindE (liftDecode (Decode (foldTable env) raw)) (\<lambda>(_, img, _).
          case img of
            None \<Rightarrow> Inl WrongBlobKind
          | Some img \<Rightarrow> loadDeltas env db (map jrSha (journalSince db (zImageSeq z) (zCurrentSeq z)))
                (foldl map_put [] (iRecords img)))))"

lemma bindE_assoc: "bindE (bindE m f) g = bindE m (\<lambda>x. bindE (f x) g)"
  by (simp add: bindE_def split: sum.splits)

lemma loadServed_loadMap:
  "loadServed env db z = bindE (loadMap env db z) (\<lambda>m. Inr (SortRecords (mapOrder env m)))"
  by (auto simp: loadServed_def loadMap_def bindE_def split: list.splits sum.splits prod.splits option.splits)

lemma loadServed_set:
  "env_ok env \<Longrightarrow> loadServed env db z = Inr p \<longleftrightarrow>
   (\<exists>m. loadMap env db z = Inr m \<and> p = SortRecords (mapOrder env m) \<and> set p = set m \<and>
     (distinct p \<longleftrightarrow> distinct m))"
proof -
  assume e: "env_ok env"
  have "set (SortRecords (mapOrder env m)) = set m \<and> (distinct (SortRecords (mapOrder env m)) \<longleftrightarrow> distinct m)" for m
  proof -
    have "mset (SortRecords (mapOrder env m)) = mset m"
      using e by (simp add: SortRecords_mset env_ok_def)
    then show ?thesis by (metis mset_eq_imp_distinct_iff mset_eq_setD)
  qed
  then show ?thesis by (auto simp: loadServed_loadMap bindE_Inr_iff)
qed

lemma checkRecord_validOwner: "checkRecord orbit r origin = Inr () \<Longrightarrow> validOwner r"
  by (simp add: checkRecord_Inr validOwner_def)

lemma validImage_allValid: "validImage orbit img \<Longrightarrow> allValid (iRecords img)"
  by (auto simp: validImage_def allValid_iff intro: checkRecord_validOwner)

lemma validDelta_allValid: "validDelta orbit d \<Longrightarrow> allValid (dDeleted d) \<and> allValid (dAdded d)"
  by (auto simp: validDelta_def allValid_iff intro: checkRecord_validOwner)

lemma loadDeltas_append:
  "loadDeltas env db (ks @ ls) m = bindE (loadDeltas env db ks m) (loadDeltas env db ls)"
  by (induction ks arbitrary: m) (auto simp: bindE_def split: sum.splits prod.splits option.splits)

lemma loadDeltas_valid:
  "loadDeltas env db ks m = Inr m' \<Longrightarrow> allValid m \<Longrightarrow> distinct m \<Longrightarrow> allValid m' \<and> distinct m'"
proof (induction ks arbitrary: m)
  case (Cons k ks)
  then obtain raw kd oi d where "Decode (foldTable env) raw = Inr (kd, oi, Some d)"
    and l: "loadDeltas env db ks (applyDelta m d) = Inr m'"
    by (auto simp: bindE_Inr_iff liftDecode_Inr split: option.splits)
  then have "allValid (dAdded d)" by (auto simp: Decode_delta_iff dest: validDelta_allValid)
  with Cons.IH [OF l] Cons.prems show ?case by (simp add: applyDelta_valid applyDelta_distinct)
qed simp

lemma loadMap_valid:
  assumes "loadMap env db z = Inr m"
  shows "allValid m \<and> distinct m"
proof -
  from assms obtain raw kd img od where "Decode (foldTable env) raw = Inr (kd, Some img, od)"
    and l: "loadDeltas env db (map jrSha (journalSince db (zImageSeq z) (zCurrentSeq z)))
      (foldl map_put [] (iRecords img)) = Inr m"
    by (auto simp: loadMap_def bindE_Inr_iff liftDecode_Inr split: list.splits option.splits)
  then have "allValid (iRecords img)" by (auto simp: Decode_full_iff dest: validImage_allValid)
  then have "allValid (foldl map_put [] (iRecords img))" "distinct (foldl map_put [] (iRecords img))"
    by (simp_all add: foldl_put_valid distinct_foldl_put)
  with loadDeltas_valid [OF l] show ?thesis by blast
qed

lemma loadDeltas_keep:
  assumes "\<And>k x. readBlob env db k = Inr x \<Longrightarrow> readBlob env db1 k = Inr x"
  shows "loadDeltas env db ks m = Inr m' \<Longrightarrow> loadDeltas env db1 ks m = Inr m'"
proof (induction ks arbitrary: m)
  case (Cons k ks)
  then obtain raw x where r: "readBlob env db k = Inr raw" and x: "Decode (foldTable env) raw = Inr x"
    by (auto simp: bindE_Inr_iff liftDecode_Inr)
  from Cons.prems r x obtain d where "snd (snd x) = Some d" "loadDeltas env db ks (applyDelta m d) = Inr m'"
    by (auto simp: liftDecode_def split: option.splits prod.splits)
  with Cons.IH assms [OF r] x show ?case by (auto simp: liftDecode_def split: prod.splits)
qed simp

section \<open>The invariant of the store\<close>

definition storeInv :: "'rr build_env \<Rightarrow> zone_db \<Rightarrow> zone_row \<Rightarrow> bool" where
  "storeInv env db z \<longleftrightarrow> contentAddressed env db \<and> 0 \<le> zImageSeq z \<and> zImageSeq z \<le> zCurrentSeq z \<and>
     (zImageSeq z = 0 \<longrightarrow> zCurrentSeq z = 0) \<and>
     (\<forall>i \<in> set (dbImages db). irSeq i \<le> zCurrentSeq z) \<and> distinct (map irSeq (dbImages db)) \<and>
     (\<forall>j \<in> set (dbJournal db). jrSeq j \<le> zCurrentSeq z) \<and> distinct (map jrSeq (dbJournal db))"

text \<open>Every blob of the zone can be read back: its raw size is within \<open>maxServedSize\<close>.\<close>

definition sizesOk :: "zone_db \<Rightarrow> bool" where
  "sizesOk db \<longleftrightarrow> (\<forall>i \<in> set (dbImages db). irSize i \<le> maxServedSize) \<and>
     (\<forall>j \<in> set (dbJournal db). jrSize j \<le> maxServedSize)"

definition deltaRow :: "int \<Rightarrow> nzf_delta \<Rightarrow> sha \<Rightarrow> byte list \<Rightarrow> journal_row" where
  "deltaRow seq d k raw = \<lparr>jrSeq = seq, jrFrom = dFromSerial d, jrTo = dToSerial d, jrSha = k,
     jrSize = length raw\<rparr>"

definition imageRow :: "int \<Rightarrow> u32 \<Rightarrow> sha \<Rightarrow> byte list \<Rightarrow> image_row" where
  "imageRow seq serial k raw = \<lparr>irSeq = seq, irSerial = serial, irSha = k, irSize = length raw\<rparr>"

lemma row_sel [simp]:
  "jrSeq (deltaRow seq d k raw) = seq" "jrSha (deltaRow seq d k raw) = k"
  "jrSize (deltaRow seq d k raw) = length raw"
  "irSeq (imageRow seq s k raw) = seq" "irSha (imageRow seq s k raw) = k"
  "irSize (imageRow seq s k raw) = length raw"
  by (simp_all add: deltaRow_def imageRow_def)

lemma insertJournal_Some:
  assumes "insertJournal env db seq (Some d) = Inr db1"
  obtains raw k db0 where "EncodeDelta (foldTable env) d = Inr raw" "putBlob env db raw = (k, db0)"
    "seq \<notin> jrSeq ` set (dbJournal db)" "db1 = db0\<lparr>dbJournal := deltaRow seq d k raw # dbJournal db\<rparr>"
proof -
  from assms obtain raw where raw: "EncodeDelta (foldTable env) d = Inr raw"
    by (auto simp: insertJournal_def bindE_Inr_iff liftEncode_Inr)
  obtain k db0 where p: "putBlob env db raw = (k, db0)" by fastforce
  show thesis
    using assms raw p putBlob_frame [OF p]
    by (intro that [of raw k db0]) (auto simp: insertJournal_def liftEncode_def bindE_Inr_iff deltaRow_def)
qed

lemma writeImage_Inr:
  assumes "writeImage env db z origin seq serial recs = Inr (db1, z1)"
  obtains raw k db0 where
    "EncodeFull (foldTable env) \<lparr>iOrigin = origin, iSerial = serial, iRecords = recs\<rparr> = Inr raw"
    "putBlob env db raw = (k, db0)" "seq \<notin> irSeq ` set (dbImages db)" "z1 = z\<lparr>zImageSeq := seq\<rparr>"
    "db1 = db0\<lparr>dbImages := imageRow seq serial k raw # filter (\<lambda>i. seq \<le> irSeq i) (dbImages db)\<rparr>"
proof -
  from assms obtain raw where
    raw: "EncodeFull (foldTable env) \<lparr>iOrigin = origin, iSerial = serial, iRecords = recs\<rparr> = Inr raw"
    by (auto simp: writeImage_def bindE_Inr_iff liftEncode_Inr)
  obtain k db0 where p: "putBlob env db raw = (k, db0)" by fastforce
  show thesis
    using assms raw p putBlob_frame [OF p]
    by (intro that [of raw k db0])
      (auto simp: writeImage_def liftEncode_def bindE_Inr_iff imageRow_def not_less)
qed

definition prune :: "int \<Rightarrow> int \<Rightarrow> zone_db \<Rightarrow> zone_db" where
  "prune seq imageSeq db = db\<lparr>dbJournal :=
     filter (\<lambda>j. \<not> (jrSeq j \<le> seq - journalKept \<and> jrSeq j \<le> imageSeq)) (dbJournal db)\<rparr>"

lemma writeVersion_Inr:
  assumes "writeVersion env db z origin ns od force img = Inr (db', z')"
  obtains db1 due db2 z2 where
    "insertJournal env db (zCurrentSeq z + 1) od = Inr db1" "needImage db1 z (zCurrentSeq z + 1) = Inr due"
    "if due \<or> force
     then \<exists>recs. img = Inr recs \<and> writeImage env db1 z origin (zCurrentSeq z + 1) ns recs = Inr (db2, z2)
     else db2 = db1 \<and> z2 = z"
    "db' = prune (zCurrentSeq z + 1) (zImageSeq z2) db2"
    "z' = z2\<lparr>zSerial := ns, zCurrentSeq := zCurrentSeq z + 1\<rparr>"
proof -
  from assms obtain db1 due where 1: "insertJournal env db (zCurrentSeq z + 1) od = Inr db1"
    "needImage db1 z (zCurrentSeq z + 1) = Inr due"
    by (auto simp: writeVersion_def Let_def bindE_Inr_iff)
  with assms show thesis
    by (cases "due \<or> force") (auto simp: writeVersion_def Let_def bindE_Inr_iff prune_def intro!: that)
qed

lemma readBlob_upd [simp]:
  "readBlob env (db\<lparr>dbJournal := js\<rparr>) k = readBlob env db k"
  "readBlob env (db\<lparr>dbImages := is\<rparr>) k = readBlob env db k"
  "readBlob env (prune seq i db) k = readBlob env db k"
  by (simp_all add: readBlob_def prune_def)

lemma contentAddressed_upd [simp]:
  "contentAddressed env (db\<lparr>dbJournal := js\<rparr>) = contentAddressed env db"
  "contentAddressed env (db\<lparr>dbImages := is\<rparr>) = contentAddressed env db"
  "contentAddressed env (prune seq i db) = contentAddressed env db"
  by (simp_all add: contentAddressed_def prune_def)

lemma loadDeltas_cong:
  "(\<And>k. readBlob env db1 k = readBlob env db k) \<Longrightarrow> loadDeltas env db1 ks m = loadDeltas env db ks m"
  by (induction ks arbitrary: m) (auto simp: bindE_def split: sum.splits prod.splits option.splits)

lemma insertJournal_frame:
  assumes "insertJournal env db seq od = Inr db1"
  shows "dbImages db1 = dbImages db"
    and "contentAddressed env db \<Longrightarrow> contentAddressed env db1"
    and "readBlob env db k = Inr x \<Longrightarrow> readBlob env db1 k = Inr x"
    and "od = None \<Longrightarrow> db1 = db"
    and "jrSeq ` set (dbJournal db1) \<subseteq> insert seq (jrSeq ` set (dbJournal db))"
    and "distinct (map jrSeq (dbJournal db)) \<Longrightarrow> distinct (map jrSeq (dbJournal db1))"
proof -
  have "dbImages db1 = dbImages db \<and> (contentAddressed env db \<longrightarrow> contentAddressed env db1) \<and>
    (readBlob env db k = Inr x \<longrightarrow> readBlob env db1 k = Inr x) \<and> (od = None \<longrightarrow> db1 = db) \<and>
    jrSeq ` set (dbJournal db1) \<subseteq> insert seq (jrSeq ` set (dbJournal db)) \<and>
    (distinct (map jrSeq (dbJournal db)) \<longrightarrow> distinct (map jrSeq (dbJournal db1)))"
  proof (cases od)
    case None
    then show ?thesis using assms by (auto simp: insertJournal_def)
  next
    case (Some d)
    with assms obtain raw k' db0 where p: "putBlob env db raw = (k', db0)"
      "seq \<notin> jrSeq ` set (dbJournal db)" "db1 = db0\<lparr>dbJournal := deltaRow seq d k' raw # dbJournal db\<rparr>"
      by (auto elim: insertJournal_Some)
    then show ?thesis
      using putBlob_frame [OF p(1)] putBlob_content [OF p(1)] putBlob_keep [OF p(1)] Some by auto
  qed
  then show "dbImages db1 = dbImages db"
    and "contentAddressed env db \<Longrightarrow> contentAddressed env db1"
    and "readBlob env db k = Inr x \<Longrightarrow> readBlob env db1 k = Inr x"
    and "od = None \<Longrightarrow> db1 = db"
    and "jrSeq ` set (dbJournal db1) \<subseteq> insert seq (jrSeq ` set (dbJournal db))"
    and "distinct (map jrSeq (dbJournal db)) \<Longrightarrow> distinct (map jrSeq (dbJournal db1))"
    by blast+
qed

lemma writeVersion_inv:
  assumes inv: "storeInv env db z" and w: "writeVersion env db z origin ns od force img = Inr (db', z')"
  shows "storeInv env db' z' \<and> zCurrentSeq z' = zCurrentSeq z + 1 \<and> zSerial z' = ns"
proof -
  let ?seq = "zCurrentSeq z + 1"
  from w obtain db1 due db2 z2 where i: "insertJournal env db ?seq od = Inr db1"
    and n: "needImage db1 z ?seq = Inr due"
    and im: "if due \<or> force
       then \<exists>recs. img = Inr recs \<and> writeImage env db1 z origin ?seq ns recs = Inr (db2, z2)
       else db2 = db1 \<and> z2 = z"
    and e: "db' = prune ?seq (zImageSeq z2) db2" "z' = z2\<lparr>zSerial := ns, zCurrentSeq := ?seq\<rparr>"
    by (rule writeVersion_Inr)
  note f = insertJournal_frame [OF i]
  have j1: "\<forall>j \<in> set (dbJournal db1). jrSeq j \<le> ?seq" using inv f(5) by (force simp: storeInv_def)
  have d1: "distinct (map jrSeq (dbJournal db1))" using inv f(6) by (simp add: storeInv_def)
  have c1: "contentAddressed env db1" using inv f(2) by (simp add: storeInv_def)
  have "contentAddressed env db2 \<and> dbJournal db2 = dbJournal db1 \<and> 0 < zImageSeq z2 \<and> zImageSeq z2 \<le> ?seq \<and>
      (\<forall>i \<in> set (dbImages db2). irSeq i \<le> ?seq) \<and> distinct (map irSeq (dbImages db2))"
  proof (cases "due \<or> force")
    case True
    with im obtain recs raw k db0 where p: "putBlob env db1 raw = (k, db0)"
      "?seq \<notin> irSeq ` set (dbImages db1)" "z2 = z\<lparr>zImageSeq := ?seq\<rparr>"
      "db2 = db0\<lparr>dbImages := imageRow ?seq ns k raw # filter (\<lambda>i. ?seq \<le> irSeq i) (dbImages db1)\<rparr>"
      by (auto elim: writeImage_Inr)
    then show ?thesis
      using putBlob_frame [OF p(1)] putBlob_content [OF p(1) c1] inv f(1)
      by (auto simp: storeInv_def distinct_map_filter)
  next
    case False
    then have "db2 = db1" "z2 = z" "\<not> due" using im by auto
    then show ?thesis
      using inv c1 f(1) n by (auto simp: storeInv_def needImage_def split: if_splits)
  qed
  then show ?thesis
    using e j1 d1 by (auto simp: storeInv_def prune_def distinct_map_filter)
qed

section \<open>What a version loads as\<close>

lemma insort_key_last: "\<forall>y \<in> set xs. f y < f x \<Longrightarrow> insort_key f x xs = xs @ [x]"
  by (induction xs) (auto simp: not_le)

lemma EncodeFull_fits:
  assumes "EncodeFull orbit img = Inr raw" "length raw \<le> maxServedSize"
  shows "image_fits img"
proof -
  have "minRecord * length (SortRecords (iRecords img)) \<le> length (appendRecords (SortRecords (iRecords img)))"
    using assms(1) by (intro length_appendRecords_ge [of _ orbit "iOrigin img"]) (simp add: EncodeFull_Inr)
  with assms show ?thesis
    by (simp add: EncodeFull_Inr image_fits_def minRecord_def maxServedSize_def)
qed

lemma EncodeDelta_fits:
  assumes "EncodeDelta orbit d = Inr raw" "length raw \<le> maxServedSize"
  shows "delta_fits d"
proof -
  have chk: "\<forall>rec \<in> set (sortTail (dDeleted d)). checkRecord orbit rec (dOrigin d) = Inr ()"
    "\<forall>rec \<in> set (sortTail (dAdded d)). checkRecord orbit rec (dOrigin d) = Inr ()"
    and raw: "raw = headerBytes (deltaHeader (normDelta d)) @ appendRecords (sortTail (dDeleted d))
      @ appendRecords (sortTail (dAdded d))"
    using assms(1) by (simp_all add: EncodeDelta_Inr)
  from length_appendRecords_ge [OF chk(1)] length_appendRecords_ge [OF chk(2)] raw assms(2)
  show ?thesis by (simp add: delta_fits_def minRecord_def maxServedSize_def)
qed

text \<open>A version with an image loads as the image.\<close>

lemma load_after_image:
  assumes env: "env_ok env" and c: "contentAddressed env db" and w: "writeImage env db z origin seq ns recs = Inr (db2, z2)"
    and imgs: "\<forall>i \<in> set (dbImages db). irSeq i < seq"
    and size: "\<forall>i \<in> set (dbImages db2). irSize i \<le> maxServedSize"
  shows "\<exists>m. loadMap env (prune seq' (zImageSeq z2) db2) (z2\<lparr>zSerial := ns, zCurrentSeq := seq\<rparr>) = Inr m \<and>
    set m = set recs"
proof -
  let ?img = "\<lparr>iOrigin = origin, iSerial = ns, iRecords = recs\<rparr>"
  from w obtain raw k db0 where raw: "EncodeFull (foldTable env) ?img = Inr raw"
    and p: "putBlob env db raw = (k, db0)" and z2: "z2 = z\<lparr>zImageSeq := seq\<rparr>"
    and db2: "db2 = db0\<lparr>dbImages := imageRow seq ns k raw # filter (\<lambda>i. seq \<le> irSeq i) (dbImages db)\<rparr>"
    by (rule writeImage_Inr)
  have len: "length raw \<le> maxServedSize" using size db2 by simp
  have rd: "readBlob env db2 k = Inr raw" using putBlob_read [OF env c p len] db2 by simp
  have dec: "Decode (foldTable env) raw = Inr (KindFull, Some (normImage ?img), None)"
    using nzf_full.decode_encode [OF raw EncodeFull_fits [OF raw len]] by (simp add: decodeImage_eq)
  have valid: "allValid recs"
    using raw by (auto simp: EncodeFull_Inr allValid_iff intro: checkRecord_validOwner)
  have "allValid (SortRecords recs)" using valid by (simp add: allValid_iff)
  then have "set (foldl map_put [] (SortRecords recs)) = set recs" by (simp add: foldl_put_set)
  moreover have "filter (\<lambda>i. seq \<le> irSeq i) (dbImages db) = []" using imgs by (auto simp: filter_empty_conv)
  moreover have "journalSince (prune seq' (zImageSeq z2) db2) seq seq = []"
    by (auto simp: journalSince_def filter_empty_conv)
  ultimately show ?thesis
    using rd dec z2 db2 by (auto simp: loadMap_def normImage_def liftDecode_def prune_def readBlob_def)
qed

text \<open>A version without an image loads as the previous one with its delta applied.\<close>

lemma load_after_delta:
  assumes env: "env_ok env" and inv: "storeInv env db z" and m: "loadMap env db z = Inr m"
    and i: "insertJournal env db seq (Some d) = Inr db1" and seq: "seq = zCurrentSeq z + 1"
    and size: "sizesOk (prune seq (zImageSeq z) db1)"
  shows "\<exists>m'. loadMap env (prune seq (zImageSeq z) db1) (z\<lparr>zSerial := ns, zCurrentSeq := seq\<rparr>) = Inr m' \<and>
    set m' = (set m - set (dDeleted d)) \<union> set (dAdded d)"
proof -
  let ?db = "prune seq (zImageSeq z) db1"
  from i obtain raw k db0 where raw: "EncodeDelta (foldTable env) d = Inr raw"
    and p: "putBlob env db raw = (k, db0)" and db1: "db1 = db0\<lparr>dbJournal := deltaRow seq d k raw # dbJournal db\<rparr>"
    by (rule insertJournal_Some)
  have c: "contentAddressed env db" and bounds: "0 \<le> zImageSeq z" "zImageSeq z \<le> zCurrentSeq z"
    and old: "\<forall>j \<in> set (dbJournal db). jrSeq j \<le> zCurrentSeq z" using inv by (auto simp: storeInv_def)
  have "deltaRow seq d k raw \<in> set (dbJournal ?db)"
    by (simp add: db1 prune_def journalKept_def)
  then have len: "length raw \<le> maxServedSize" using size by (force simp: sizesOk_def)
  have rd: "readBlob env ?db k = Inr raw" using putBlob_read [OF env c p len] db1 by simp
  have dec: "Decode (foldTable env) raw = Inr (KindDelta, None, Some (normDelta d))"
    using nzf_delta.decode_encode [OF raw EncodeDelta_fits [OF raw len]] by (simp add: decodeDelta_eq)
  have keep: "readBlob env db k' = Inr x \<Longrightarrow> readBlob env ?db k' = Inr x" for k' x
    using insertJournal_frame(3) [OF i] by simp
  have js: "journalSince ?db (zImageSeq z) seq =
      journalSince db (zImageSeq z) (zCurrentSeq z) @ [deltaRow seq d k raw]"
  proof -
    let ?new = "deltaRow seq d k raw"
    let ?old = "filter (\<lambda>j. zImageSeq z < jrSeq j \<and> jrSeq j \<le> zCurrentSeq z) (dbJournal db)"
    have f: "filter (\<lambda>j. zImageSeq z < jrSeq j \<and> jrSeq j \<le> seq) (dbJournal ?db) = ?new # ?old"
      using bounds old seq by (auto simp: db1 prune_def journalKept_def intro!: filter_cong)
    have "insort_key jrSeq ?new (sort_key jrSeq ?old) = sort_key jrSeq ?old @ [?new]"
      using seq by (intro insort_key_last) auto
    then show ?thesis by (simp add: journalSince_def f)
  qed
  from m obtain i0 rows raw0 kd img od where i0: "filter (\<lambda>i. irSeq i = zImageSeq z) (dbImages db) = i0 # rows"
    and r0: "readBlob env db (irSha i0) = Inr raw0"
    and d0: "Decode (foldTable env) raw0 = Inr (kd, Some img, od)"
    and l0: "loadDeltas env db (map jrSha (journalSince db (zImageSeq z) (zCurrentSeq z)))
      (foldl map_put [] (iRecords img)) = Inr m"
    by (auto simp: loadMap_def bindE_Inr_iff liftDecode_Inr split: list.splits option.splits)
  have "loadDeltas env ?db (map jrSha (journalSince ?db (zImageSeq z) seq)) (foldl map_put [] (iRecords img)) =
      Inr (applyDelta m (normDelta d))"
    using loadDeltas_keep [OF keep l0] rd dec by (simp add: js loadDeltas_append liftDecode_def)
  moreover have "dbImages ?db = dbImages db" using putBlob_frame [OF p] by (simp add: db1 prune_def)
  ultimately have "loadMap env ?db (z\<lparr>zSerial := ns, zCurrentSeq := seq\<rparr>) = Inr (applyDelta m (normDelta d))"
    using i0 keep [OF r0] d0 by (simp add: loadMap_def liftDecode_def)
  moreover have "allValid (dDeleted d) \<and> allValid (dAdded d)"
    using raw by (auto simp: EncodeDelta_Inr allValid_iff intro: checkRecord_validOwner)
  then have "allValid (sortTail (dDeleted d)) \<and> allValid (sortTail (dAdded d))"
    by (simp add: allValid_iff)
  then have "set (applyDelta m (normDelta d)) = (set m - set (dDeleted d)) \<union> set (dAdded d)"
    using loadMap_valid [OF m] by (simp add: applyDelta_set normDelta_def)
  ultimately show ?thesis by blast
qed

text \<open>Both cases of \<open>writeVersion\<close>: with the image or through the delta.\<close>

lemma writeVersion_loads:
  assumes env: "env_ok env" and inv: "storeInv env db z"
    and w: "writeVersion env db z origin ns od force img = Inr (db', z')" and size: "sizesOk db'"
    and delta: "zCurrentSeq z > 0 \<Longrightarrow> \<not> force \<Longrightarrow>
      \<exists>m d. loadMap env db z = Inr m \<and> od = Some d \<and> (set m - set (dDeleted d)) \<union> set (dAdded d) = target"
    and full: "\<And>recs. img = Inr recs \<Longrightarrow> set recs = target"
  shows "\<exists>served. loadServed env db' z' = Inr served \<and> set served = target \<and> distinct served"
proof -
  let ?seq = "zCurrentSeq z + 1"
  from w obtain db1 due db2 z2 where i: "insertJournal env db ?seq od = Inr db1"
    and n: "needImage db1 z ?seq = Inr due"
    and im: "if due \<or> force
       then \<exists>recs. img = Inr recs \<and> writeImage env db1 z origin ?seq ns recs = Inr (db2, z2)
       else db2 = db1 \<and> z2 = z"
    and e: "db' = prune ?seq (zImageSeq z2) db2" "z' = z2\<lparr>zSerial := ns, zCurrentSeq := ?seq\<rparr>"
    by (rule writeVersion_Inr)
  note f = insertJournal_frame [OF i]
  have c: "contentAddressed env db1" using inv f(2) by (simp add: storeInv_def)
  have "\<exists>m. loadMap env db' z' = Inr m \<and> set m = target"
  proof (cases "due \<or> force")
    case True
    with im obtain recs where r: "img = Inr recs"
      and wi: "writeImage env db1 z origin ?seq ns recs = Inr (db2, z2)" by auto
    have "\<forall>i \<in> set (dbImages db1). irSeq i < ?seq" using inv f(1) by (auto simp: storeInv_def)
    moreover have "\<forall>i \<in> set (dbImages db2). irSize i \<le> maxServedSize"
      using size e(1) by (simp add: sizesOk_def prune_def)
    ultimately show ?thesis using load_after_image [OF env c wi] full [OF r] e by simp
  next
    case False
    then have z: "db2 = db1" "z2 = z" "\<not> due" "\<not> force" using im by auto
    then have "zImageSeq z \<noteq> 0" using n by (auto simp: needImage_def)
    then have "zCurrentSeq z > 0" using inv by (auto simp: storeInv_def)
    from delta [OF this z(4)] obtain m d where d: "loadMap env db z = Inr m" "od = Some d"
      "(set m - set (dDeleted d)) \<union> set (dAdded d) = target" by blast
    show ?thesis
      using load_after_delta [OF env inv d(1) i [unfolded d(2)] refl, of ns] size e z d(3) by simp
  qed
  then obtain m where m: "loadMap env db' z' = Inr m" "set m = target" by blast
  have "mset (SortRecords (mapOrder env m)) = mset m"
    using env by (simp add: SortRecords_mset env_ok_def)
  then have "set (SortRecords (mapOrder env m)) = target" "distinct (SortRecords (mapOrder env m))"
    using m(2) loadMap_valid [OF m(1)] by (auto dest: mset_eq_setD mset_eq_imp_distinct_iff)
  then show ?thesis using m(1) by (simp add: loadServed_loadMap)
qed

section \<open>Rebuild\<close>

text \<open>What \<open>Rebuild\<close> relies on of the RR-level calls: a packed record has a well-formed owner, and
  the steps after the diff (serial, re-signing, digest) touch SOA data only.\<close>

definition owners_ok :: "'rr build_env \<Rightarrow> bool" where
  "owners_ok env \<longleftrightarrow> (\<forall>rr r. fromRR env rr = Inr r \<longrightarrow> validOwner r)"

definition rr_ok :: "'rr build_env \<Rightarrow> zone_row \<Rightarrow> bool" where
  "rr_ok env z \<longleftrightarrow> owners_ok env \<and>
     (\<forall>ns xs ys a b. rebuildFinal env z ns xs = Inr ys \<longrightarrow> toRecords env xs = Inr a \<longrightarrow>
       toRecords env ys = Inr b \<longrightarrow> {r \<in> set a. \<not> isSOAData r} = {r \<in> set b. \<not> isSOAData r})"

lemma rr_ok_owners: "rr_ok env z \<Longrightarrow> owners_ok env"
  by (simp add: rr_ok_def)

lemma toRecords_valid: "owners_ok env \<Longrightarrow> toRecords env rrs = Inr a \<Longrightarrow> allValid a"
  by (induction rrs arbitrary: a) (auto simp: toRecords_def owners_ok_def bindE_Inr_iff)

lemma rebuildDelta_Inr:
  assumes "rebuildDelta z origin ns previous deleted recs added = Inr (od, force)" "zCurrentSeq z > 0"
    "\<not> force"
  shows "od = Some \<lparr>dOrigin = origin, dFromSerial = zSerial z, dToSerial = ns,
    dDeleted = soaWithSigs previous @ deleted, dAdded = soaWithSigs recs @ added\<rparr>"
  using assms by (auto simp: rebuildDelta_def Let_def bindE_Inr_iff split: if_splits list.splits)

lemma rebuildAll_True:
  assumes r: "rebuildAll env db z opts = Inr (True, db', z')"
  obtains desired previous a deleted added ns final recs origin od force where
    "rebuildDesired env z = Inr desired"
    "(if zCurrentSeq z > 0 then loadServed env db z else Inr []) = Inr previous"
    "toRecords env desired = Inr a" "diffIgnoringSOA previous a = (deleted, added)"
    "nextSerial z (opSerial opts) = Inr ns"
    "rebuildFinal env z ns desired = Inr final" "toRecords env final = Inr recs"
    "rebuildDelta z origin ns previous deleted recs added = Inr (od, force)"
    "writeVersion env db z origin ns od force (Inr recs) = Inr (db', z')"
proof -
  from r obtain desired previous a where
      des: "rebuildDesired env z = Inr desired"
    and prev: "(if zCurrentSeq z > 0 then loadServed env db z else Inr []) = Inr previous"
    and a: "toRecords env desired = Inr a"
    unfolding rebuildAll_def bindE_Inr_iff by blast
  obtain deleted added where diff: "diffIgnoringSOA previous a = (deleted, added)" by fastforce
  from r [unfolded rebuildAll_def des prev a bindE_simps diff Let_def case_prod_conv]
  obtain ns final recs origin od force where
      ns: "nextSerial z (opSerial opts) = Inr ns" and fin: "rebuildFinal env z ns desired = Inr final" and recs: "toRecords env final = Inr recs"
    and del: "rebuildDelta z origin ns previous deleted recs added = Inr (od, force)"
    and w: "writeVersion env db z origin ns od force (Inr recs) = Inr (db', z')"
    by (auto simp: bindE_Inr_iff split: if_splits)
  show thesis by (rule that) (fact des prev a diff ns fin recs del w)+
qed

lemma rebuildAll_loads:
  assumes env: "env_ok env" and rr: "rr_ok env z" and inv: "storeInv env db z"
    and r: "rebuildAll env db z opts = Inr (True, db', z')" and size: "sizesOk db'"
  shows "\<exists>desired final recs served. rebuildDesired env z = Inr desired \<and>
    rebuildFinal env z (zSerial z') desired = Inr final \<and> toRecords env final = Inr recs \<and>
    loadServed env db' z' = Inr served \<and> set served = set recs \<and> distinct served"
proof -
  from r obtain desired previous a deleted added ns final recs origin od force where
      des: "rebuildDesired env z = Inr desired"
    and prev: "(if zCurrentSeq z > 0 then loadServed env db z else Inr []) = Inr previous"
    and a: "toRecords env desired = Inr a" and diff: "diffIgnoringSOA previous a = (deleted, added)"
    and fin: "rebuildFinal env z ns desired = Inr final" and recs: "toRecords env final = Inr recs"
    and del: "rebuildDelta z origin ns previous deleted recs added = Inr (od, force)"
    and w: "writeVersion env db z origin ns od force (Inr recs) = Inr (db', z')"
    by (rule rebuildAll_True)
  have va: "allValid a" "allValid recs" using toRecords_valid [OF rr_ok_owners [OF rr]] a recs by blast+
  have same: "{r \<in> set a. \<not> isSOAData r} = {r \<in> set recs. \<not> isSOAData r}"
    using rr fin a recs by (auto simp: rr_ok_def)
  have "\<exists>served. loadServed env db' z' = Inr served \<and> set served = set recs \<and> distinct served"
  proof (rule writeVersion_loads [OF env inv w size])
    assume pos: "zCurrentSeq z > 0" and nf: "\<not> force"
    with prev obtain m where m: "loadMap env db z = Inr m" "set previous = set m"
      using loadServed_set [OF env, of db z previous] by auto
    then have vp: "allValid previous" using loadMap_valid [OF m(1)] by (simp add: allValid_iff)
    note sets = diffIgnoringSOA_set [OF vp va(1) diff]
    note od = rebuildDelta_Inr [OF del pos nf]
    have "(set m - set (soaWithSigs previous @ deleted)) \<union> set (soaWithSigs recs @ added) = set recs"
      using sets same m(2) by (auto simp: soaWithSigs_set)
    then show "\<exists>m d. loadMap env db z = Inr m \<and> od = Some d \<and>
        (set m - set (dDeleted d)) \<union> set (dAdded d) = set recs"
      using m(1) od by auto
  qed simp
  moreover have "zSerial z' = ns" using writeVersion_inv [OF inv w] by simp
  ultimately show ?thesis using des fin recs by auto
qed

lemma rebuildEdit_True:
  assumes r: "rebuildEdit env db z ed serial = Inr (True, db', z')"
  obtains beforeRecs afterRecs deleted added ns served0 oldSOA newSOA origin where
    "toRecords env (edBefore ed) = Inr beforeRecs" "toRecords env (edAfter ed) = Inr afterRecs"
    "diffIgnoringSOA beforeRecs afterRecs = (deleted, added)" "nextSerial z serial = Inr ns"
    "fromRR env (soaRR env z) = Inr oldSOA" "fromRR env (setSerialRR env ns (soaRR env z)) = Inr newSOA"
    "writeVersion env db z origin ns
      (Some \<lparr>dOrigin = origin, dFromSerial = zSerial z, dToSerial = ns, dDeleted = oldSOA # deleted,
        dAdded = newSOA # added\<rparr>) (served0 \<noteq> zSerial z)
      (bindE (desiredRRs env z) (\<lambda>d. toRecords env (setSOASerial env d ns))) = Inr (db', z')"
proof -
  from r obtain b a where b: "toRecords env (edBefore ed) = Inr b" and a: "toRecords env (edAfter ed) = Inr a"
    unfolding rebuildEdit_def bindE_Inr_iff by blast
  obtain deleted added where diff: "diffIgnoringSOA b a = (deleted, added)" by fastforce
  from r [unfolded rebuildEdit_def b a bindE_simps diff Let_def case_prod_conv] show thesis
    by (auto simp: bindE_Inr_iff split: if_splits intro: that [OF b a diff])
qed

lemma rebuildEdit_loads:
  assumes env: "env_ok env" and rr: "owners_ok env" and inv: "storeInv env db z"
    and prev: "loadServed env db z = Inr previous"
    and soa: "fromRR env (soaRR env z) = Inr oldSOA" "{r \<in> set previous. isSOAData r} = {oldSOA}"
    and before: "toRecords env (edBefore ed) = Inr before" "set before \<subseteq> set previous - {oldSOA}"
    and after: "toRecords env (edAfter ed) = Inr after" "\<forall>r \<in> set after. \<not> isSOAData r"
    and stored: "\<And>ns. bindE (desiredRRs env z) (\<lambda>d. toRecords env (setSOASerial env d ns)) =
        bindE (fromRR env (setSerialRR env ns (soaRR env z))) (\<lambda>soa. Inr (soa # recs))"
      "set recs = (set previous - {oldSOA} - set before) \<union> set after"
    and r: "rebuildEdit env db z ed serial = Inr (True, db', z')" and size: "sizesOk db'"
  shows "\<exists>newSOA served. fromRR env (setSerialRR env (zSerial z') (soaRR env z)) = Inr newSOA \<and>
    loadServed env db' z' = Inr served \<and> set served = insert newSOA (set recs) \<and> distinct served"
proof -
  from r obtain deleted added ns served0 newSOA origin where
      diff: "diffIgnoringSOA before after = (deleted, added)"
    and new: "fromRR env (setSerialRR env ns (soaRR env z)) = Inr newSOA"
    and w: "writeVersion env db z origin ns
      (Some \<lparr>dOrigin = origin, dFromSerial = zSerial z, dToSerial = ns, dDeleted = oldSOA # deleted,
        dAdded = newSOA # added\<rparr>) (served0 \<noteq> zSerial z)
      (bindE (desiredRRs env z) (\<lambda>d. toRecords env (setSOASerial env d ns))) = Inr (db', z')"
    by (rule rebuildEdit_True) (use before(1) after(1) soa(1) in auto)
  obtain m where m: "loadMap env db z = Inr m" "set previous = set m"
    using prev loadServed_set [OF env, of db z previous] by auto
  have vb: "allValid before" "allValid after" using toRecords_valid [OF rr] before after by blast+
  note sets = diffIgnoringSOA_set [OF vb diff]
  have nb: "\<forall>r \<in> set before. \<not> isSOAData r" using before(2) soa(2) by blast
  have "\<exists>served. loadServed env db' z' = Inr served \<and> set served = insert newSOA (set recs) \<and> distinct served"
  proof (rule writeVersion_loads [OF env inv w size])
    have "(set m - set (oldSOA # deleted)) \<union> set (newSOA # added) = insert newSOA (set recs)"
      using sets m(2) stored(2) nb before(2) after(2) soa(2) by auto
    then show "\<exists>m d. loadMap env db z = Inr m \<and>
        Some \<lparr>dOrigin = origin, dFromSerial = zSerial z, dToSerial = ns, dDeleted = oldSOA # deleted,
          dAdded = newSOA # added\<rparr> = Some d \<and>
        (set m - set (dDeleted d)) \<union> set (dAdded d) = insert newSOA (set recs)"
      using m(1) by auto
  qed (use stored(1) new in auto)
  moreover have "zSerial z' = ns" using writeVersion_inv [OF inv w] by simp
  ultimately show ?thesis using new by auto
qed

end
