(* ===== verification/Zone_Props.thy ===== *)
theory Zone_Props
  imports Zone_Store
begin

text \<open>
  The properties of the version store (\<open>zone/build.go\<close>) on a concrete environment, and the
  serials of successive versions. The example environment works on records directly: its RR type
  is the record type, compression and hashing are the identity, and a map is visited in order.
\<close>

section \<open>An example zone\<close>

definition exSetSerial :: "u32 \<Rightarrow> nzf_record \<Rightarrow> nzf_record" where
  "exSetSerial s r = (if rType r = typeSOA then exSOA s else r)"

definition exEnv :: "nzf_record list \<Rightarrow> nzf_record build_env" where
  "exEnv stored = \<lparr>
     fromRR = (\<lambda>r. if validName (rOwner r) = Inr () then Inr r else Inl (External 2)),
     soaRR = (\<lambda>z. exSOA (zSerial z)), setSerialRR = exSetSerial, storedRRs = Inr stored,
     zmdPlaceholder = (\<lambda>_. exA), zmdApply = (\<lambda>_ rrs. Inr rrs), signer = None,
     wireName = (\<lambda>_. Inr [2, 97, 98, 0]), foldTable = id, zstd = id, unzstd = Inr, sha256 = id,
     mapOrder = id\<rparr>"

text \<open>The zone after its first version (the SOA at serial 7, stored as an image), and after an
  address record was added (stored as a delta to serial 8).\<close>

definition exZone1 :: zone_row where
  "exZone1 = \<lparr>zName = ''ab.'', zKind = ''primary'', zSerial = 7,
     zSOA = \<lparr>soaMName = ''.'', soaRName = ''.'', soaRefresh = 0, soaRetry = 0, soaExpire = 0,
       soaMinimum = 0, soaTTL = 300\<rparr>,
     zCurrentSeq = 1, zImageSeq = 1, zDNSSEC = False, zZonemdGenerate = False\<rparr>"

definition exRaw1 :: "byte list" where
  "exRaw1 = [78, 90, 70, 49, 1, 0, 4, 2, 97, 98, 0, 0, 0, 0, 7, 0, 0, 0, 0, 0, 0, 0, 1, 0, 0, 0, 0,
     4, 2, 97, 66, 0, 0, 6, 0, 1, 0, 0, 1, 44, 0, 22, 0, 0, 0, 0, 0, 7,
     0, 0, 0, 0, 0, 0, 0, 0, 0, 0, 0, 0, 0, 0, 0, 0]"

definition exRaw2 :: "byte list" where
  "exRaw2 = [78, 90, 70, 49, 2, 0, 4, 2, 97, 98, 0, 0, 0, 0, 8, 0, 0, 0, 7, 0, 0, 0, 1, 0, 0, 0, 2,
     4, 2, 97, 66, 0, 0, 6, 0, 1, 0, 0, 1, 44, 0, 22, 0, 0, 0, 0, 0, 7,
     0, 0, 0, 0, 0, 0, 0, 0, 0, 0, 0, 0, 0, 0, 0, 0,
     4, 2, 97, 66, 0, 0, 6, 0, 1, 0, 0, 1, 44, 0, 22, 0, 0, 0, 0, 0, 8,
     0, 0, 0, 0, 0, 0, 0, 0, 0, 0, 0, 0, 0, 0, 0, 0,
     6, 1, 119, 2, 97, 98, 0, 0, 1, 0, 1, 0, 0, 0, 60, 0, 4, 10, 0, 0, 1]"

definition exDB1 :: zone_db where
  "exDB1 = \<lparr>dbImages = [\<lparr>irSeq = 1, irSerial = 7, irSha = exRaw1, irSize = 64\<rparr>], dbJournal = [],
     dbBlobs = [(exRaw1, exRaw1)]\<rparr>"

definition exZone2 :: zone_row where
  "exZone2 = exZone1\<lparr>zSerial := 8, zCurrentSeq := 2\<rparr>"

definition exDB2 :: zone_db where
  "exDB2 = \<lparr>dbImages = dbImages exDB1,
     dbJournal = [\<lparr>jrSeq = 2, jrFrom = 7, jrTo = 8, jrSha = exRaw2, jrSize = 122\<rparr>],
     dbBlobs = [(exRaw2, exRaw2), (exRaw1, exRaw1)]\<rparr>"

definition noOpts :: "nzf_record rebuild_options" where
  "noOpts = \<lparr>opEdit = None, opSerial = None, opForce = False\<rparr>"

lemma exEnv_ok: "env_ok (exEnv stored)"
  by (simp add: env_ok_def exEnv_def)

lemma exSOA_valid: "validOwner (exSOA s)"
proof -
  have "validName [2, 97, 66, 0] = Inr ()" by code_simp
  then show ?thesis by (simp add: validOwner_def exSOA_def)
qed

lemma exEnv_toRecords: "toRecords (exEnv stored) rrs = Inr a \<longleftrightarrow> a = rrs \<and> allValid rrs"
  by (induction rrs arbitrary: a) (auto simp: toRecords_def exEnv_def bindE_Inr_iff validOwner_def)

lemma exEnv_rr_ok: "\<not> zDNSSEC z \<Longrightarrow> \<not> zZonemdGenerate z \<Longrightarrow> rr_ok (exEnv stored) z"
  unfolding rr_ok_def owners_ok_def
proof (intro conjI allI impI)
  fix rr r assume "fromRR (exEnv stored) rr = Inr r"
  then show "validOwner r" by (simp add: exEnv_def validOwner_def split: if_splits)
next
  fix ns xs ys a b
  assume z: "\<not> zDNSSEC z" "\<not> zZonemdGenerate z"
    and f: "rebuildFinal (exEnv stored) z ns xs = Inr ys" and a: "toRecords (exEnv stored) xs = Inr a"
    and b: "toRecords (exEnv stored) ys = Inr b"
  have "ys = map (exSetSerial ns) xs"
    using f z by (simp add: rebuildFinal_def whenSigned_def generateZonemd_def setSOASerial_def exEnv_def)
  then show "{r \<in> set a. \<not> isSOAData r} = {r \<in> set b. \<not> isSOAData r}"
    using a b by (force simp: exEnv_toRecords exSetSerial_def isSOAData_def exSOA_def typeSOA_def)
qed

lemma exInv1: "storeInv (exEnv stored) exDB1 exZone1"
  by (simp add: storeInv_def contentAddressed_def exDB1_def exZone1_def exEnv_def)

lemma exRebuild2: "Rebuild (exEnv [exA]) exDB1 exZone1 noOpts = Inr (True, exDB2, exZone2)"
  by code_simp

lemma exRebuild1: "Rebuild (exEnv []) exDB1 exZone1 noOpts = Inr (False, exDB1, exZone1)"
  by code_simp

section \<open>Properties\<close>





text \<open>C28. Every new version of a zone that is not a secondary has a greater serial in the order of
  RFC 1982 than the version it replaces, and the next sequence number.\<close>

theorem rebuild_serial_increases:
  assumes "storeInv env db z" "Rebuild env db z opts = Inr (True, db', z')" "zKind z \<noteq> ''secondary''"
    "zCurrentSeq z > 0"
  shows "SerialLess (zSerial z) (zSerial z') \<and> zCurrentSeq z' = zCurrentSeq z + 1"
proof -
  have next_less: "SerialLess (zSerial z) ns" if "nextSerial z s = Inr ns" for s ns
    using that assms(3,4) SerialNext_less by (auto simp: nextSerial_def Let_def split: option.splits if_splits)
  have "\<exists>ns od origin force img. nextSerial z (opSerial opts) = Inr ns \<and>
      writeVersion env db z origin ns od force img = Inr (db', z')"
  proof (cases "rebuildAll env db z opts = Inr (True, db', z')")
    case True
    then show ?thesis by (rule rebuildAll_True) blast
  next
    case False
    with assms(2) obtain ed where "rebuildEdit env db z ed (opSerial opts) = Inr (True, db', z')"
      by (auto simp: Rebuild_def split: option.splits if_splits)
    then show ?thesis by (rule rebuildEdit_True) blast
  qed
  then obtain ns od origin force img where n: "nextSerial z (opSerial opts) = Inr ns"
    and w: "writeVersion env db z origin ns od force img = Inr (db', z')" by blast
  show ?thesis using next_less [OF n] writeVersion_inv [OF assms(1) w] by simp
qed

theorem rebuild_serial_increases_witness: "SerialLess 7 8 \<and> zCurrentSeq exZone2 = 2"
  using rebuild_serial_increases [OF exInv1 exRebuild2]
  by (simp add: exZone1_def exZone2_def)

text \<open>C23. A record edit stored from the edited RRsets alone gives the same served set as a full
  rebuild would: the previous set without the records edited away, with the records edited in and
  the SOA at the new serial. The zone is unsigned, its served SOA is the one of the zone row, and
  the stored records are those of the served set after the edit.\<close>

theorem rebuild_edit_equals_full:
  assumes "env_ok env" "rr_ok env z" "storeInv env db z" "loadServed env db z = Inr previous"
    "fromRR env (soaRR env z) = Inr oldSOA" "{r \<in> set previous. isSOAData r} = {oldSOA}"
    "toRecords env (edBefore ed) = Inr beforeRecs" "set beforeRecs \<subseteq> set previous - {oldSOA}"
    "toRecords env (edAfter ed) = Inr afterRecs" "\<forall>r \<in> set afterRecs. \<not> isSOAData r"
    "\<forall>ns. bindE (desiredRRs env z) (\<lambda>d. toRecords env (setSOASerial env d ns)) =
        bindE (fromRR env (setSerialRR env ns (soaRR env z))) (\<lambda>soa. Inr (soa # recs))"
    "set recs = (set previous - {oldSOA} - set beforeRecs) \<union> set afterRecs"
    "rebuildEdit env db z ed serial = Inr (True, db', z')" "sizesOk db'"
  shows "\<exists>newSOA served. fromRR env (setSerialRR env (zSerial z') (soaRR env z)) = Inr newSOA \<and>
    loadServed env db' z' = Inr served \<and> set served = insert newSOA (set recs) \<and> distinct served"
  by (rule rebuildEdit_loads [OF assms(1) rr_ok_owners [OF assms(2)] assms(3-10) _ assms(12-14)]) (use assms(11) in blast)

lemma exEdit2:
  "rebuildEdit (exEnv [exA]) exDB1 exZone1 \<lparr>edBefore = [], edAfter = [exA]\<rparr> None = Inr (True, exDB2, exZone2)"
  by code_simp

lemma exLoad1: "loadServed (exEnv [exA]) exDB1 exZone1 = Inr [exSOA 7]"
  by code_simp

theorem rebuild_edit_equals_full_witness:
  "\<exists>served. loadServed (exEnv [exA]) exDB2 exZone2 = Inr served \<and> set served = {exSOA 8, exA} \<and> distinct served"
proof -
  have v: "validName (rOwner exA) = Inr ()" "validName [2, 97, 66, 0] = Inr ()" by code_simp+
  have soa: "isSOAData (exSOA 7)" "\<not> isSOAData exA"
    by (simp_all add: isSOAData_def exSOA_def exA_def typeSOA_def TypeZONEMD_def TypeRRSIG_def)
  have a: "rType exA \<noteq> typeSOA" "rOwner (exSOA s) = [2, 97, 66, 0]" "rType (exSOA s) = typeSOA" for s
    by (simp_all add: exA_def exSOA_def typeSOA_def)
  have z: "\<not> zDNSSEC exZone1" "\<not> zZonemdGenerate exZone1" by (simp_all add: exZone1_def)
  have s: "sizesOk exDB2" by (simp add: sizesOk_def exDB2_def exDB1_def maxServedSize_def)
  have "fromRR (exEnv [exA]) (soaRR (exEnv [exA]) exZone1) = Inr (exSOA 7)"
    using v a by (simp add: exEnv_def exZone1_def)
  moreover have "\<forall>ns. bindE (desiredRRs (exEnv [exA]) exZone1)
      (\<lambda>d. toRecords (exEnv [exA]) (setSOASerial (exEnv [exA]) d ns)) =
    bindE (fromRR (exEnv [exA]) (setSerialRR (exEnv [exA]) ns (soaRR (exEnv [exA]) exZone1)))
      (\<lambda>soa. Inr (soa # [exA]))"
    using v a by (simp add: desiredRRs_def toRecords_def setSOASerial_def exEnv_def exSetSerial_def)
  moreover have "toRecords (exEnv [exA]) [exA] = Inr [exA]" "toRecords (exEnv [exA]) [] = Inr []"
    using v by (simp_all add: exEnv_toRecords validOwner_def)
  ultimately have "\<exists>newSOA served. fromRR (exEnv [exA]) (setSerialRR (exEnv [exA]) (zSerial exZone2)
      (soaRR (exEnv [exA]) exZone1)) = Inr newSOA \<and>
    loadServed (exEnv [exA]) exDB2 exZone2 = Inr served \<and> set served = insert newSOA (set [exA]) \<and> distinct served"
    using soa
    by (intro rebuild_edit_equals_full [OF exEnv_ok exEnv_rr_ok [OF z] exInv1 exLoad1 _ _ _ _ _ _ _ _ exEdit2 s,
      where beforeRecs = "[]" and afterRecs = "[exA]" and oldSOA = "exSOA 7"]) auto
  then show ?thesis using v a by (auto simp: exEnv_def exSetSerial_def exZone2_def)
qed

end
