(* ===== verification/Zone_Records.thy ===== *)
theory Zone_Records
  imports Zone_Rules Zone_Props
begin

text \<open>
  The stored records of a zone and the operations that edit them (\<open>zone/service.go\<close>, \<open>zone/validate.go\<close>,
  \<open>nzf/rr.go\<close>): conversion between stored rows, wire records and RRs, the single path \<open>MutateFenced\<close>
  that locks a zone, changes it, rebuilds the served version and publishes, the three record edits
  and \<open>ApplyRecordChanges\<close>. The state is one zone with its rows of \<open>zone_records\<close> and its version
  store; a transaction that fails leaves it unchanged. The DNS library is the record \<open>dns_lib\<close>; what
  publishes the configuration is a parameter. The unique index compares RDATA by its SHA-256, which
  is read as comparing RDATA.
\<close>

section \<open>The DNS library\<close>

text \<open>A packed or parsed value is \<open>None\<close> on error; \<open>dns.NewRR\<close> may also return no record.\<close>

record 'd dns_lib =
  dlNextLabel :: next_label
  dlIsDomainName :: "string \<Rightarrow> bool"
  dlIsFqdn :: "string \<Rightarrow> bool"
  dlFqdn :: "string \<Rightarrow> string"
  dlIsSubDomain :: "string \<Rightarrow> string \<Rightarrow> bool"
  dlCanonicalName :: "string \<Rightarrow> string"
  dlStringToType :: "string \<Rightarrow> u16 option"
  dlTypeToString :: "u16 \<Rightarrow> string"
  dlNewRR :: "string \<Rightarrow> 'd rr option option"
  dlString :: "'d rr \<Rightarrow> string"
  dlPackRR :: "'d rr \<Rightarrow> byte list option"
  dlPackName :: "string \<Rightarrow> byte list option"
  dlUnpackRR :: "byte list \<Rightarrow> 'd rr option"
  dlIsDuplicate :: "'d rr \<Rightarrow> 'd rr \<Rightarrow> bool"

section \<open>Wire records\<close>

definition FromRR :: "'d dns_lib \<Rightarrow> 'd rr \<Rightarrow> nzf_record option" where
  "FromRR d r =
     (case dlPackRR d r of
        None \<Rightarrow> None
      | Some b \<Rightarrow> (case dlPackName d (hName r) of
          None \<Rightarrow> None
        | Some own \<Rightarrow>
            let ol = length own in
            if length b < ol + 10 then None
            else (case (get_u16 (drop ol b), get_u16 (drop (ol + 2) b), get_u32 (drop (ol + 4) b), get_u16 (drop (ol + 8) b)) of
                (Some t, Some c, Some ttl, Some rdlen) \<Rightarrow>
                  if ol + 10 + unat rdlen \<noteq> length b then None
                  else Some \<lparr>rOwner = take ol b, rType = t, rClass = c, rTTL = ttl, rRData = drop (ol + 10) b\<rparr>
              | _ \<Rightarrow> None)))"

definition wireRR :: "nzf_record \<Rightarrow> byte list" where
  "wireRR r = rOwner r @ put_u16 (rType r) @ put_u16 (rClass r) @ put_u32 (rTTL r) @
     put_u16 (of_nat (length (rRData r))) @ rRData r"

definition ToRR :: "'d dns_lib \<Rightarrow> nzf_record \<Rightarrow> 'd rr option" where
  "ToRR d r = (if length (rRData r) > 65535 then None else dlUnpackRR d (wireRR r))"

section \<open>Stored records\<close>

record zrecord =
  zrID :: nat
  zrOwner :: string
  zrType :: u16
  zrTTL :: u32
  zrData :: string
  zrRData :: "byte list"
  zrRev :: int

record hosted =
  hzRow :: zone_row
  hzRevision :: int
  hzUpdateKeys :: "nat list"
  hzProducer :: bool
  hzRecords :: "zrecord list"
  hzStore :: zone_db

datatype service_error =
    ZInvalid string
  | ZRule rule_error
  | ZNotFound
  | ZConflict
  | ZReadOnly
  | ZCatalogManaged
  | ZDatabase
  | ZRecord
  | ZBuild zone_error
  | ZRcode nat
  | ZNoChange

definition ruleE :: "rule_error + 'a \<Rightarrow> service_error + 'a" where
  "ruleE m = (case m of Inl e \<Rightarrow> Inl (ZRule e) | Inr x \<Rightarrow> Inr x)"

definition maxTTL :: u32 where "maxTTL = 2147483647"

definition RDataText :: "'d dns_lib \<Rightarrow> 'd rr \<Rightarrow> string" where
  "RDataText d r =
     (let parts = split_at (CHR 0x09) (dlString d r) in
      if length parts < 5 then [] else join_with (CHR 0x09) (drop 4 parts))"

definition rowKey :: "zrecord \<Rightarrow> string \<times> u16" where
  "rowKey r = (ToLower (zrOwner r), zrType r)"

text \<open>The columns of the unique index.\<close>

definition rowIdent :: "zrecord \<Rightarrow> (string \<times> u16) \<times> byte list" where
  "rowIdent r = (rowKey r, zrRData r)"

definition rowRR :: "'d dns_lib \<Rightarrow> zrecord \<Rightarrow> service_error + 'd rr" where
  "rowRR d r =
     (case dlPackName d (zrOwner r) of
        None \<Rightarrow> Inl ZRecord
      | Some own \<Rightarrow>
          (case ToRR d \<lparr>rOwner = own, rType = zrType r, rClass = 1, rTTL = zrTTL r, rRData = zrRData r\<rparr> of
             None \<Rightarrow> Inl ZRecord | Some rr \<Rightarrow> Inr rr))"

definition queryRRs :: "'d dns_lib \<Rightarrow> zrecord list \<Rightarrow> service_error + 'd rr list" where
  "queryRRs d rows = mapE (rowRR d) rows"

text \<open>The constraints of the table on a new or changed row: type and TTL in range, no other row with
  the same identity.\<close>

definition rowFits :: "zrecord list \<Rightarrow> zrecord \<Rightarrow> bool" where
  "rowFits others r \<longleftrightarrow> zrType r \<noteq> 0 \<and> zrTTL r \<le> maxTTL \<and> rowIdent r \<notin> set (map rowIdent others)"

definition insertRecord :: "'d dns_lib \<Rightarrow> nat \<Rightarrow> 'd rr \<Rightarrow> zrecord list \<Rightarrow> service_error + zrecord list \<times> zrecord" where
  "insertRecord d newid rr rows =
     (case FromRR d rr of
        None \<Rightarrow> Inl (ZInvalid ''invalid_rdata'')
      | Some w \<Rightarrow>
          let r = \<lparr>zrID = newid, zrOwner = hName rr, zrType = hType rr, zrTTL = hTTL rr, zrData = RDataText d rr,
            zrRData = rRData w, zrRev = 1\<rparr> in
          bindE (requireE (rowFits rows r \<and> newid \<notin> zrID ` set rows) ZDatabase) (\<lambda>_. Inr (rows @ [r], r)))"

definition setRRsetTTL :: "string \<Rightarrow> u16 \<Rightarrow> u32 \<Rightarrow> zrecord list \<Rightarrow> zrecord list" where
  "setRRsetTTL w t ttl rows =
     map (\<lambda>r. if rowKey r = (ToLower w, t) \<and> zrTTL r \<noteq> ttl then r\<lparr>zrTTL := ttl, zrRev := zrRev r + 1\<rparr> else r) rows"

section \<open>Applying changes\<close>

definition deleteChange :: "'d dns_lib \<Rightarrow> zrecord list \<Rightarrow> 'd rr \<Rightarrow> service_error + zrecord list" where
  "deleteChange d rows rr =
     (if hType rr = TypeSOA then Inr rows
      else (case FromRR d rr of
          None \<Rightarrow> Inl (ZInvalid ''invalid_rdata'')
        | Some w \<Rightarrow> Inr (filter (\<lambda>r. rowIdent r \<noteq> (rrKey rr, rRData w)) rows)))"

text \<open>An insert that meets a row of the same identity gives that row the new TTL.\<close>

definition addChange :: "'d dns_lib \<Rightarrow> nat \<Rightarrow> zrecord list \<Rightarrow> 'd rr \<Rightarrow> service_error + zrecord list" where
  "addChange d newid rows rr =
     (if hType rr = TypeSOA then Inr rows
      else (case FromRR d rr of
          None \<Rightarrow> Inl (ZInvalid ''invalid_rdata'')
        | Some w \<Rightarrow>
            let r = \<lparr>zrID = newid, zrOwner = hName rr, zrType = hType rr, zrTTL = hTTL rr, zrData = RDataText d rr,
              zrRData = rRData w, zrRev = 1\<rparr> in
            bindE (requireE (zrType r \<noteq> 0 \<and> zrTTL r \<le> maxTTL \<and> newid \<notin> zrID ` set rows) ZDatabase) (\<lambda>_.
            let rows' = (if rowIdent r \<in> set (map rowIdent rows)
                then map (\<lambda>x. if rowIdent x = rowIdent r \<and> zrTTL x \<noteq> zrTTL r
                    then x\<lparr>zrTTL := zrTTL r, zrRev := zrRev x + 1\<rparr> else x) rows
                else rows @ [r]) in
            Inr (setRRsetTTL (hName rr) (hType rr) (hTTL rr) rows'))))"

fun foldE :: "('s \<Rightarrow> 'a \<Rightarrow> 'e + 's) \<Rightarrow> 's \<Rightarrow> 'a list \<Rightarrow> 'e + 's" where
  "foldE f s [] = Inr s"
| "foldE f s (x # xs) = bindE (f s x) (\<lambda>s'. foldE f s' xs)"

text \<open>The identifiers of added rows are numbered from a fresh one.\<close>

definition ApplyRecordChanges ::
    "'d dns_lib \<Rightarrow> nat \<Rightarrow> 'd rr list \<Rightarrow> 'd rr list \<Rightarrow> zrecord list \<Rightarrow> service_error + zrecord list" where
  "ApplyRecordChanges d newid deleted added rows =
     bindE (foldE (deleteChange d) rows deleted) (\<lambda>rows.
     foldE (\<lambda>rows (i, rr). addChange d i rows rr) rows (zip [newid..<newid + length added] added))"

section \<open>The mutation path\<close>

definition zoneSOA :: "zone_row \<Rightarrow> 'd rr" where
  "zoneSOA z = \<lparr>hName = zName z, hType = TypeSOA, hClass = 1, hTTL = soaTTL (zSOA z), hRdlength = 0,
     rrData = RSOA \<lparr>dsNs = soaMName (zSOA z), dsMbox = soaRName (zSOA z), dsSerial = zSerial z,
       dsRefresh = soaRefresh (zSOA z), dsRetry = soaRetry (zSOA z), dsExpire = soaExpire (zSOA z),
       dsMinttl = soaMinimum (zSOA z)\<rparr>\<rparr>"

definition setSerialSOA :: "u32 \<Rightarrow> 'd rr \<Rightarrow> 'd rr" where
  "setSerialSOA serial r = (case rrData r of
     RSOA s \<Rightarrow> r\<lparr>rrData := RSOA (s\<lparr>dsSerial := serial\<rparr>)\<rparr> | ROther _ \<Rightarrow> r)"

text \<open>The environment of the version store for a zone with these rows.\<close>

definition hostEnv :: "'d dns_lib \<Rightarrow> 'd rr build_env \<Rightarrow> zrecord list \<Rightarrow> 'd rr build_env" where
  "hostEnv d env rows = env\<lparr>
     soaRR := zoneSOA, setSerialRR := setSerialSOA,
     wireName := (\<lambda>w. case dlPackName d (dlFqdn d w) of None \<Rightarrow> Inl (External 4) | Some b \<Rightarrow> Inr b),
     fromRR := (\<lambda>rr. case FromRR d rr of None \<Rightarrow> Inl (External 2) | Some w \<Rightarrow> Inr w),
     storedRRs := (case queryRRs d rows of Inl _ \<Rightarrow> Inl (External 3) | Inr rrs \<Rightarrow> Inr rrs)\<rparr>"

definition rebuildHosted ::
    "'d dns_lib \<Rightarrow> 'd rr build_env \<Rightarrow> 'd rr rebuild_options \<Rightarrow> hosted \<Rightarrow> service_error + hosted" where
  "rebuildHosted d env opts h =
     (case Rebuild (hostEnv d env (hzRecords h)) (hzStore h) (hzRow h) opts of
        Inl e \<Rightarrow> Inl (ZBuild e)
      | Inr (_, db', z') \<Rightarrow> Inr (h\<lparr>hzStore := db', hzRow := z'\<rparr>))"

text \<open>\<open>fence\<close> is what the fence returns inside the transaction; the zone is \<open>None\<close> when its row is gone;
  \<open>publish\<close> stands for the audit row and the new configuration version of \<open>snapshot.Mutate\<close>.\<close>

definition MutateFenced ::
    "'d dns_lib \<Rightarrow> 'd rr build_env \<Rightarrow> (hosted \<Rightarrow> service_error + unit) \<Rightarrow> service_error + unit \<Rightarrow>
     (hosted \<Rightarrow> service_error + hosted \<times> 'd rr rebuild_options \<times> 'x) \<Rightarrow> hosted option \<Rightarrow> service_error + hosted \<times> 'x" where
  "MutateFenced d env publish fence fn oh =
     bindE fence (\<lambda>_.
     case oh of
       None \<Rightarrow> Inl ZNotFound
     | Some h \<Rightarrow>
         bindE (fn h) (\<lambda>(h, opts, x).
         let h = h\<lparr>hzRevision := hzRevision h + 1\<rparr> in
         bindE (if zKind (hzRow h) = ''primary'' \<or> opSerial opts \<noteq> None then rebuildHosted d env opts h else Inr h) (\<lambda>h.
         bindE (publish h) (\<lambda>_. Inr (h, x)))))"

definition Mutate ::
    "'d dns_lib \<Rightarrow> 'd rr build_env \<Rightarrow> (hosted \<Rightarrow> service_error + unit) \<Rightarrow>
     (hosted \<Rightarrow> service_error + hosted \<times> 'd rr rebuild_options \<times> 'x) \<Rightarrow> hosted option \<Rightarrow> service_error + hosted \<times> 'x" where
  "Mutate d env publish fn oh = MutateFenced d env publish (Inr ()) fn oh"

section \<open>Operator records\<close>

record record_input =
  riName :: string
  riType :: string
  riTTL :: u32
  riData :: string

text \<open>\<open>upper\<close> is \<open>strings.ToUpper\<close>.\<close>

definition upper_char :: "char \<Rightarrow> char" where
  "upper_char c = (let n = of_char c :: nat in if 97 \<le> n \<and> n \<le> 122 then char_of (n - 32) else c)"

definition recordLine :: "'d dns_lib \<Rightarrow> record_input \<Rightarrow> u16 \<Rightarrow> string" where
  "recordLine d inp t =
     riName inp @ '' '' @ showNat (unat (riTTL inp)) @ '' IN '' @ dlTypeToString d t @ '' '' @ riData inp"

definition ParseRecord :: "'d dns_lib \<Rightarrow> string \<Rightarrow> record_input \<Rightarrow> service_error + 'd rr \<times> string" where
  "ParseRecord d zoneName inp =
     bindE (requireE (dlIsDomainName d (riName inp) \<and> dlIsFqdn d (riName inp)) (ZInvalid ''invalid_name'')) (\<lambda>_.
     bindE (requireE (dlIsSubDomain d zoneName (riName inp)) (ZInvalid ''out_of_zone'')) (\<lambda>_.
     case dlStringToType d (map upper_char (riType inp)) of
       None \<Rightarrow> Inl (ZInvalid ''unsupported_type'')
     | Some t \<Rightarrow>
         bindE (requireE (ManagedTypes t) (ZInvalid ''unsupported_type'')) (\<lambda>_.
         bindE (requireE (riTTL inp \<le> maxTTL) (ZInvalid ''invalid_ttl'')) (\<lambda>_.
         bindE (requireE (\<not> (list_ex (\<lambda>c. c \<in> {CHR 0x0A, CHR 0x0D, CHR '';''}) (riData inp) \<or> TrimSpace (riData inp) = []))
           (ZInvalid ''invalid_rdata'')) (\<lambda>_.
         case dlNewRR d (recordLine d inp t) of
           Some (Some rr) \<Rightarrow>
             bindE (requireE (hType rr = t) (ZInvalid ''invalid_rdata'')) (\<lambda>_. Inr (rr, RDataText d rr))
         | _ \<Rightarrow> Inl (ZInvalid ''invalid_rdata''))))))"

definition typeName :: "'d dns_lib \<Rightarrow> u16 \<Rightarrow> string" where
  "typeName d t = (if dlTypeToString d t = [] then ''TYPE'' @ showNat (unat t) else dlTypeToString d t)"

definition rtypeOf :: "'d dns_lib \<Rightarrow> string \<Rightarrow> u16" where
  "rtypeOf d s = (case dlStringToType d s of
     Some t \<Rightarrow> t
   | None \<Rightarrow> if HasPrefix s ''TYPE'' then (case ParseUint (drop 4 s) 16 of None \<Rightarrow> 0 | Some n \<Rightarrow> of_nat n) else 0)"

definition writable :: "hosted \<Rightarrow> service_error + unit" where
  "writable h = requireE (zKind (hzRow h) = ''primary'') ZReadOnly"

definition checkRecordsWritable :: "hosted \<Rightarrow> service_error + unit" where
  "checkRecordsWritable h = bindE (writable h) (\<lambda>_. requireE (\<not> hzProducer h) ZCatalogManaged)"

definition lockRecord :: "zrecord list \<Rightarrow> nat \<Rightarrow> int \<Rightarrow> service_error + zrecord" where
  "lockRecord rows i revision =
     (case find (\<lambda>r. zrID r = i) rows of
        None \<Rightarrow> Inl ZNotFound
      | Some r \<Rightarrow> if zrRev r \<noteq> revision then Inl ZConflict else Inr r)"

text \<open>The RRsets of a list, each once; owners compare without case.\<close>

fun firstSets :: "(string \<times> u16) list \<Rightarrow> (string \<times> u16) list \<Rightarrow> (string \<times> u16) list" where
  "firstSets seen [] = []"
| "firstSets seen ((w, t) # ss) =
     (if (ToLower w, t) \<in> set seen then firstSets seen ss else (ToLower w, t) # firstSets ((ToLower w, t) # seen) ss)"

definition loadRRsets :: "'d dns_lib \<Rightarrow> zrecord list \<Rightarrow> (string \<times> u16) list \<Rightarrow> service_error + 'd rr list" where
  "loadRRsets d rows sets =
     bindE (mapE (\<lambda>k. queryRRs d (filter (\<lambda>r. rowKey r = k) rows)) (firstSets [] sets)) (\<lambda>out. Inr (concat out))"

definition recordEdit ::
    "'d dns_lib \<Rightarrow> hosted \<Rightarrow> string list \<Rightarrow> (string \<times> u16) list \<Rightarrow> (zrecord list \<Rightarrow> service_error + zrecord list \<times> 'x) \<Rightarrow>
     service_error + hosted \<times> 'd rr rebuild_options \<times> 'x" where
  "recordEdit d h owners sets change =
     bindE (loadRRsets d (hzRecords h) sets) (\<lambda>old.
     bindE (change (hzRecords h)) (\<lambda>(rows, x).
     bindE (ruleE (checkOwners (dlNextLabel d) (zName (hzRow h)) (map rowKey rows) owners)) (\<lambda>_.
     bindE (loadRRsets d rows sets) (\<lambda>new.
     Inr (h\<lparr>hzRecords := rows\<rparr>, \<lparr>opEdit = Some \<lparr>edBefore = old, edAfter = new\<rparr>, opSerial = None, opForce = False\<rparr>, x)))))"

text \<open>The changes the three edits make to the rows.\<close>

definition createChange :: "'d dns_lib \<Rightarrow> nat \<Rightarrow> 'd rr \<Rightarrow> zrecord list \<Rightarrow> service_error + zrecord list \<times> zrecord" where
  "createChange d newid rr rows =
     bindE (insertRecord d newid rr rows) (\<lambda>(rows, r).
     Inr (setRRsetTTL (hName rr) (hType rr) (hTTL rr) rows, r))"

definition updateChange ::
    "zrecord \<Rightarrow> 'd rr \<Rightarrow> string \<Rightarrow> byte list \<Rightarrow> zrecord list \<Rightarrow> service_error + zrecord list \<times> zrecord" where
  "updateChange old rr pres rdata rows =
     (let r = \<lparr>zrID = zrID old, zrOwner = hName rr, zrType = hType rr, zrTTL = hTTL rr, zrData = pres,
        zrRData = rdata, zrRev = zrRev old + 1\<rparr> in
      bindE (requireE (rowFits (filter (\<lambda>x. zrID x \<noteq> zrID old) rows) r) ZDatabase) (\<lambda>_.
      Inr (setRRsetTTL (hName rr) (hType rr) (hTTL rr) (map (\<lambda>x. if zrID x = zrID old then r else x) rows), r)))"

definition removeChange :: "zrecord \<Rightarrow> zrecord list \<Rightarrow> service_error + zrecord list \<times> zrecord" where
  "removeChange old rows = Inr (filter (\<lambda>x. zrID x \<noteq> zrID old) rows, old)"

definition createEdit :: "'d dns_lib \<Rightarrow> nat \<Rightarrow> record_input \<Rightarrow> hosted \<Rightarrow> service_error + hosted \<times> 'd rr rebuild_options \<times> zrecord" where
  "createEdit d newid inp h =
     bindE (checkRecordsWritable h) (\<lambda>_.
     bindE (ParseRecord d (zName (hzRow h)) inp) (\<lambda>(rr, _).
     recordEdit d h [hName rr] [(hName rr, hType rr)] (createChange d newid rr)))"

definition updateEdit ::
    "'d dns_lib \<Rightarrow> nat \<Rightarrow> int \<Rightarrow> record_input \<Rightarrow> hosted \<Rightarrow> service_error + hosted \<times> 'd rr rebuild_options \<times> zrecord" where
  "updateEdit d i revision inp h =
     bindE (checkRecordsWritable h) (\<lambda>_.
     bindE (lockRecord (hzRecords h) i revision) (\<lambda>old.
     bindE (ParseRecord d (zName (hzRow h)) inp) (\<lambda>(rr, pres).
     case FromRR d rr of
       None \<Rightarrow> Inl (ZInvalid ''invalid_rdata'')
     | Some w \<Rightarrow>
         recordEdit d h [zrOwner old, hName rr] [(zrOwner old, rtypeOf d (typeName d (zrType old))), (hName rr, hType rr)]
           (updateChange old rr pres (rRData w)))))"

definition deleteEdit :: "'d dns_lib \<Rightarrow> nat \<Rightarrow> int \<Rightarrow> hosted \<Rightarrow> service_error + hosted \<times> 'd rr rebuild_options \<times> zrecord" where
  "deleteEdit d i revision h =
     bindE (checkRecordsWritable h) (\<lambda>_.
     bindE (lockRecord (hzRecords h) i revision) (\<lambda>old.
     recordEdit d h [zrOwner old] [(zrOwner old, rtypeOf d (typeName d (zrType old)))] (removeChange old)))"

definition CreateRecord ::
    "'d dns_lib \<Rightarrow> 'd rr build_env \<Rightarrow> (hosted \<Rightarrow> service_error + unit) \<Rightarrow> nat \<Rightarrow> record_input \<Rightarrow> hosted option \<Rightarrow>
     service_error + hosted \<times> zrecord" where
  "CreateRecord d env publish newid inp oh = Mutate d env publish (createEdit d newid inp) oh"

definition UpdateRecord ::
    "'d dns_lib \<Rightarrow> 'd rr build_env \<Rightarrow> (hosted \<Rightarrow> service_error + unit) \<Rightarrow> nat \<Rightarrow> int \<Rightarrow> record_input \<Rightarrow> hosted option \<Rightarrow>
     service_error + hosted \<times> zrecord" where
  "UpdateRecord d env publish i revision inp oh = Mutate d env publish (updateEdit d i revision inp) oh"

definition DeleteRecord ::
    "'d dns_lib \<Rightarrow> 'd rr build_env \<Rightarrow> (hosted \<Rightarrow> service_error + unit) \<Rightarrow> nat \<Rightarrow> int \<Rightarrow> hosted option \<Rightarrow>
     service_error + hosted \<times> zrecord" where
  "DeleteRecord d env publish i revision oh = Mutate d env publish (deleteEdit d i revision) oh"

end
