(* ===== verification/Zone_Edits.thy ===== *)
theory Zone_Edits
  imports Zone_Records
begin

text \<open>
  What the record edits keep. A change of the stored rows has a contract, the locale \<open>row_change\<close>: it
  leaves the rows away from some RRsets alone and keeps the table's constraints. The create, update
  and delete changes of the service are its instances, and every edit that follows the contract and
  passes \<open>checkOwners\<close> keeps the rules of the zone.
\<close>

section \<open>The table\<close>

definition ttlUniform :: "zrecord list \<Rightarrow> bool" where
  "ttlUniform rows \<longleftrightarrow> (\<forall>r \<in> set rows. \<forall>s \<in> set rows. rowKey r = rowKey s \<longrightarrow> zrTTL r = zrTTL s)"

definition tableOk :: "zrecord list \<Rightarrow> bool" where
  "tableOk rows \<longleftrightarrow> distinct (map rowIdent rows) \<and> distinct (map zrID rows) \<and> ttlUniform rows"

definition awayFrom :: "(string \<times> u16) set \<Rightarrow> zrecord list \<Rightarrow> zrecord multiset" where
  "awayFrom K rows = filter_mset (\<lambda>r. rowKey r \<notin> K) (mset rows)"

lemma setRRsetTTL_proj [simp]:
  "map rowKey (setRRsetTTL w t ttl rows) = map rowKey rows"
  "map rowIdent (setRRsetTTL w t ttl rows) = map rowIdent rows"
  "map zrID (setRRsetTTL w t ttl rows) = map zrID rows"
  by (auto simp: setRRsetTTL_def rowKey_def rowIdent_def)

lemma setRRsetTTL_away: "(ToLower w, t) \<in> K \<Longrightarrow> awayFrom K (setRRsetTTL w t ttl rows) = awayFrom K rows"
  by (induction rows) (auto simp: setRRsetTTL_def awayFrom_def rowKey_def)

lemma ttlUniformD: "ttlUniform rows \<Longrightarrow> r \<in> set rows \<Longrightarrow> s \<in> set rows \<Longrightarrow> rowKey r = rowKey s \<Longrightarrow> zrTTL r = zrTTL s"
  unfolding ttlUniform_def by blast

lemma ttlUniform_mono: "ttlUniform rows \<Longrightarrow> set rows' \<subseteq> set rows \<Longrightarrow> ttlUniform rows'"
  unfolding ttlUniform_def by blast

lemma setRRsetTTL_uniform:
  assumes "ttlUniform (filter (\<lambda>r. rowKey r \<noteq> (ToLower w, t)) rows)"
  shows "ttlUniform (setRRsetTTL w t ttl rows)"
proof -
  let ?f = "\<lambda>r. if rowKey r = (ToLower w, t) \<and> zrTTL r \<noteq> ttl then r\<lparr>zrTTL := ttl, zrRev := zrRev r + 1\<rparr> else r"
  have key: "rowKey (?f r) = rowKey r" for r by (simp add: rowKey_def)
  have ttl: "zrTTL (?f r) = (if rowKey r = (ToLower w, t) then ttl else zrTTL r)" for r by simp
  have "zrTTL (?f a) = zrTTL (?f b)" if "a \<in> set rows" "b \<in> set rows" "rowKey (?f a) = rowKey (?f b)" for a b
  proof -
    have ab: "rowKey a = rowKey b" using that(3) unfolding key .
    have "zrTTL a = zrTTL b" if "rowKey b \<noteq> (ToLower w, t)" 
      by (rule ttlUniformD [OF assms _ _ ab]) (use \<open>a \<in> set rows\<close> \<open>b \<in> set rows\<close> that in \<open>simp_all add: ab\<close>)
    then show ?thesis unfolding ttl ab by (cases "rowKey b = (ToLower w, t)") simp_all
  qed
  then show ?thesis unfolding ttlUniform_def setRRsetTTL_def set_map by blast
qed

lemma count_rowKey: "count_list (map rowKey rows) k = size (filter_mset (\<lambda>r. rowKey r = k) (mset rows))"
  by (induction rows) auto

lemma away_same:
  assumes "awayFrom K rows' = awayFrom K rows" "fst ` K \<subseteq> os"
  shows "sameAway os (map rowKey rows) (map rowKey rows')"
  unfolding sameAway_def
proof (intro allI impI)
  fix k :: "string \<times> u16" assume "fst k \<notin> os"
  then have "k \<notin> K" using assms(2) by auto
  then have "filter_mset (\<lambda>r. rowKey r = k) (mset rs) = filter_mset (\<lambda>r. rowKey r = k) (awayFrom K rs)" for rs
    by (auto simp: awayFrom_def filter_filter_mset intro!: filter_mset_cong)
  then show "count_list (map rowKey rows') k = count_list (map rowKey rows) k" using assms(1) by (simp add: count_rowKey)
qed

section \<open>The contract of a change\<close>

definition lowerSets :: "(string \<times> u16) list \<Rightarrow> (string \<times> u16) set" where
  "lowerSets sets = (\<lambda>(w, t). (ToLower w, t)) ` set sets"

locale row_change =
  fixes change :: "zrecord list \<Rightarrow> service_error + zrecord list \<times> 'x"
    and sets :: "(string \<times> u16) list"
    and pre :: "zrecord list \<Rightarrow> bool"
  assumes away: "tableOk rows \<Longrightarrow> pre rows \<Longrightarrow> change rows = Inr (rows', x) \<Longrightarrow>
      awayFrom (lowerSets sets) rows' = awayFrom (lowerSets sets) rows"
    and table: "tableOk rows \<Longrightarrow> pre rows \<Longrightarrow> change rows = Inr (rows', x) \<Longrightarrow> tableOk rows'"

definition rowsInv :: "next_label \<Rightarrow> string \<Rightarrow> zrecord list \<Rightarrow> bool" where
  "rowsInv nl zname rows \<longleftrightarrow> zoneOk nl (ToLower zname) (map rowKey rows) \<and> tableOk rows"

lemma ruleE_Inr_iff [simp]: "ruleE m = Inr x \<longleftrightarrow> m = Inr x"
  by (cases m) (auto simp: ruleE_def)

lemma recordEdit_Inr:
  assumes "recordEdit d h owners sets change = Inr (h', opts, x)"
  obtains old rows new where "loadRRsets d (hzRecords h) sets = Inr old" "change (hzRecords h) = Inr (rows, x)"
    "checkOwners (dlNextLabel d) (zName (hzRow h)) (map rowKey rows) owners = Inr ()"
    "loadRRsets d rows sets = Inr new" "h' = h\<lparr>hzRecords := rows\<rparr>"
    "opts = \<lparr>opEdit = Some \<lparr>edBefore = old, edAfter = new\<rparr>, opSerial = None, opForce = False\<rparr>"
  using assms by (auto simp: recordEdit_def bindE_Inr_iff)

context row_change
begin

lemma edit_keeps:
  assumes "label_law (dlNextLabel d)" "rowsInv (dlNextLabel d) (zName (hzRow h)) (hzRecords h)" "pre (hzRecords h)"
    "recordEdit d h owners sets change = Inr (h', opts, x)" "fst ` set sets \<subseteq> set owners"
  shows "rowsInv (dlNextLabel d) (zName (hzRow h')) (hzRecords h')"
  using assms(4)
proof (rule recordEdit_Inr)
  fix old rows new
  assume c: "change (hzRecords h) = Inr (rows, x)" "h' = h\<lparr>hzRecords := rows\<rparr>"
    "checkOwners (dlNextLabel d) (zName (hzRow h)) (map rowKey rows) owners = Inr ()"
  have ok: "zoneOk (dlNextLabel d) (ToLower (zName (hzRow h))) (map rowKey (hzRecords h))" "tableOk (hzRecords h)"
    using assms(2) by (auto simp: rowsInv_def)
  have "fst ` lowerSets sets \<subseteq> ToLower ` set owners" using assms(5) by (force simp: lowerSets_def)
  then have "sameAway (ToLower ` set owners) (map rowKey (hzRecords h)) (map rowKey rows)"
    by (rule away_same [OF away [OF ok(2) assms(3) c(1)]])
  from checkOwners_sound [OF assms(1) ok(1) this c(3)] table [OF ok(2) assms(3) c(1)] c(2)
  show ?thesis by (simp add: rowsInv_def)
qed

end

lemma createChange_table:
  assumes "tableOk rows" "createChange d newid rr rows = Inr (rows', x)"
  shows "tableOk rows'" "awayFrom (lowerSets [(hName rr, hType rr)]) rows' = awayFrom (lowerSets [(hName rr, hType rr)]) rows"
proof -
  from assms(2) obtain r where r: "rowFits rows r" "zrID r \<notin> zrID ` set rows" "rowKey r = (ToLower (hName rr), hType rr)"
    and rows': "rows' = setRRsetTTL (hName rr) (hType rr) (hTTL rr) (rows @ [r])"
    by (auto simp: createChange_def insertRecord_def Let_def bindE_Inr_iff rowKey_def split: option.splits)
  have "ttlUniform rows'" unfolding rows'
    by (rule setRRsetTTL_uniform, rule ttlUniform_mono [of rows]) (use assms(1) r(3) in \<open>auto simp: tableOk_def\<close>)
  then show "tableOk rows'" using assms(1) r(1,2) unfolding tableOk_def rows' setRRsetTTL_proj by (auto simp: rowFits_def)
  show "awayFrom (lowerSets [(hName rr, hType rr)]) rows' = awayFrom (lowerSets [(hName rr, hType rr)]) rows"
    unfolding rows' using r(3) by (subst setRRsetTTL_away) (auto simp: lowerSets_def awayFrom_def)
qed

interpretation cc: row_change "createChange d newid rr" "[(hName rr, hType rr)]" "\<lambda>_. True" for d newid rr
  by unfold_locales (auto dest: createChange_table)

lemma replace_mset:
  assumes "distinct (map zrID rows)" "old \<in> set rows"
  shows "mset rows = add_mset old (filter_mset (\<lambda>x. zrID x \<noteq> zrID old) (mset rows))"
    "mset (map (\<lambda>x. if zrID x = zrID old then r else x) rows) = add_mset r (filter_mset (\<lambda>x. zrID x \<noteq> zrID old) (mset rows))"
proof -
  from assms(2) obtain xs ys where rows: "rows = xs @ old # ys" by (meson split_list)
  have n: "\<forall>x \<in> set xs \<union> set ys. zrID x \<noteq> zrID old" using assms(1) unfolding rows by (auto simp: image_iff)
  have "filter_mset (\<lambda>x. zrID x \<noteq> zrID old) (mset zs) = mset zs" "map (\<lambda>x. if zrID x = zrID old then r else x) zs = zs"
    if "set zs \<subseteq> set xs \<union> set ys" for zs
  proof -
    have z: "\<forall>x \<in> set zs. zrID x \<noteq> zrID old" using that n by blast
    then show "filter_mset (\<lambda>x. zrID x \<noteq> zrID old) (mset zs) = mset zs" by (simp add: filter_mset_eq_conv)
    show "map (\<lambda>x. if zrID x = zrID old then r else x) zs = zs" using z by (simp add: map_idI)
  qed
  from this [of xs] this [of ys] show "mset rows = add_mset old (filter_mset (\<lambda>x. zrID x \<noteq> zrID old) (mset rows))"
    "mset (map (\<lambda>x. if zrID x = zrID old then r else x) rows) = add_mset r (filter_mset (\<lambda>x. zrID x \<noteq> zrID old) (mset rows))"
    unfolding rows by auto
qed

lemma away_remove:
  assumes "distinct (map zrID rows)" "old \<in> set rows" "rowKey old \<in> K"
  shows "awayFrom K (filter (\<lambda>x. zrID x \<noteq> zrID old) rows) = awayFrom K rows"
proof -
  have "awayFrom K rows = filter_mset (\<lambda>r. rowKey r \<notin> K) (add_mset old (filter_mset (\<lambda>x. zrID x \<noteq> zrID old) (mset rows)))"
    unfolding awayFrom_def by (rule arg_cong [OF replace_mset(1) [OF assms(1,2)]])
  also have "\<dots> = awayFrom K (filter (\<lambda>x. zrID x \<noteq> zrID old) rows)" using assms(3) by (simp add: awayFrom_def)
  finally show ?thesis by (rule sym)
qed

lemma updateChange_table:
  assumes "tableOk rows" "old \<in> set rows" "updateChange old rr pres rdata rows = Inr (rows', x)"
    "rowKey old \<in> K" "(ToLower (hName rr), hType rr) \<in> K"
  shows "tableOk rows'" "awayFrom K rows' = awayFrom K rows"
proof -
  let ?rest = "filter (\<lambda>x. zrID x \<noteq> zrID old) rows"
  from assms(3) obtain r where r: "rowFits ?rest r" "zrID r = zrID old" "rowKey r = (ToLower (hName rr), hType rr)"
    and rows': "rows' = setRRsetTTL (hName rr) (hType rr) (hTTL rr) (map (\<lambda>x. if zrID x = zrID old then r else x) rows)"
    by (auto simp: updateChange_def Let_def bindE_Inr_iff rowKey_def)
  note t = assms(1) [unfolded tableOk_def]
  have i: "distinct (map zrID rows)" using t by simp
  note m = replace_mset(1) [OF i assms(2)] replace_mset(2) [OF i assms(2), of r]
  let ?up = "map (\<lambda>x. if zrID x = zrID old then r else x) rows"
  have mm: "mset ?up = mset (r # ?rest)" using m by simp
  have "ttlUniform rows'" unfolding rows'
    by (rule setRRsetTTL_uniform, rule ttlUniform_mono [of rows]) (use t r(3) in auto)
  moreover have "distinct (map zrID ?up)" using t r(2) by (simp add: comp_def if_distrib [of zrID] cong: if_cong)
  moreover have d: "distinct (map rowIdent (r # ?rest))" using t r(1) by (auto simp: rowFits_def distinct_map inj_on_def)
  have "mset (map rowIdent ?up) = mset (map rowIdent (r # ?rest))" 
    using arg_cong [OF mm, of "image_mset rowIdent"] by (simp only: mset_map)
  then have "distinct (map rowIdent ?up)" using d by (rule mset_eq_imp_distinct_iff [THEN iffD2])
  ultimately show "tableOk rows'" unfolding tableOk_def rows' setRRsetTTL_proj by blast
  have "awayFrom K rows' = awayFrom K ?up" unfolding rows' by (rule setRRsetTTL_away [OF assms(5)])
  also have "\<dots> = awayFrom K ?rest" unfolding awayFrom_def mm using assms(5) r(3) by simp
  also have "\<dots> = awayFrom K rows" by (rule away_remove [OF i assms(2,4)])
  finally show "awayFrom K rows' = awayFrom K rows" .
qed

lemma removeChange_table:
  assumes "tableOk rows" "old \<in> set rows" "removeChange old rows = Inr (rows', x)" "rowKey old \<in> K"
  shows "tableOk rows'" "awayFrom K rows' = awayFrom K rows"
proof -
  have rows': "rows' = filter (\<lambda>x. zrID x \<noteq> zrID old) rows" using assms(3) by (auto simp: removeChange_def)
  show "tableOk rows'" using assms(1) ttlUniform_mono [of rows rows'] unfolding tableOk_def rows'
    by (auto simp: distinct_map_filter)
  show "awayFrom K rows' = awayFrom K rows" unfolding rows'
    by (rule away_remove) (use assms in \<open>simp_all add: tableOk_def\<close>)
qed

interpretation uc: row_change "updateChange old rr pres rdata" "[(zrOwner old, zrType old), (hName rr, hType rr)]"
    "\<lambda>rows. old \<in> set rows" for old rr pres rdata
  by unfold_locales (auto simp: lowerSets_def rowKey_def dest: updateChange_table [where K = "lowerSets [(zrOwner old, zrType old), (hName rr, hType rr)]"])

interpretation dc: row_change "removeChange old" "[(zrOwner old, zrType old)]" "\<lambda>rows. old \<in> set rows" for old
  by unfold_locales (auto simp: lowerSets_def rowKey_def dest: removeChange_table [where K = "lowerSets [(zrOwner old, zrType old)]"])

section \<open>The operations\<close>

lemma writeVersion_row:
  assumes "writeVersion env db z origin ns od force img = Inr (db', z')"
  shows "\<exists>i. z' = z\<lparr>zImageSeq := i, zSerial := ns, zCurrentSeq := zCurrentSeq z + 1\<rparr>"
  using assms
proof (rule writeVersion_Inr)
  fix db1 due db2 z2
  assume z2: "if due \<or> force then \<exists>recs. img = Inr recs \<and> writeImage env db1 z origin (zCurrentSeq z + 1) ns recs = Inr (db2, z2)
      else db2 = db1 \<and> z2 = z" and z': "z' = z2\<lparr>zSerial := ns, zCurrentSeq := zCurrentSeq z + 1\<rparr>"
  have "\<exists>i. z2 = z\<lparr>zImageSeq := i\<rparr>"
  proof (cases "due \<or> force")
    case True
    with z2 obtain recs where "writeImage env db1 z origin (zCurrentSeq z + 1) ns recs = Inr (db2, z2)" by auto
    then show ?thesis by (rule writeImage_Inr) blast
  next
    case False
    then have "z2 = z\<lparr>zImageSeq := zImageSeq z\<rparr>" using z2 by simp
    then show ?thesis by (rule exI)
  qed
  then show ?thesis using z' by auto
qed

lemma rebuildAll_False:
  assumes "rebuildAll env db z opts = Inr (False, db', z')"
  shows "db' = db \<and> z' = z"
proof -
  from assms obtain desired previous recs where d: "rebuildDesired env z = Inr desired"
    "(if zCurrentSeq z > 0 then loadServed env db z else Inr []) = Inr previous" "toRecords env desired = Inr recs"
    unfolding rebuildAll_def bindE_Inr_iff by blast
  obtain deleted added where diff: "diffIgnoringSOA previous recs = (deleted, added)" by fastforce
  from assms [unfolded rebuildAll_def d bindE_simps diff Let_def case_prod_conv] show ?thesis
    by (auto simp: bindE_Inr_iff split: if_splits)
qed

lemma rebuildEdit_False:
  assumes "rebuildEdit env db z ed serial = Inr (False, db', z')"
  shows "db' = db \<and> z' = z \<and> (\<exists>b a. toRecords env (edBefore ed) = Inr b \<and> toRecords env (edAfter ed) = Inr a \<and> diffIgnoringSOA b a = ([], []))"
proof -
  from assms obtain b a where b: "toRecords env (edBefore ed) = Inr b" and a: "toRecords env (edAfter ed) = Inr a"
    unfolding rebuildEdit_def bindE_Inr_iff by blast
  obtain deleted added where diff: "diffIgnoringSOA b a = (deleted, added)" by fastforce
  from assms [unfolded rebuildEdit_def b a bindE_simps diff Let_def case_prod_conv] show ?thesis
    using a b diff by (auto simp: bindE_Inr_iff split: if_splits)
qed

lemma Rebuild_row:
  assumes "Rebuild env db z opts = Inr (b, db', z')"
  shows "\<exists>i s c. z' = z\<lparr>zImageSeq := i, zSerial := s, zCurrentSeq := c\<rparr>"
proof (cases b)
  case True
  show ?thesis
  proof (cases "rebuildAll env db z opts = Inr (True, db', z')")
    case True
    then show ?thesis by (rule rebuildAll_True) (use writeVersion_row in blast)
  next
    case False
    with assms \<open>b\<close> obtain ed where "rebuildEdit env db z ed (opSerial opts) = Inr (True, db', z')"
      by (auto simp: Rebuild_def split: option.splits if_splits)
    then show ?thesis by (rule rebuildEdit_True) (use writeVersion_row in blast)
  qed
next
  case False
  then have "z' = z" using assms
    by (auto simp: Rebuild_def dest: rebuildAll_False rebuildEdit_False split: option.splits if_splits)
  then have "z' = z\<lparr>zImageSeq := zImageSeq z, zSerial := zSerial z, zCurrentSeq := zCurrentSeq z\<rparr>" by simp
  then show ?thesis by blast
qed

lemma MutateFenced_Inr:
  assumes "MutateFenced d env publish fence fn oh = Inr (h', x)"
  obtains h h1 opts where "fence = Inr ()" "oh = Some h" "fn h = Inr (h1, opts, x)" "hzRecords h' = hzRecords h1"
    "zName (hzRow h') = zName (hzRow h1)" "zKind (hzRow h') = zKind (hzRow h1)" "hzRevision h' = hzRevision h1 + 1"
    "zKind (hzRow h1) = ''primary'' \<or> opSerial opts \<noteq> None \<longrightarrow>
       rebuildHosted d env opts (h1\<lparr>hzRevision := hzRevision h1 + 1\<rparr>) = Inr h'"
    "publish h' = Inr ()"
proof -
  from assms obtain h h1 opts h2 where s: "fence = Inr ()" "oh = Some h" "fn h = Inr (h1, opts, x)"
    "(if zKind (hzRow h1) = ''primary'' \<or> opSerial opts \<noteq> None then rebuildHosted d env opts (h1\<lparr>hzRevision := hzRevision h1 + 1\<rparr>)
      else Inr (h1\<lparr>hzRevision := hzRevision h1 + 1\<rparr>)) = Inr h'" "publish h' = Inr ()"
    by (auto simp: MutateFenced_def bindE_Inr_iff Let_def split: option.splits)
  have "hzRecords h' = hzRecords h1 \<and> zName (hzRow h') = zName (hzRow h1) \<and> zKind (hzRow h') = zKind (hzRow h1) \<and>
      hzRevision h' = hzRevision h1 + 1"
    using s(4) by (auto simp: rebuildHosted_def dest!: Rebuild_row split: if_splits sum.splits)
  then show thesis using s by (intro that [of h h1 opts]) auto
qed

lemma lockRecord_Inr: "lockRecord rows i revision = Inr r \<Longrightarrow> r \<in> set rows \<and> zrID r = i \<and> zrRev r = revision"
  by (auto simp: lockRecord_def find_Some_iff split: option.splits if_splits)

text \<open>What the service relies on of the type names: reading back a written name gives the type.\<close>

definition type_law :: "'d dns_lib \<Rightarrow> bool" where
  "type_law d \<longleftrightarrow> (\<forall>t. rtypeOf d (typeName d t) = t)"

inductive zone_edit :: "'d dns_lib \<Rightarrow> 'd rr build_env \<Rightarrow> hosted \<Rightarrow> hosted \<Rightarrow> bool" for d env where
  created: "CreateRecord d env publish newid inp (Some h) = Inr (h', r) \<Longrightarrow> zone_edit d env h h'"
| updated: "UpdateRecord d env publish i revision inp (Some h) = Inr (h', r) \<Longrightarrow> zone_edit d env h h'"
| removed: "DeleteRecord d env publish i revision (Some h) = Inr (h', r) \<Longrightarrow> zone_edit d env h h'"

abbreviation hostInv :: "'d dns_lib \<Rightarrow> hosted \<Rightarrow> bool" where
  "hostInv d h \<equiv> rowsInv (dlNextLabel d) (zName (hzRow h)) (hzRecords h)"

lemma createEdit_keeps:
  "label_law (dlNextLabel d) \<Longrightarrow> hostInv d h \<Longrightarrow> createEdit d newid inp h = Inr (h', opts, r) \<Longrightarrow> hostInv d h'"
  by (auto simp: createEdit_def bindE_Inr_iff intro: cc.edit_keeps)

lemma updateEdit_keeps:
  fixes d :: "'d dns_lib"
  assumes "label_law (dlNextLabel d)" "type_law d" "hostInv d h" "updateEdit d i revision inp h = Inr (h', opts, r)"
  shows "hostInv d h'"
proof -
  from assms(4) obtain old pres w and rr :: "'d rr" where l: "lockRecord (hzRecords h) i revision = Inr old"
    and e: "recordEdit d h [zrOwner old, hName rr] [(zrOwner old, rtypeOf d (typeName d (zrType old))), (hName rr, hType rr)]
      (updateChange old rr pres w) = Inr (h', opts, r)"
    by (auto simp: updateEdit_def bindE_Inr_iff split: option.splits)
  from e [unfolded assms(2) [unfolded type_law_def, rule_format]] lockRecord_Inr [OF l]
  show ?thesis by (intro uc.edit_keeps [OF assms(1,3)]) auto
qed

lemma deleteEdit_keeps:
  assumes "label_law (dlNextLabel d)" "type_law d" "hostInv d h" "deleteEdit d i revision h = Inr (h', opts, r)"
  shows "hostInv d h'"
proof -
  from assms(4) obtain old where l: "lockRecord (hzRecords h) i revision = Inr old"
    and e: "recordEdit d h [zrOwner old] [(zrOwner old, rtypeOf d (typeName d (zrType old)))] (removeChange old) = Inr (h', opts, r)"
    by (auto simp: deleteEdit_def bindE_Inr_iff)
  from e [unfolded assms(2) [unfolded type_law_def, rule_format]] lockRecord_Inr [OF l]
  show ?thesis by (intro dc.edit_keeps [OF assms(1,3)]) auto
qed

lemma zone_edit_keeps:
  assumes "label_law (dlNextLabel d)" "type_law d" "zone_edit d env h h'" "hostInv d h"
  shows "hostInv d h'"
  using assms(3)
proof cases
  case (created publish newid inp r)
  then show ?thesis unfolding CreateRecord_def Mutate_def
    by (rule MutateFenced_Inr) (use createEdit_keeps [OF assms(1,4)] in auto)
next
  case (updated publish i revision inp r)
  then show ?thesis unfolding UpdateRecord_def Mutate_def
    by (rule MutateFenced_Inr) (use updateEdit_keeps [OF assms(1,2,4)] in auto)
next
  case (removed publish i revision r)
  then show ?thesis unfolding DeleteRecord_def Mutate_def
    by (rule MutateFenced_Inr) (use deleteEdit_keeps [OF assms(1,2,4)] in auto)
qed

end
