(* ===== verification/Dyn_Update.thy ===== *)
theory Dyn_Update
  imports Zone_Edits
begin

text \<open>
  Dynamic updates (\<open>dynupdate/apply.go\<close>): the checks of a forwarded UPDATE message, its prerequisites
  and its update section on the in-memory state of the zone, the difference to the stored records and
  the zone mutation. Go maps are association lists in insertion order, one of the orders their
  iteration may take; no result below depends on it. Unpacking a message and verifying a TSIG are
  parameters, as is what the key tables hold when they are read. The key of a record is the tuple
  that its text \<open>name|type|rdata\<close> spells.
\<close>

section \<open>Messages\<close>

definition ClassINET :: u16 where "ClassINET = 1"
definition ClassNONE :: u16 where "ClassNONE = 254"
definition ClassANY :: u16 where "ClassANY = 255"
definition TypeANY :: u16 where "TypeANY = 255"

definition RcodeFormatError :: nat where "RcodeFormatError = 1"
definition RcodeServerFailure :: nat where "RcodeServerFailure = 2"
definition RcodeNameError :: nat where "RcodeNameError = 3"
definition RcodeRefused :: nat where "RcodeRefused = 5"
definition RcodeYXDomain :: nat where "RcodeYXDomain = 6"
definition RcodeYXRrset :: nat where "RcodeYXRrset = 7"
definition RcodeNXRrset :: nat where "RcodeNXRrset = 8"
definition RcodeNotAuth :: nat where "RcodeNotAuth = 9"
definition RcodeNotZone :: nat where "RcodeNotZone = 10"

definition maxMessage :: nat where "maxMessage = 65535"
definition maxTimer :: u32 where "maxTimer = 2147483647"

text \<open>A question is a name, a type and a class; a TSIG is the name of its key and its algorithm.\<close>

record 'd update_msg =
  umUpdate :: bool
  umResponse :: bool
  umQuestion :: "(string \<times> u16 \<times> u16) list"
  umAnswer :: "'d rr list"
  umNs :: "'d rr list"
  umTsig :: "(string \<times> string) option"

record update_request =
  urMessage :: "byte list"
  urZone :: string
  urKey :: string

text \<open>\<open>ueKeyID\<close> is the key table when the TSIG is verified, \<open>ueKeyID2\<close> when the zone is locked.\<close>

record 'd update_env =
  ueUnpack :: "byte list \<Rightarrow> 'd update_msg option"
  ueCheck :: bool
  ueService :: bool
  ueKeyID :: "string \<Rightarrow> nat option"
  ueKeyID2 :: "string \<Rightarrow> nat option"
  ueSecret :: "nat \<Rightarrow> (string \<times> byte list) option"
  ueVerify :: "byte list \<Rightarrow> byte list \<Rightarrow> bool"

section \<open>The state of an update\<close>

type_synonym 'd rrmap = "(string \<times> (u16 \<times> 'd rr list) list) list"
type_synonym rkey = "(string \<times> u16) \<times> byte list"

record 'd ustate =
  stApex :: string
  stRRs :: "'d rrmap"
  stSOA :: "'d rr"
  stSOAChanged :: bool
  stOriginal :: "(rkey \<times> 'd rr) list"

definition rrsAt :: "'d rrmap \<Rightarrow> string \<Rightarrow> (u16 \<times> 'd rr list) list" where
  "rrsAt m w = (case map_of m w of None \<Rightarrow> [] | Some ts \<Rightarrow> ts)"

definition setAt :: "(u16 \<times> 'd rr list) list \<Rightarrow> u16 \<Rightarrow> 'd rr list" where
  "setAt ts t = (case map_of ts t of None \<Rightarrow> [] | Some s \<Rightarrow> s)"

definition recordKeyRR :: "'d dns_lib \<Rightarrow> 'd rr \<Rightarrow> rkey option" where
  "recordKeyRR d rr = (case FromRR d rr of
     None \<Rightarrow> None | Some w \<Rightarrow> Some ((ToLower (hName rr), rType w), rRData w))"

definition addRR :: "'d rr \<Rightarrow> 'd ustate \<Rightarrow> 'd ustate" where
  "addRR rr st =
     (let w = ToLower (hName rr); ts = rrsAt (stRRs st) w in
      st\<lparr>stRRs := AList.update w (AList.update (hType rr) (setAt ts (hType rr) @ [rr]) ts) (stRRs st)\<rparr>)"

definition loadRR :: "'d dns_lib \<Rightarrow> 'd ustate \<Rightarrow> 'd rr \<Rightarrow> service_error + 'd ustate" where
  "loadRR d st rr = (case recordKeyRR d rr of
     None \<Rightarrow> Inl ZRecord
   | Some k \<Rightarrow> Inr (addRR rr (st\<lparr>stOriginal := AList.update k rr (stOriginal st)\<rparr>)))"

definition newState :: "'d dns_lib \<Rightarrow> zone_row \<Rightarrow> 'd rr list \<Rightarrow> service_error + 'd ustate" where
  "newState d z records =
     (let apex = dlCanonicalName d (zName z); soa = (zoneSOA z)\<lparr>hName := apex\<rparr> in
      foldE (loadRR d) (addRR soa \<lparr>stApex = apex, stRRs = [], stSOA = soa, stSOAChanged = False, stOriginal = []\<rparr>) records)"

definition inZone :: "'d dns_lib \<Rightarrow> 'd ustate \<Rightarrow> string \<Rightarrow> bool" where
  "inZone d st w = dlIsSubDomain d (stApex st) w"

definition nameExists :: "'d ustate \<Rightarrow> string \<Rightarrow> bool" where
  "nameExists st w = list_ex (\<lambda>(t, s). s \<noteq> []) (rrsAt (stRRs st) w)"

definition isMeta :: "u16 \<Rightarrow> bool" where
  "isMeta t \<longleftrightarrow> t \<in> {TypeANY, 252, 251, 254, 253}"

definition updatable :: "u16 \<Rightarrow> bool" where
  "updatable t \<longleftrightarrow> t = TypeSOA \<or> ManagedTypes t"

definition sameSet :: "'d dns_lib \<Rightarrow> 'd rr list \<Rightarrow> 'd rr list \<Rightarrow> bool" where
  "sameSet d a b \<longleftrightarrow> list_all (\<lambda>rr. list_ex (\<lambda>x. dlIsDuplicate d x rr) b) a \<and>
     list_all (\<lambda>rr. list_ex (\<lambda>x. dlIsDuplicate d x rr) a) b"

section \<open>Prerequisites\<close>

definition failR :: "nat \<Rightarrow> service_error + 'a" where "failR r = Inl (ZRcode r)"

text \<open>One prerequisite; \<open>temp\<close> collects those that name the records of an RRset.\<close>

definition prerequisite ::
    "'d dns_lib \<Rightarrow> 'd ustate \<Rightarrow> ((string \<times> u16) \<times> 'd rr list) list \<Rightarrow> 'd rr \<Rightarrow>
     service_error + ((string \<times> u16) \<times> 'd rr list) list" where
  "prerequisite d st temp rr =
     (let w = ToLower (hName rr); t = hType rr; s = setAt (rrsAt (stRRs st) w) t in
      if hTTL rr \<noteq> 0 then failR RcodeFormatError
      else if \<not> inZone d st w then failR RcodeNotZone
      else if hClass rr = ClassANY then
        (if hRdlength rr \<noteq> 0 then failR RcodeFormatError
         else if t = TypeANY then (if nameExists st w then Inr temp else failR RcodeNameError)
         else if s = [] then failR RcodeNXRrset else Inr temp)
      else if hClass rr = ClassNONE then
        (if hRdlength rr \<noteq> 0 then failR RcodeFormatError
         else if t = TypeANY then (if nameExists st w then failR RcodeYXDomain else Inr temp)
         else if s \<noteq> [] then failR RcodeYXRrset else Inr temp)
      else if hClass rr = ClassINET then
        Inr (AList.update (w, t) ((case map_of temp (w, t) of None \<Rightarrow> [] | Some x \<Rightarrow> x) @ [rr]) temp)
      else failR RcodeFormatError)"

definition prerequisites :: "'d dns_lib \<Rightarrow> 'd ustate \<Rightarrow> 'd rr list \<Rightarrow> service_error + unit" where
  "prerequisites d st prereqs =
     bindE (foldE (prerequisite d st) [] prereqs) (\<lambda>temp.
     eachE (\<lambda>((w, t), s). if sameSet d s (setAt (rrsAt (stRRs st) w) t) then Inr () else failR RcodeNXRrset) temp)"

section \<open>The update section\<close>

definition soaTimersBad :: "'d rr \<Rightarrow> bool" where
  "soaTimersBad rr = (case rrData rr of
     RSOA s \<Rightarrow> dsRefresh s = 0 \<or> dsRetry s = 0 \<or> dsExpire s = 0 \<or>
       maxTimer < max (dsRefresh s) (max (dsRetry s) (max (dsExpire s) (max (dsMinttl s) (hTTL rr))))
   | ROther _ \<Rightarrow> False)"

definition prescanOne :: "'d dns_lib \<Rightarrow> 'd ustate \<Rightarrow> 'd rr \<Rightarrow> service_error + unit" where
  "prescanOne d st rr =
     (let rest = (if \<not> updatable (hType rr) then failR RcodeRefused
          else if hClass rr = ClassINET \<and> soaTimersBad rr then failR RcodeRefused else Inr ()) in
      if \<not> inZone d st (hName rr) then failR RcodeNotZone
      else if hClass rr = ClassINET then (if isMeta (hType rr) then failR RcodeFormatError else rest)
      else if hClass rr = ClassANY then
        (if hTTL rr \<noteq> 0 \<or> hRdlength rr \<noteq> 0 \<or> (hType rr \<noteq> TypeANY \<and> isMeta (hType rr)) then failR RcodeFormatError
         else if hType rr = TypeANY then Inr () else rest)
      else if hClass rr = ClassNONE then (if hTTL rr \<noteq> 0 \<or> isMeta (hType rr) then failR RcodeFormatError else rest)
      else failR RcodeFormatError)"

definition prescan :: "'d dns_lib \<Rightarrow> 'd ustate \<Rightarrow> 'd rr list \<Rightarrow> service_error + unit" where
  "prescan d st updates = eachE (prescanOne d st) updates"

definition typesPresent :: "(u16 \<times> 'd rr list) list \<Rightarrow> u16 list" where
  "typesPresent ts = map fst (filter (\<lambda>(t, s). s \<noteq> []) ts)"

fun indexFunc :: "('a \<Rightarrow> bool) \<Rightarrow> 'a list \<Rightarrow> nat option" where
  "indexFunc P [] = None"
| "indexFunc P (x # xs) = (if P x then Some 0 else map_option Suc (indexFunc P xs))"

definition putTypes :: "string \<Rightarrow> (u16 \<times> 'd rr list) list \<Rightarrow> 'd ustate \<Rightarrow> 'd ustate" where
  "putTypes w ts st = st\<lparr>stRRs := AList.update w ts (stRRs st)\<rparr>"

text \<open>Adding a record to its RRset: a duplicate is replaced, and all take the new TTL.\<close>

definition addToSet :: "'d dns_lib \<Rightarrow> 'd rr \<Rightarrow> 'd rr list \<Rightarrow> 'd rr list" where
  "addToSet d rr s =
     map (\<lambda>x. x\<lparr>hTTL := hTTL rr\<rparr>) (case indexFunc (\<lambda>x. dlIsDuplicate d x rr) s of
       Some i \<Rightarrow> s[i := rr] | None \<Rightarrow> s @ [rr])"

definition updateAdd :: "'d dns_lib \<Rightarrow> string \<Rightarrow> 'd rr \<Rightarrow> 'd ustate \<Rightarrow> 'd ustate" where
  "updateAdd d w rr st =
     (let ts = rrsAt (stRRs st) w; apex = (w = stApex st); rr = rr\<lparr>hName := w\<rparr>;
          add = (\<lambda>ts. AList.update (hType rr) (addToSet d rr (setAt ts (hType rr))) ts) in
      case rrData rr of
        RSOA soa \<Rightarrow>
          (if apex \<and> (case rrData (stSOA st) of RSOA old \<Rightarrow> SerialLess (dsSerial old) (dsSerial soa) | ROther _ \<Rightarrow> False)
           then (putTypes w (AList.update TypeSOA [rr] ts) st)\<lparr>stSOA := rr, stSOAChanged := True\<rparr>
           else putTypes w ts st)
      | ROther _ \<Rightarrow>
          if hType rr = TypeCNAME then
            (if apex \<or> list_ex (\<lambda>t. t \<noteq> TypeCNAME) (typesPresent ts) then putTypes w ts st
             else putTypes w (add (AList.update TypeCNAME [] ts)) st)
          else if setAt ts TypeCNAME \<noteq> [] then putTypes w ts st
          else putTypes w (add ts) st)"

definition updateDeleteSets :: "string \<Rightarrow> 'd rr \<Rightarrow> 'd ustate \<Rightarrow> 'd ustate" where
  "updateDeleteSets w rr st =
     (let apex = (w = stApex st) in
      putTypes w (filter (\<lambda>(t, _). \<not> ((hType rr = TypeANY \<or> t = hType rr) \<and> \<not> (apex \<and> (t = TypeSOA \<or> t = TypeNS))))
        (rrsAt (stRRs st) w)) st)"

definition updateDeleteRR :: "'d dns_lib \<Rightarrow> string \<Rightarrow> 'd rr \<Rightarrow> 'd ustate \<Rightarrow> 'd ustate" where
  "updateDeleteRR d w rr st =
     (let ts = rrsAt (stRRs st) w; apex = (w = stApex st); s = setAt ts (hType rr) in
      if hType rr = TypeSOA then putTypes w ts st
      else (case indexFunc (\<lambda>x. dlIsDuplicate d x (rr\<lparr>hClass := ClassINET\<rparr>)) s of
          None \<Rightarrow> putTypes w ts st
        | Some i \<Rightarrow>
            if apex \<and> hType rr = TypeNS \<and> length s = 1 then putTypes w ts st
            else putTypes w (AList.update (hType rr) (take i s @ drop (Suc i) s) ts) st))"

definition updateOne :: "'d dns_lib \<Rightarrow> 'd ustate \<Rightarrow> 'd rr \<Rightarrow> 'd ustate" where
  "updateOne d st rr =
     (let w = ToLower (hName rr) in
      if hClass rr = ClassINET then updateAdd d w rr st
      else if hClass rr = ClassANY then updateDeleteSets w rr st
      else if hClass rr = ClassNONE then updateDeleteRR d w rr st
      else putTypes w (rrsAt (stRRs st) w) st)"

definition update :: "'d dns_lib \<Rightarrow> 'd rr list \<Rightarrow> 'd ustate \<Rightarrow> 'd ustate" where
  "update d updates st = foldl (updateOne d) st updates"

section \<open>The difference\<close>

definition recordsOf :: "'d ustate \<Rightarrow> 'd rr list" where
  "recordsOf st = concat (map (\<lambda>(w, ts). concat (map snd (filter (\<lambda>(t, _). t \<noteq> TypeSOA) ts))) (stRRs st))"

text \<open>The loop over the records: the keys seen and the records to add.\<close>

fun changesAdded :: "'d dns_lib \<Rightarrow> (rkey \<times> 'd rr) list \<Rightarrow> 'd rr list \<Rightarrow> service_error + rkey list \<times> 'd rr list" where
  "changesAdded d original [] = Inr ([], [])"
| "changesAdded d original (rr # rrs) =
     (case recordKeyRR d rr of
        None \<Rightarrow> failR RcodeFormatError
      | Some k \<Rightarrow>
          bindE (changesAdded d original rrs) (\<lambda>(final, added).
          Inr (k # final, (case map_of original k of
              None \<Rightarrow> rr # added
            | Some old \<Rightarrow> if hTTL old \<noteq> hTTL rr then rr # added else added))))"

definition changes :: "'d dns_lib \<Rightarrow> 'd ustate \<Rightarrow> service_error + 'd rr list \<times> 'd rr list" where
  "changes d st =
     bindE (changesAdded d (stOriginal st) (recordsOf st)) (\<lambda>(final, added).
     Inr (map snd (filter (\<lambda>(k, _). k \<notin> set final) (stOriginal st)), added))"

section \<open>Authorization\<close>

definition tsigAlgorithms :: "string \<Rightarrow> string" where
  "tsigAlgorithms a = (if a = ''hmac-sha256'' then ''hmac-sha256.'' else if a = ''hmac-sha384'' then ''hmac-sha384.''
     else if a = ''hmac-sha512'' then ''hmac-sha512.'' else [])"

definition verify :: "'d dns_lib \<Rightarrow> 'd update_env \<Rightarrow> hosted \<Rightarrow> 'd update_msg \<Rightarrow> byte list \<Rightarrow> string \<Rightarrow> service_error + unit" where
  "verify d ue z msg raw keyName =
     (case umTsig msg of
        None \<Rightarrow> failR RcodeRefused
      | Some (tsName, tsAlgorithm) \<Rightarrow>
          if dlCanonicalName d tsName \<noteq> keyName then failR RcodeNotAuth
          else if \<not> ueService ue then failR RcodeNotAuth
          else (case ueKeyID ue keyName of
             None \<Rightarrow> failR RcodeNotAuth
           | Some i \<Rightarrow>
               if i \<notin> set (hzUpdateKeys z) then failR RcodeRefused
               else (case ueSecret ue i of
                  None \<Rightarrow> Inl ZDatabase
                | Some (algorithm, secret) \<Rightarrow>
                    if ToLower (tsigAlgorithms algorithm) \<noteq> ToLower tsAlgorithm then failR RcodeNotAuth
                    else if \<not> ueVerify ue raw secret then failR RcodeNotAuth
                    else Inr ())))"

definition allowed :: "'d update_env \<Rightarrow> hosted \<Rightarrow> string \<Rightarrow> bool" where
  "allowed ue z keyName = (case ueKeyID2 ue keyName of None \<Rightarrow> False | Some i \<Rightarrow> i \<in> set (hzUpdateKeys z))"

section \<open>Applying an update\<close>

definition setZoneSOA :: "'d dns_lib \<Rightarrow> 'd ustate \<Rightarrow> zone_row \<Rightarrow> zone_row" where
  "setZoneSOA d st z = (case rrData (stSOA st) of
     RSOA s \<Rightarrow> z\<lparr>zSOA := \<lparr>soaMName = dlCanonicalName d (dsNs s), soaRName = dlCanonicalName d (dsMbox s), soaRefresh = dsRefresh s,
       soaRetry = dsRetry s, soaExpire = dsExpire s, soaMinimum = dsMinttl s, soaTTL = hTTL (stSOA st)\<rparr>\<rparr>
   | ROther _ \<Rightarrow> z)"

text \<open>The mutation inside the transaction.\<close>

definition updateEditZone ::
    "'d dns_lib \<Rightarrow> 'd update_env \<Rightarrow> nat \<Rightarrow> 'd update_msg \<Rightarrow> string \<Rightarrow> hosted \<Rightarrow>
     service_error + hosted \<times> 'd rr rebuild_options \<times> unit" where
  "updateEditZone d ue newid msg keyName h =
     (let z = hzRow h in
      bindE (requireE (zKind z = ''primary'') (ZRcode RcodeRefused)) (\<lambda>_.
      bindE (requireE (\<not> (ueCheck ue \<and> \<not> allowed ue h keyName)) (ZRcode RcodeRefused)) (\<lambda>_.
      bindE (queryRRs d (hzRecords h)) (\<lambda>records.
      bindE (newState d z records) (\<lambda>st.
      bindE (prerequisites d st (umAnswer msg)) (\<lambda>_.
      bindE (prescan d st (umNs msg)) (\<lambda>_.
      let st = update d (umNs msg) st in
      bindE (changes d st) (\<lambda>(deleted, added).
      bindE (requireE (\<not> (deleted = [] \<and> added = [] \<and> \<not> stSOAChanged st)) ZNoChange) (\<lambda>_.
      bindE (case CheckSet (dlNextLabel d) (zName z) (recordsOf st) of Inl _ \<Rightarrow> failR RcodeRefused | Inr _ \<Rightarrow> Inr ()) (\<lambda>_.
      bindE (ApplyRecordChanges d newid deleted added (hzRecords h)) (\<lambda>rows.
      let z' = (if stSOAChanged st then setZoneSOA d st z else z);
          serial = (if stSOAChanged st then (case rrData (stSOA st) of RSOA s \<Rightarrow> Some (dsSerial s) | ROther _ \<Rightarrow> None) else None) in
      Inr (h\<lparr>hzRecords := rows, hzRow := z'\<rparr>, \<lparr>opEdit = None, opSerial = serial, opForce = False\<rparr>, ()))))))))))))"

text \<open>\<open>seen\<close> is the zone \<open>GetZoneByName\<close> finds, with \<open>None\<close> when there is none; \<open>locked\<close> is the same zone
  when the transaction locks it.\<close>

definition applyUpdate ::
    "'d dns_lib \<Rightarrow> 'd rr build_env \<Rightarrow> 'd update_env \<Rightarrow> (hosted \<Rightarrow> service_error + unit) \<Rightarrow> service_error + unit \<Rightarrow> nat \<Rightarrow>
     update_request \<Rightarrow> hosted option \<Rightarrow> hosted option \<Rightarrow> service_error + hosted" where
  "applyUpdate d env ue publish fence newid req seen locked =
     (if length (urMessage req) > maxMessage then failR RcodeFormatError
      else (case ueUnpack ue (urMessage req) of
          None \<Rightarrow> failR RcodeFormatError
        | Some msg \<Rightarrow>
            if \<not> umUpdate msg \<or> umResponse msg \<or> length (umQuestion msg) \<noteq> 1 then failR RcodeFormatError
            else (case hd (umQuestion msg) of (qname, qtype, qclass) \<Rightarrow>
              if qtype \<noteq> TypeSOA \<or> qclass \<noteq> ClassINET \<or> dlCanonicalName d qname \<noteq> dlCanonicalName d (urZone req)
              then failR RcodeFormatError
              else (case seen of
                  None \<Rightarrow> failR RcodeNotAuth
                | Some z \<Rightarrow>
                    if zKind (hzRow z) \<noteq> ''primary'' then failR RcodeRefused
                    else let keyName = dlCanonicalName d (urKey req) in
                      bindE (if ueCheck ue then verify d ue z msg (urMessage req) keyName else Inr ()) (\<lambda>_.
                      bindE (MutateFenced d env publish fence (updateEditZone d ue newid msg keyName) locked)
                        (\<lambda>(h, _). Inr h))))))"

text \<open>\<open>ApplyFenced\<close>: the response code, and the zone when it changed.\<close>

definition ApplyFenced ::
    "'d dns_lib \<Rightarrow> 'd rr build_env \<Rightarrow> 'd update_env \<Rightarrow> (hosted \<Rightarrow> service_error + unit) \<Rightarrow> service_error + unit \<Rightarrow> nat \<Rightarrow>
     update_request \<Rightarrow> hosted option \<Rightarrow> hosted option \<Rightarrow> nat \<times> hosted option" where
  "ApplyFenced d env ue publish fence newid req seen locked =
     (case applyUpdate d env ue publish fence newid req seen locked of
        Inr h \<Rightarrow> (0, Some h)
      | Inl ZNoChange \<Rightarrow> (0, None)
      | Inl (ZRcode r) \<Rightarrow> (r, None)
      | Inl _ \<Rightarrow> (RcodeServerFailure, None))"

definition ApplyUpdate ::
    "'d dns_lib \<Rightarrow> 'd rr build_env \<Rightarrow> 'd update_env \<Rightarrow> (hosted \<Rightarrow> service_error + unit) \<Rightarrow> nat \<Rightarrow>
     update_request \<Rightarrow> hosted option \<Rightarrow> hosted option \<Rightarrow> nat \<times> hosted option" where
  "ApplyUpdate d env ue publish newid req seen locked = ApplyFenced d env ue publish (Inr ()) newid req seen locked"

end
