(* ===== verification/Update_State.thy ===== *)
theory Update_State
  imports Dyn_Update
begin

text \<open>
  The in-memory state of a dynamic update: its invariant, that the apex keeps its SOA and a nameserver,
  what loading the stored records gives, and the records and the difference read off it.
\<close>

section \<open>The state\<close>

definition setOk :: "string \<Rightarrow> u16 \<Rightarrow> 'd rr list \<Rightarrow> bool" where
  "setOk w t s \<longleftrightarrow> (\<forall>rr \<in> set s. ToLower (hName rr) = w \<and> hType rr = t) \<and> (\<forall>x \<in> set s. \<forall>y \<in> set s. hTTL x = hTTL y)"

definition typesOk :: "string \<Rightarrow> (u16 \<times> 'd rr list) list \<Rightarrow> bool" where
  "typesOk w ts \<longleftrightarrow> distinct (map fst ts) \<and> (\<forall>t s. map_of ts t = Some s \<longrightarrow> setOk w t s)"

definition mapOk :: "'d rrmap \<Rightarrow> bool" where
  "mapOk m \<longleftrightarrow> distinct (map fst m) \<and> (\<forall>w ts. map_of m w = Some ts \<longrightarrow> typesOk w ts)"

text \<open>A record is SOA data exactly when its type says so, as an unpacked message's are.\<close>

definition typedRR :: "'d rr \<Rightarrow> bool" where
  "typedRR rr \<longleftrightarrow> ((\<exists>s. rrData rr = RSOA s) \<longleftrightarrow> hType rr = TypeSOA)"

named_theorems state_ok \<open>preservation of the state invariant\<close>

lemma rrsAt_update [simp]: "rrsAt (AList.update w ts m) v = (if v = w then ts else rrsAt m v)"
  by (simp add: rrsAt_def update_conv')

lemma setAt_update [simp]: "setAt (AList.update t s ts) u = (if u = t then s else setAt ts u)"
  by (simp add: setAt_def update_conv')

lemma map_of_filter_key: "map_of (filter (\<lambda>(t, _). P t) ts) t = (if P t then map_of ts t else None)"
  by (induction ts) auto

lemma setAt_filter [simp]: "setAt (filter (\<lambda>(t, _). P t) ts) t = (if P t then setAt ts t else [])"
  by (simp add: setAt_def map_of_filter_key)

lemma setOk_Nil [simp]: "setOk w t []"
  by (simp add: setOk_def)

lemma mapOk_update [state_ok]: "mapOk m \<Longrightarrow> typesOk w ts \<Longrightarrow> mapOk (AList.update w ts m)"
  by (auto simp: mapOk_def distinct_update update_conv' split: if_splits)

lemma typesOk_update [state_ok]: "typesOk w ts \<Longrightarrow> setOk w t s \<Longrightarrow> typesOk w (AList.update t s ts)"
  by (auto simp: typesOk_def distinct_update update_conv' split: if_splits)

lemma typesOk_rrsAt [state_ok]: "mapOk m \<Longrightarrow> typesOk w (rrsAt m w)"
  by (auto simp: mapOk_def rrsAt_def typesOk_def split: option.splits)

lemma setOk_setAt [state_ok]: "typesOk w ts \<Longrightarrow> setOk w t (setAt ts t)"
  by (cases "map_of ts t") (simp_all add: typesOk_def setAt_def setOk_Nil)

lemma typesOk_filter [state_ok]: "typesOk w ts \<Longrightarrow> typesOk w (filter (\<lambda>(t, _). P t) ts)"
  by (auto simp: typesOk_def distinct_map_filter map_of_filter_key split: if_splits)

lemma setOk_subset: "setOk w t s \<Longrightarrow> set s' \<subseteq> set s \<Longrightarrow> setOk w t s'"
  unfolding setOk_def by blast

lemma setOk_ttl: "setOk w t s \<Longrightarrow> x \<in> set s \<Longrightarrow> y \<in> set s \<Longrightarrow> hTTL x = hTTL y"
  unfolding setOk_def by blast

lemma ToLower_idem [simp]: "ToLower (ToLower w) = ToLower w"
  by (simp add: ToLower_def lower_char_def Let_def comp_def)

lemma addToSet_ok:
  assumes "setOk w t s" "hType rr = t" "ToLower (hName rr) = w"
  shows "setOk w t (addToSet d rr s)"
proof -
  have "set (case indexFunc (\<lambda>x. dlIsDuplicate d x rr) s of Some i \<Rightarrow> s[i := rr] | None \<Rightarrow> s @ [rr]) \<subseteq> insert rr (set s)"
    by (auto split: option.splits dest: set_update_subset_insert [THEN subsetD])
  moreover have "ToLower (hName x) = w \<and> hType x = t" if "x \<in> insert rr (set s)" for x
    using that assms by (auto simp: setOk_def)
  ultimately show ?thesis by (auto simp: setOk_def addToSet_def)
qed

lemma addToSet_nonempty: "addToSet d rr s \<noteq> []"
proof -
  have "i < length s" if "indexFunc P s = Some i" for P i
    using that by (induction s arbitrary: i) (auto split: if_splits)
  then show ?thesis by (force simp: addToSet_def split: option.splits)
qed

lemma updateAdd_ok:
  assumes "mapOk (stRRs st)" "typedRR rr" "w = ToLower (hName rr)"
  shows "mapOk (stRRs (updateAdd d w rr st))"
proof -
  let ?rr = "rr\<lparr>hName := w\<rparr>"
  have n: "hType ?rr = hType rr" "ToLower (hName ?rr) = w" using assms(3) by simp_all
  have t: "typesOk w (rrsAt (stRRs st) w)" using assms(1) by (rule typesOk_rrsAt)
  have keep: "mapOk (AList.update w (rrsAt (stRRs st) w) (stRRs st))" using assms(1) t by (rule mapOk_update)
  have add: "typesOk w (AList.update (hType rr) (addToSet d ?rr (setAt ts (hType rr))) ts)" if "typesOk w ts" for ts
    using that by (intro typesOk_update addToSet_ok [OF _ n] setOk_setAt)
  show ?thesis
  proof (cases "rrData rr")
    case (RSOA s)
    then have "setOk w TypeSOA [?rr]" using assms(2) n by (auto simp: setOk_def typedRR_def)
    then have "mapOk (AList.update w (AList.update TypeSOA [?rr] (rrsAt (stRRs st) w)) (stRRs st))"
      using assms(1) t by (intro mapOk_update typesOk_update)
    then show ?thesis using keep RSOA by (cases "w = stApex st") (simp_all add: updateAdd_def putTypes_def Let_def)
  next
    case (ROther x)
    have "typesOk w (AList.update TypeCNAME [] (rrsAt (stRRs st) w))" using t by (rule typesOk_update) (simp add: setOk_def)
    from mapOk_update [OF assms(1) add [OF t]] mapOk_update [OF assms(1) add [OF this]] keep show ?thesis
      using ROther by (cases "hType rr = TypeCNAME") (simp_all add: updateAdd_def putTypes_def Let_def)
  qed
qed

lemma updateOne_ok:
  assumes "mapOk (stRRs st)" "typedRR rr"
  shows "mapOk (stRRs (updateOne d st rr))"
proof -
  let ?w = "ToLower (hName rr)"
  have t: "typesOk ?w (rrsAt (stRRs st) ?w)" using assms(1) by (rule typesOk_rrsAt)
  have keep: "mapOk (AList.update ?w (rrsAt (stRRs st) ?w) (stRRs st))" using assms(1) t by (rule mapOk_update)
  have "setOk ?w (hType rr) (take i s @ drop (Suc i) s)" if "s = setAt (rrsAt (stRRs st) ?w) (hType rr)" for i s
    by (rule setOk_subset [OF setOk_setAt [OF t]]) (use that in \<open>auto dest: in_set_takeD in_set_dropD\<close>)
  then have "mapOk (stRRs (updateDeleteRR d ?w rr st))"
    using keep assms(1) t by (auto simp: updateDeleteRR_def putTypes_def Let_def split: option.splits intro!: state_ok)
  moreover have "mapOk (stRRs (updateDeleteSets ?w rr st))"
    using assms(1) t by (auto simp: updateDeleteSets_def putTypes_def Let_def intro!: mapOk_update typesOk_filter)
  ultimately show ?thesis using updateAdd_ok [OF assms] keep by (simp add: updateOne_def Let_def putTypes_def)
qed

lemma update_ok: "mapOk (stRRs st) \<Longrightarrow> \<forall>rr \<in> set us. typedRR rr \<Longrightarrow> mapOk (stRRs (update d us st))"
  unfolding update_def by (induction us arbitrary: st) (auto simp: updateOne_ok)

section \<open>The apex\<close>

definition apexOk :: "'d ustate \<Rightarrow> bool" where
  "apexOk st \<longleftrightarrow> setAt (rrsAt (stRRs st) (stApex st)) TypeSOA = [stSOA st] \<and> setAt (rrsAt (stRRs st) (stApex st)) TypeNS \<noteq> []"

lemma putTypes_sel [simp]:
  "stRRs (putTypes w ts st) = AList.update w ts (stRRs st)" "stApex (putTypes w ts st) = stApex st" "stSOA (putTypes w ts st) = stSOA st"
  "stSOAChanged (putTypes w ts st) = stSOAChanged st" "stOriginal (putTypes w ts st) = stOriginal st"
  by (simp_all add: putTypes_def)

lemma types_neq: "TypeSOA \<noteq> TypeNS" "TypeSOA \<noteq> TypeCNAME" "TypeNS \<noteq> TypeCNAME"
  by (simp_all add: TypeSOA_def TypeNS_def TypeCNAME_def)

lemma updateAdd_apex:
  assumes "apexOk st" "typedRR rr"
  shows "apexOk (updateAdd d w rr st) \<and> stApex (updateAdd d w rr st) = stApex st"
proof (cases "rrData rr")
  case (RSOA s)
  then show ?thesis using assms types_neq by (auto simp: updateAdd_def Let_def apexOk_def split: if_split)
next
  case (ROther x)
  then have "hType rr \<noteq> TypeSOA" using assms(2) by (auto simp: typedRR_def)
  then show ?thesis using ROther assms(1) types_neq
    by (auto simp: updateAdd_def Let_def apexOk_def addToSet_nonempty split: if_split)
qed

lemma updateDeleteRR_apex:
  assumes "apexOk st"
  shows "apexOk (updateDeleteRR d w rr st) \<and> stApex (updateDeleteRR d w rr st) = stApex st"
proof -
  have "take i s @ drop (Suc i) s \<noteq> []" if "length s \<noteq> 1" "s \<noteq> []" for i and s :: "'a rr list"
    using that by (cases s) (auto simp: neq_Nil_conv)
  then show ?thesis using assms types_neq
    by (auto simp: updateDeleteRR_def Let_def apexOk_def split: option.split if_split)
qed

lemma updateDeleteSets_apex:
  "apexOk st \<Longrightarrow> apexOk (updateDeleteSets w rr st) \<and> stApex (updateDeleteSets w rr st) = stApex st"
  by (auto simp: updateDeleteSets_def Let_def apexOk_def)

lemma putTypes_apex: "apexOk st \<Longrightarrow> apexOk (putTypes w (rrsAt (stRRs st) w) st)"
  by (auto simp: apexOk_def)

lemma updateOne_apex: "apexOk st \<Longrightarrow> typedRR rr \<Longrightarrow> apexOk (updateOne d st rr) \<and> stApex (updateOne d st rr) = stApex st"
  by (simp add: updateOne_def Let_def updateAdd_apex updateDeleteRR_apex updateDeleteSets_apex putTypes_apex)

lemma update_apex:
  assumes "apexOk st" "\<forall>rr \<in> set us. typedRR rr"
  shows "apexOk (update d us st) \<and> stApex (update d us st) = stApex st"
proof -
  have "apexOk (foldl (updateOne d) st us) \<and> stApex (foldl (updateOne d) st us) = stApex st"
    using assms by (induction us arbitrary: st) (simp_all add: updateOne_apex)
  then show ?thesis by (simp add: update_def)
qed

section \<open>Loading the state\<close>

definition distinctMap :: "'d rrmap \<Rightarrow> bool" where
  "distinctMap m \<longleftrightarrow> distinct (map fst m) \<and> (\<forall>w. distinct (map fst (rrsAt m w)))"

lemma addRR_at: "setAt (rrsAt (stRRs (addRR rr st)) w) t = setAt (rrsAt (stRRs st) w) t @ (if rrKey rr = (w, t) then [rr] else [])"
  by (auto simp: addRR_def Let_def rrKey_def)

lemma addRR_sel [simp]: "stApex (addRR rr st) = stApex st" "stSOA (addRR rr st) = stSOA st"
  "stSOAChanged (addRR rr st) = stSOAChanged st" "stOriginal (addRR rr st) = stOriginal st"
  by (simp_all add: addRR_def Let_def)

lemma addRR_distinct: "distinctMap (stRRs st) \<Longrightarrow> distinctMap (stRRs (addRR rr st))"
  by (auto simp: distinctMap_def addRR_def Let_def distinct_update)

lemma addRR_original [simp]: "stRRs (st\<lparr>stOriginal := x\<rparr>) = stRRs st" by simp

lemma loadRR_Inr: "loadRR d st rr = Inr st' \<longleftrightarrow>
    (\<exists>k. recordKeyRR d rr = Some k \<and> st' = addRR rr (st\<lparr>stOriginal := AList.update k rr (stOriginal st)\<rparr>))"
  by (auto simp: loadRR_def split: option.splits)

lemma load_state:
  assumes "foldE (loadRR d) st rrs = Inr st'" "distinctMap (stRRs st)"
  shows "setAt (rrsAt (stRRs st') w) t = setAt (rrsAt (stRRs st) w) t @ filter (\<lambda>rr. rrKey rr = (w, t)) rrs"
    "distinctMap (stRRs st')" "stApex st' = stApex st" "stSOA st' = stSOA st" "stSOAChanged st' = stSOAChanged st"
    "map_of (stOriginal st') k = Some rr \<Longrightarrow> map_of (stOriginal st) k = Some rr \<or> rr \<in> set rrs \<and> recordKeyRR d rr = Some k"
    "map_of (stOriginal st') k = None \<longleftrightarrow> map_of (stOriginal st) k = None \<and> Some k \<notin> recordKeyRR d ` set rrs"
proof -
  have "setAt (rrsAt (stRRs st') w) t = setAt (rrsAt (stRRs st) w) t @ filter (\<lambda>rr. rrKey rr = (w, t)) rrs \<and>
      distinctMap (stRRs st') \<and> stApex st' = stApex st \<and> stSOA st' = stSOA st \<and> stSOAChanged st' = stSOAChanged st \<and>
      (\<forall>rr. map_of (stOriginal st') k = Some rr \<longrightarrow> map_of (stOriginal st) k = Some rr \<or> rr \<in> set rrs \<and> recordKeyRR d rr = Some k) \<and>
      (map_of (stOriginal st') k = None \<longleftrightarrow> map_of (stOriginal st) k = None \<and> Some k \<notin> recordKeyRR d ` set rrs)"
    using assms
  proof (induction rrs arbitrary: st)
    case (Cons a rrs)
    obtain k' where k: "recordKeyRR d a = Some k'"
      and f: "foldE (loadRR d) (addRR a (st\<lparr>stOriginal := AList.update k' a (stOriginal st)\<rparr>)) rrs = Inr st'"
      using Cons.prems(1) by (auto simp: loadRR_Inr bindE_Inr_iff)
    have "distinctMap (stRRs (addRR a (st\<lparr>stOriginal := AList.update k' a (stOriginal st)\<rparr>)))"
      using Cons.prems(2) by (simp add: addRR_distinct)
    from Cons.IH [OF f this] k show ?case by (auto simp: addRR_at update_conv' split: if_splits)
  qed simp
  then show "setAt (rrsAt (stRRs st') w) t = setAt (rrsAt (stRRs st) w) t @ filter (\<lambda>rr. rrKey rr = (w, t)) rrs"
    "distinctMap (stRRs st')" "stApex st' = stApex st" "stSOA st' = stSOA st" "stSOAChanged st' = stSOAChanged st"
    "map_of (stOriginal st') k = Some rr \<Longrightarrow> map_of (stOriginal st) k = Some rr \<or> rr \<in> set rrs \<and> recordKeyRR d rr = Some k"
    "map_of (stOriginal st') k = None \<longleftrightarrow> map_of (stOriginal st) k = None \<and> Some k \<notin> recordKeyRR d ` set rrs"
    by blast+
qed

abbreviation apexSOA :: "'d dns_lib \<Rightarrow> zone_row \<Rightarrow> 'd rr" where
  "apexSOA d z \<equiv> (zoneSOA z)\<lparr>hName := dlCanonicalName d (zName z)\<rparr>"

lemma newState_state:
  fixes d :: "'d dns_lib"
  assumes "newState d z records = Inr st"
  shows "setAt (rrsAt (stRRs st) w) t = filter (\<lambda>rr. rrKey rr = (w, t)) (apexSOA d z # records)"
    "distinctMap (stRRs st)" "stApex st = dlCanonicalName d (zName z)" "stSOA st = apexSOA d z" "\<not> stSOAChanged st"
    "map_of (stOriginal st) k = Some rr \<Longrightarrow> rr \<in> set records \<and> recordKeyRR d rr = Some k"
    "map_of (stOriginal st) k = None \<longleftrightarrow> Some k \<notin> recordKeyRR d ` set records"
proof -
  let ?st = "\<lparr>stApex = dlCanonicalName d (zName z), stRRs = [], stSOA = apexSOA d z, stSOAChanged = False, stOriginal = []\<rparr>"
  have e: "setAt (rrsAt (stRRs ?st) w) t = []" "distinctMap (stRRs ?st)"
    by (simp_all add: rrsAt_def setAt_def distinctMap_def)
  have f: "foldE (loadRR d) (addRR (apexSOA d z) ?st) records = Inr st" using assms by (simp add: newState_def Let_def)
  have "distinctMap (stRRs (addRR (apexSOA d z) ?st))" using e(2) by (rule addRR_distinct)
  note l = load_state [OF f this]
  show "setAt (rrsAt (stRRs st) w) t = filter (\<lambda>rr. rrKey rr = (w, t)) (apexSOA d z # records)"
    unfolding l(1) addRR_at e by simp
  show "distinctMap (stRRs st)" by (rule l(2))
  show "stApex st = dlCanonicalName d (zName z)" "stSOA st = apexSOA d z" "\<not> stSOAChanged st"
    using l(3-5) by simp_all
  show "map_of (stOriginal st) k = Some rr \<Longrightarrow> rr \<in> set records \<and> recordKeyRR d rr = Some k"
    using l(6) [of k rr] by simp
  show "map_of (stOriginal st) k = None \<longleftrightarrow> Some k \<notin> recordKeyRR d ` set records" using l(7) [of k] by simp
qed

lemma newState_original: "newState d z records = Inr st \<Longrightarrow> distinct (map fst (stOriginal st))"
proof -
  have "distinct (map fst (stOriginal st'))" if "foldE (loadRR d) st rrs = Inr st'" "distinct (map fst (stOriginal st))" for st st' rrs
    using that by (induction rrs arbitrary: st) (auto simp: loadRR_Inr bindE_Inr_iff distinct_update)
  then show "newState d z records = Inr st \<Longrightarrow> ?thesis" by (force simp: newState_def Let_def)
qed

lemma updateOne_original: "stOriginal (updateOne d st rr) = stOriginal st"
  by (simp add: updateOne_def updateAdd_def updateDeleteSets_def updateDeleteRR_def Let_def split: rdata.split option.split)

lemma update_original: "stOriginal (update d us st) = stOriginal st"
  unfolding update_def by (induction us arbitrary: st) (simp_all add: updateOne_original)

lemma mapOk_iff: "mapOk m \<longleftrightarrow> distinct (map fst m) \<and> (\<forall>w. typesOk w (rrsAt m w))"
proof
  show "mapOk m \<Longrightarrow> distinct (map fst m) \<and> (\<forall>w. typesOk w (rrsAt m w))"
    using typesOk_rrsAt [of m] mapOk_def [of m] by blast
  show "distinct (map fst m) \<and> (\<forall>w. typesOk w (rrsAt m w)) \<Longrightarrow> mapOk m"
    unfolding mapOk_def rrsAt_def by (metis option.simps(5))
qed

lemma typesOk_iff: "typesOk w ts \<longleftrightarrow> distinct (map fst ts) \<and> (\<forall>t. setOk w t (setAt ts t))"
proof
  show "typesOk w ts \<Longrightarrow> distinct (map fst ts) \<and> (\<forall>t. setOk w t (setAt ts t))"
    using setOk_setAt [of w ts] typesOk_def [of w ts] by blast
  show "distinct (map fst ts) \<and> (\<forall>t. setOk w t (setAt ts t)) \<Longrightarrow> typesOk w ts"
    unfolding typesOk_def setAt_def by (metis option.simps(5))
qed

lemma newState_ok:
  fixes d :: "'d dns_lib"
  assumes "newState d z records = Inr st" "\<forall>rr \<in> set records. hType rr \<noteq> TypeSOA"
    "\<forall>x \<in> set records. \<forall>y \<in> set records. rrKey x = rrKey y \<longrightarrow> hTTL x = hTTL y"
  shows "mapOk (stRRs st)"
proof -
  have soa: "hType (apexSOA d z) = TypeSOA" by (simp add: zoneSOA_def)
  have "hTTL x = hTTL y" if "x \<in> set (apexSOA d z # records)" "y \<in> set (apexSOA d z # records)" "rrKey x = rrKey y" for x y
  proof -
    have "hType x = hType y" using that(3) by (simp add: rrKey_def)
    then have "x = apexSOA d z \<and> y = apexSOA d z \<or> x \<in> set records \<and> y \<in> set records"
      using that(1,2) assms(2) soa by (metis set_ConsD)
    then show ?thesis using assms(3) that(3) by blast
  qed
  then have "setOk w t (filter (\<lambda>rr. rrKey rr = (w, t)) (apexSOA d z # records))" for w t
    unfolding setOk_def set_filter by (auto simp: rrKey_def)
  then have "setOk w t (setAt (rrsAt (stRRs st) w) t)" for w t unfolding newState_state(1) [OF assms(1)] .
  then show ?thesis using newState_state(2) [OF assms(1)] by (simp add: mapOk_iff typesOk_iff distinctMap_def)
qed

lemma recordsOf_iff:
  assumes "mapOk (stRRs st)"
  shows "rr \<in> set (recordsOf st) \<longleftrightarrow> hType rr \<noteq> TypeSOA \<and> rr \<in> set (setAt (rrsAt (stRRs st) (ToLower (hName rr))) (hType rr))"
proof -
  have m: "(w, ts) \<in> set (stRRs st) \<longleftrightarrow> map_of (stRRs st) w = Some ts" for w ts using assms by (simp add: mapOk_def)
  have t: "(t, s) \<in> set ts \<longleftrightarrow> map_of ts t = Some s" if "map_of (stRRs st) w = Some ts" for w ts t s
    using assms that by (auto simp: mapOk_def typesOk_def)
  have k: "w = ToLower (hName rr) \<and> t = hType rr" if "map_of (stRRs st) w = Some ts" "map_of ts t = Some s" "rr \<in> set s" for w ts t s
    using assms that by (auto simp: mapOk_def typesOk_def setOk_def)
  have "rr \<in> set (recordsOf st) \<longleftrightarrow>
      (\<exists>w ts t s. map_of (stRRs st) w = Some ts \<and> map_of ts t = Some s \<and> t \<noteq> TypeSOA \<and> rr \<in> set s)"
    unfolding recordsOf_def using m t by fastforce
  also have "\<dots> \<longleftrightarrow> hType rr \<noteq> TypeSOA \<and> (\<exists>ts s. map_of (stRRs st) (ToLower (hName rr)) = Some ts \<and> map_of ts (hType rr) = Some s \<and> rr \<in> set s)"
    using k by blast
  also have "\<dots> \<longleftrightarrow> hType rr \<noteq> TypeSOA \<and> rr \<in> set (setAt (rrsAt (stRRs st) (ToLower (hName rr))) (hType rr))"
    by (force simp: rrsAt_def setAt_def split: option.splits)
  finally show ?thesis .
qed

lemma recordsOf_uniform:
  assumes "mapOk (stRRs st)" "x \<in> set (recordsOf st)" "y \<in> set (recordsOf st)" "rrKey x = rrKey y"
  shows "hTTL x = hTTL y"
proof -
  have "setOk (ToLower (hName x)) (hType x) (setAt (rrsAt (stRRs st) (ToLower (hName x))) (hType x))"
    using assms(1) by (intro state_ok)
  moreover have "ToLower (hName y) = ToLower (hName x)" "hType y = hType x" using assms(4) by (simp_all add: rrKey_def)
  ultimately show ?thesis using assms(2,3) unfolding recordsOf_iff [OF assms(1)] by (metis setOk_ttl)
qed

lemma changesAdded_Inr:
  assumes "changesAdded d orig rrs = Inr (final, added)"
  shows "map (recordKeyRR d) rrs = map Some final"
    "added = filter (\<lambda>rr. \<forall>old. map_of orig (the (recordKeyRR d rr)) = Some old \<longrightarrow> hTTL old \<noteq> hTTL rr) rrs"
  using assms by (induction rrs arbitrary: final added) (auto simp: bindE_Inr_iff failR_def split: option.splits if_splits)

end
