(* ===== verification/Update_Diff.thy ===== *)
theory Update_Diff
  imports Update_State
begin

text \<open>
  The stored table as a map from record identities to TTLs, and what the difference of an update does to
  it: the table becomes the records of the updated state, and obeys the zone rules when those do.
\<close>

section \<open>The table as a map\<close>

definition absTable :: "zrecord list \<Rightarrow> rkey \<rightharpoonup> u32" where
  "absTable rows = map_of (map (\<lambda>r. (rowIdent r, zrTTL r)) rows)"

lemma fst_rowIdent [simp]: "fst (rowIdent r) = rowKey r"
  by (simp add: rowIdent_def)

lemma absTable_Some: "tableOk rows \<Longrightarrow> absTable rows i = Some t \<longleftrightarrow> (\<exists>r \<in> set rows. rowIdent r = i \<and> zrTTL r = t)"
  by (auto simp: absTable_def tableOk_def comp_def)

lemma absTable_None: "absTable rows i = None \<longleftrightarrow> i \<notin> rowIdent ` set rows"
  by (simp add: absTable_def map_of_eq_None_iff image_image)

lemma absTable_filter: "absTable (filter (\<lambda>r. rowIdent r \<noteq> k) rows) = (absTable rows)(k := None)"
  unfolding absTable_def by (induction rows) (auto simp: fun_eq_iff)

lemma absTable_setTTL: "absTable (setRRsetTTL w t ttl rows) i =
    (if fst i = (ToLower w, t) then map_option (\<lambda>_. ttl) (absTable rows i) else absTable rows i)"
  unfolding absTable_def setRRsetTTL_def by (induction rows) (auto simp: rowIdent_def rowKey_def)

lemma absTable_snoc: "rowIdent r \<notin> rowIdent ` set rows \<Longrightarrow> absTable (rows @ [r]) = (absTable rows)(rowIdent r \<mapsto> zrTTL r)"
  using absTable_None [of rows "rowIdent r"] by (auto simp: absTable_def map_add_def fun_eq_iff split: option.splits)

lemma absTable_replace:
  "absTable (map (\<lambda>x. if rowIdent x = k \<and> zrTTL x \<noteq> ttl then x\<lparr>zrTTL := ttl, zrRev := zrRev x + 1\<rparr> else x) rows) i =
    (if i = k then map_option (\<lambda>_. ttl) (absTable rows i) else absTable rows i)"
  unfolding absTable_def by (induction rows) (auto simp: rowIdent_def rowKey_def)

section \<open>Applying the difference\<close>

text \<open>What the difference relies on of the library: packing keeps the type, and the stored owners and
  RDATA are as the library writes them, so that a row reads back as itself.\<close>

definition pack_law :: "'d dns_lib \<Rightarrow> bool" where
  "pack_law d \<longleftrightarrow> (\<forall>rr w. FromRR d rr = Some w \<longrightarrow> rType w = hType rr)"

definition readsBack :: "'d dns_lib \<Rightarrow> zrecord list \<Rightarrow> bool" where
  "readsBack d rows \<longleftrightarrow> (\<forall>r \<in> set rows. \<forall>rr. rowRR d r = Inr rr \<longrightarrow> recordKeyRR d rr = Some (rowIdent r) \<and> hTTL rr = zrTTL r)"

lemma recordKeyRR_Some: "pack_law d \<Longrightarrow> recordKeyRR d rr = Some k \<longleftrightarrow> (\<exists>w. FromRR d rr = Some w \<and> k = (rrKey rr, rRData w))"
  by (auto simp: recordKeyRR_def pack_law_def rrKey_def split: option.splits)

lemma deleteChange_abs:
  assumes "pack_law d" "recordKeyRR d rr = Some k" "hType rr \<noteq> TypeSOA" "deleteChange d rows rr = Inr rows'" "tableOk rows"
  shows "absTable rows' = (absTable rows)(k := None) \<and> tableOk rows'"
proof -
  from assms(2) obtain w where "FromRR d rr = Some w" "k = (rrKey rr, rRData w)" unfolding recordKeyRR_Some [OF assms(1)] by blast
  then have r: "rows' = filter (\<lambda>r. rowIdent r \<noteq> k) rows" using assms(3,4) by (simp add: deleteChange_def)
  have "ttlUniform rows'" by (rule ttlUniform_mono [of rows]) (use assms(5) in \<open>auto simp: r tableOk_def\<close>)
  then show ?thesis using assms(5) by (simp add: r absTable_filter tableOk_def distinct_map_filter)
qed

lemma rowKey_ttl [simp]: "rowKey (x\<lparr>zrTTL := ttl, zrRev := v\<rparr>) = rowKey x"
  by (simp add: rowKey_def)

lemma replaced_proj:
  "map rowIdent (map (\<lambda>x. if P x then x\<lparr>zrTTL := ttl, zrRev := zrRev x + 1\<rparr> else x) rows) = map rowIdent rows"
  "map zrID (map (\<lambda>x. if P x then x\<lparr>zrTTL := ttl, zrRev := zrRev x + 1\<rparr> else x) rows) = map zrID rows"
  by (auto simp: rowIdent_def rowKey_def)

lemma addChange_abs:
  assumes "pack_law d" "recordKeyRR d rr = Some k" "hType rr \<noteq> TypeSOA" "addChange d newid rows rr = Inr rows'" "tableOk rows"
  shows "absTable rows' = (\<lambda>i. if i = k then Some (hTTL rr)
      else if fst i = rrKey rr then map_option (\<lambda>_. hTTL rr) (absTable rows i) else absTable rows i) \<and> tableOk rows'"
proof -
  from assms(2) obtain w where w: "FromRR d rr = Some w" "k = (rrKey rr, rRData w)" unfolding recordKeyRR_Some [OF assms(1)] by blast
  define r where "r = \<lparr>zrID = newid, zrOwner = hName rr, zrType = hType rr, zrTTL = hTTL rr, zrData = RDataText d rr,
    zrRData = rRData w, zrRev = 1\<rparr>"
  define rows1 where "rows1 = (if rowIdent r \<in> set (map rowIdent rows)
    then map (\<lambda>x. if rowIdent x = rowIdent r \<and> zrTTL x \<noteq> zrTTL r then x\<lparr>zrTTL := zrTTL r, zrRev := zrRev x + 1\<rparr> else x) rows
    else rows @ [r])"
  have r: "rowIdent r = k" "zrTTL r = hTTL rr" "zrID r = newid" "fst k = rrKey rr"
    using w by (simp_all add: r_def rowIdent_def rowKey_def rrKey_def)
  have e: "rows' = setRRsetTTL (hName rr) (hType rr) (hTTL rr) rows1" and fresh: "newid \<notin> zrID ` set rows"
    using assms(3,4) w(1) by (auto simp: addChange_def Let_def r_def [symmetric] rows1_def bindE_Inr_iff split: if_splits)
  have ids: "distinct (map rowIdent rows1)" "distinct (map zrID rows1)"
    using assms(5) fresh r(3) by (auto simp: rows1_def tableOk_def replaced_proj simp del: map_map)
  have "ttlUniform (filter (\<lambda>x. rowKey x \<noteq> (ToLower (hName rr), hType rr)) rows1)"
    by (rule ttlUniform_mono [of rows]) (use assms(5) r in \<open>auto simp: rows1_def tableOk_def rowIdent_def rrKey_def split: if_splits\<close>)
  then have "ttlUniform rows'" unfolding e by (rule setRRsetTTL_uniform)
  then have "tableOk rows'" using ids by (simp add: e tableOk_def)
  moreover have "absTable rows1 = (absTable rows)(k \<mapsto> hTTL rr)"
  proof (cases "k \<in> rowIdent ` set rows")
    case True
    then obtain t where "absTable rows k = Some t" using absTable_None by (metis option.exhaust)
    then show ?thesis using True unfolding rows1_def r(1,2) by (auto simp: absTable_replace fun_eq_iff)
  qed (use r in \<open>simp add: rows1_def absTable_snoc\<close>)
  ultimately show ?thesis using r(4) by (auto simp: e absTable_setTTL fun_eq_iff rrKey_def)
qed

lemma deletes_abs:
  assumes "pack_law d" "\<forall>rr \<in> set del. hType rr \<noteq> TypeSOA \<and> recordKeyRR d rr \<noteq> None"
    "foldE (deleteChange d) rows del = Inr rows'" "tableOk rows"
  shows "absTable rows' = (\<lambda>i. if Some i \<in> recordKeyRR d ` set del then None else absTable rows i) \<and> tableOk rows'"
  using assms(2-4)
proof (induction del arbitrary: rows)
  case (Cons rr del)
  then obtain k rows1 where k: "recordKeyRR d rr = Some k" "hType rr \<noteq> TypeSOA"
    and r: "deleteChange d rows rr = Inr rows1" "foldE (deleteChange d) rows1 del = Inr rows'"
    by (auto simp: bindE_Inr_iff)
  note one = deleteChange_abs [OF assms(1) k r(1) Cons.prems(3)]
  have "absTable rows' = (\<lambda>i. if Some i \<in> recordKeyRR d ` set del then None else absTable rows1 i) \<and> tableOk rows'"
    by (rule Cons.IH [OF _ r(2)]) (use Cons.prems(1) one in simp_all)
  then show ?case using one k(1) by (auto simp: fun_eq_iff)
qed simp

lemma adds_abs:
  fixes ttl :: "string \<times> u16 \<Rightarrow> u32"
  assumes "pack_law d" "\<forall>rr \<in> set added. hType rr \<noteq> TypeSOA \<and> recordKeyRR d rr \<noteq> None \<and> hTTL rr = ttl (rrKey rr)"
    "foldE (\<lambda>rows (i, rr). addChange d i rows rr) rows (zip ids added) = Inr rows'" "length ids = length added" "tableOk rows"
  shows "absTable rows' = (\<lambda>i. if Some i \<in> recordKeyRR d ` set added then Some (ttl (fst i))
      else if fst i \<in> rrKey ` set added then map_option (\<lambda>_. ttl (fst i)) (absTable rows i) else absTable rows i) \<and> tableOk rows'"
  using assms(2-5)
proof (induction added arbitrary: rows ids)
  case (Cons rr added)
  then obtain a ids1 k rows1 where k: "recordKeyRR d rr = Some k" "hType rr \<noteq> TypeSOA" "hTTL rr = ttl (rrKey rr)"
    and ids: "ids = a # ids1" "length ids1 = length added" and r: "addChange d a rows rr = Inr rows1"
      "foldE (\<lambda>rows (i, rr). addChange d i rows rr) rows1 (zip ids1 added) = Inr rows'"
    by (auto simp: bindE_Inr_iff length_Suc_conv)
  have key: "fst k = rrKey rr" using k(1) unfolding recordKeyRR_Some [OF assms(1)] by auto
  note one = addChange_abs [OF assms(1) k(1,2) r(1) Cons.prems(4)]
  have rest: "absTable rows' = (\<lambda>i. if Some i \<in> recordKeyRR d ` set added then Some (ttl (fst i))
      else if fst i \<in> rrKey ` set added then map_option (\<lambda>_. ttl (fst i)) (absTable rows1 i) else absTable rows1 i) \<and> tableOk rows'"
    by (rule Cons.IH [OF _ r(2) ids(2)]) (use Cons.prems(1) one in simp_all)
  have "absTable rows' i = (if Some i \<in> recordKeyRR d ` set (rr # added) then Some (ttl (fst i))
      else if fst i \<in> rrKey ` set (rr # added) then map_option (\<lambda>_. ttl (fst i)) (absTable rows i) else absTable rows i)" for i
    unfolding conjunct1 [OF rest] conjunct1 [OF one] k(3) list.set image_insert k(1)
    by (cases "i = k"; cases "fst i = rrKey rr") (simp_all add: key option.map_comp comp_def)
  then show ?case using rest by blast
qed simp

section \<open>The stored state\<close>

lemma readsBack_nth:
  assumes "readsBack d rows" "queryRRs d rows = Inr records"
  shows "length records = length rows"
    "i < length rows \<Longrightarrow> recordKeyRR d (records ! i) = Some (rowIdent (rows ! i)) \<and> hTTL (records ! i) = zrTTL (rows ! i)"
proof -
  have q: "list_all2 (\<lambda>r rr. rowRR d r = Inr rr) rows records" using assms(2) by (simp add: queryRRs_def mapE_Inr_iff)
  show "length records = length rows" using list_all2_lengthD [OF q] by simp
  show "recordKeyRR d (records ! i) = Some (rowIdent (rows ! i)) \<and> hTTL (records ! i) = zrTTL (rows ! i)" if "i < length rows"
    using list_all2_nthD [OF q that] nth_mem [OF that] assms(1) unfolding readsBack_def by blast
qed

lemma readsBack_rr:
  assumes "readsBack d rows" "queryRRs d rows = Inr records" "rr \<in> set records"
  shows "\<exists>r \<in> set rows. recordKeyRR d rr = Some (rowIdent r) \<and> hTTL rr = zrTTL r"
proof -
  note rb = readsBack_nth [OF assms(1,2)]
  obtain i where "i < length rows" "rr = records ! i" using assms(3) by (auto simp: in_set_conv_nth rb(1))
  then show ?thesis using rb(2) [of i] nth_mem [of i rows] by blast
qed

lemma original_table:
  assumes "tableOk rows" "readsBack d rows" "queryRRs d rows = Inr records" "newState d z records = Inr st"
  shows "map_of (stOriginal st) k = Some rr \<Longrightarrow> absTable rows k = Some (hTTL rr)"
    "map_of (stOriginal st) k = None \<longleftrightarrow> absTable rows k = None"
proof -
  note row = readsBack_rr [OF assms(2,3)]
  have rec: "\<exists>rr \<in> set records. recordKeyRR d rr = Some (rowIdent r)" if r: "r \<in> set rows" for r
  proof -
    obtain i where "i < length rows" "r = rows ! i" using r by (auto simp: in_set_conv_nth)
    then show ?thesis using readsBack_nth(2) [OF assms(2,3), of i] readsBack_nth(1) [OF assms(2,3)] nth_mem [of i records] by metis
  qed
  show "absTable rows k = Some (hTTL rr)" if "map_of (stOriginal st) k = Some rr"
    using newState_state(6) [OF assms(4) that] row [of rr] unfolding absTable_Some [OF assms(1)] by force
  show "map_of (stOriginal st) k = None \<longleftrightarrow> absTable rows k = None"
    unfolding newState_state(7) [OF assms(4)] absTable_None using row rec by (force simp: image_iff)
qed

lemma changes_Inr:
  assumes "changes d st = Inr (del, added)" "distinct (map fst (stOriginal st))"
    "\<And>k rr. map_of (stOriginal st) k = Some rr \<Longrightarrow> recordKeyRR d rr = Some k"
  obtains "\<forall>rr \<in> set (recordsOf st). recordKeyRR d rr \<noteq> None"
    "\<And>rr. rr \<in> set added \<longleftrightarrow> rr \<in> set (recordsOf st) \<and>
       (\<forall>old. map_of (stOriginal st) (the (recordKeyRR d rr)) = Some old \<longrightarrow> hTTL old \<noteq> hTTL rr)"
    "\<And>rr. rr \<in> set del \<longleftrightarrow>
       (\<exists>k. map_of (stOriginal st) k = Some rr \<and> Some k \<notin> recordKeyRR d ` set (recordsOf st))"
proof -
  from assms(1) obtain final where f: "changesAdded d (stOriginal st) (recordsOf st) = Inr (final, added)"
    and del: "del = map snd (filter (\<lambda>(k, _). k \<notin> set final) (stOriginal st))"
    by (auto simp: changes_def bindE_Inr_iff)
  note c = changesAdded_Inr [OF f]
  have keys: "recordKeyRR d ` set (recordsOf st) = Some ` set final" using arg_cong [OF c(1), of set] by simp
  have "\<forall>rr \<in> set (recordsOf st). recordKeyRR d rr \<noteq> None" using keys by (metis (no_types, lifting) imageE imageI option.distinct(1))
  moreover have "rr \<in> set added \<longleftrightarrow> rr \<in> set (recordsOf st) \<and>
      (\<forall>old. map_of (stOriginal st) (the (recordKeyRR d rr)) = Some old \<longrightarrow> hTTL old \<noteq> hTTL rr)" for rr
    unfolding c(2) by simp
  moreover have "rr \<in> set del \<longleftrightarrow> (\<exists>k. map_of (stOriginal st) k = Some rr \<and> Some k \<notin> recordKeyRR d ` set (recordsOf st))" for rr
    unfolding del keys using assms(2) by (force simp: image_iff)
  ultimately show thesis by (rule that)
qed

lemma uniform_ttl:
  assumes "\<And>x y. x \<in> set rrs \<Longrightarrow> y \<in> set rrs \<Longrightarrow> rrKey x = rrKey y \<Longrightarrow> hTTL x = hTTL y"
  obtains ttl where "\<forall>rr \<in> set rrs. hTTL rr = ttl (rrKey rr)"
proof
  show "\<forall>rr \<in> set rrs. hTTL rr = (\<lambda>k. hTTL (inv_into (set rrs) rrKey k)) (rrKey rr)"
    using assms by (metis f_inv_into_f imageI inv_into_into)
qed

text \<open>The difference of two maps, applied: \<open>T\<close> the table before, \<open>rrs\<close> the records to reach.\<close>

definition diffMap ::
    "'d dns_lib \<Rightarrow> (string \<times> u16 \<Rightarrow> u32) \<Rightarrow> 'd rr list \<Rightarrow> 'd rr list \<Rightarrow> (rkey \<rightharpoonup> u32) \<Rightarrow> rkey \<rightharpoonup> u32" where
  "diffMap d ttl del added T = (\<lambda>i.
     let v = (if Some i \<in> recordKeyRR d ` set del then None else T i) in
     if Some i \<in> recordKeyRR d ` set added then Some (ttl (fst i))
     else if fst i \<in> rrKey ` set added then map_option (\<lambda>_. ttl (fst i)) v else v)"

lemma diffMap_exact:
  fixes d :: "'d dns_lib" and orig :: "(rkey \<times> 'd rr) list"
  assumes law: "pack_law d"
    and orig: "\<And>k rr. map_of orig k = Some rr \<Longrightarrow> recordKeyRR d rr = Some k \<and> T k = Some (hTTL rr)"
      "\<And>k. map_of orig k = None \<Longrightarrow> T k = None"
    and add: "\<And>rr. rr \<in> set added \<longleftrightarrow> rr \<in> set rrs \<and> (\<forall>old. map_of orig (the (recordKeyRR d rr)) = Some old \<longrightarrow> hTTL old \<noteq> hTTL rr)"
    and del: "\<And>rr. rr \<in> set del \<longleftrightarrow> (\<exists>k. map_of orig k = Some rr \<and> Some k \<notin> recordKeyRR d ` set rrs)"
    and ttl: "\<forall>rr \<in> set rrs. hTTL rr = ttl (rrKey rr)"
  shows "diffMap d ttl del added T i = Some t \<longleftrightarrow> (\<exists>rr \<in> set rrs. recordKeyRR d rr = Some i \<and> hTTL rr = t)"
proof -
  have del_key: "Some i \<in> recordKeyRR d ` set del \<longleftrightarrow> map_of orig i \<noteq> None \<and> Some i \<notin> recordKeyRR d ` set rrs"
  proof
    assume "Some i \<in> recordKeyRR d ` set del"
    then obtain x where x: "x \<in> set del" "recordKeyRR d x = Some i" by (metis imageE)
    then obtain k where "map_of orig k = Some x" "Some k \<notin> recordKeyRR d ` set rrs" using del by blast
    then show "map_of orig i \<noteq> None \<and> Some i \<notin> recordKeyRR d ` set rrs" using orig(1) [of k x] x(2) by simp
  next
    assume "map_of orig i \<noteq> None \<and> Some i \<notin> recordKeyRR d ` set rrs"
    then obtain x where x: "map_of orig i = Some x" "x \<in> set del" using del by blast
    then show "Some i \<in> recordKeyRR d ` set del" using orig(1) [OF x(1)] by (metis imageI)
  qed
  show ?thesis
  proof (cases "Some i \<in> recordKeyRR d ` set rrs")
    case True
    then obtain rr where rr: "rr \<in> set rrs" "recordKeyRR d rr = Some i" by (metis imageE)
    have ttl_i: "hTTL x = ttl (fst i)" if "x \<in> set rrs" "recordKeyRR d x = Some i" for x
      using ttl that by (auto simp: recordKeyRR_Some [OF law])
    have "T i = Some (ttl (fst i))" if "Some i \<notin> recordKeyRR d ` set added"
    proof -
      have "rr \<notin> set added" using that rr(2) by (metis imageI)
      then obtain old where "map_of orig i = Some old" "hTTL old = hTTL rr" using add rr by auto
      then show ?thesis using orig(1) [of i old] ttl_i [OF rr] by simp
    qed
    then have "diffMap d ttl del added T i = Some (ttl (fst i))" using True del_key by (simp add: diffMap_def Let_def)
    then show ?thesis using rr ttl_i by auto
  next
    case False
    then have "Some i \<notin> recordKeyRR d ` set added" using add by blast
    moreover have "T i = None \<or> Some i \<in> recordKeyRR d ` set del" using orig(2) [of i] del_key False by blast
    ultimately have "diffMap d ttl del added T i = None" by (auto simp: diffMap_def Let_def)
    then show ?thesis using False by (metis imageI option.distinct(1))
  qed
qed

lemma stored_state:
  assumes law: "pack_law d" and table: "tableOk rows" "readsBack d rows" "queryRRs d rows = Inr records"
    and state: "newState d z records = Inr st" "stOriginal st' = stOriginal st" "mapOk (stRRs st')"
    and soa: "\<forall>rr \<in> set records. hType rr \<noteq> TypeSOA"
    and diff: "changes d st' = Inr (del, added)" "ApplyRecordChanges d newid del added rows = Inr rows'"
  shows "tableOk rows'" "\<forall>rr \<in> set (recordsOf st'). recordKeyRR d rr \<noteq> None"
    "absTable rows' i = Some t \<longleftrightarrow> (\<exists>rr \<in> set (recordsOf st'). recordKeyRR d rr = Some i \<and> hTTL rr = t)"
proof -
  note orig = original_table [OF table state(1)] newState_state(6) [OF state(1)]
  obtain all: "\<forall>rr \<in> set (recordsOf st'). recordKeyRR d rr \<noteq> None"
    and add: "\<And>rr. rr \<in> set added \<longleftrightarrow> rr \<in> set (recordsOf st') \<and>
       (\<forall>old. map_of (stOriginal st) (the (recordKeyRR d rr)) = Some old \<longrightarrow> hTTL old \<noteq> hTTL rr)"
    and del: "\<And>rr. rr \<in> set del \<longleftrightarrow>
       (\<exists>k. map_of (stOriginal st) k = Some rr \<and> Some k \<notin> recordKeyRR d ` set (recordsOf st'))"
    by (rule changes_Inr [OF diff(1)]) (use newState_original [OF state(1)] orig(3) state(2) in auto)
  obtain ttl where ttl: "\<forall>rr \<in> set (recordsOf st'). hTTL rr = ttl (rrKey rr)"
    by (rule uniform_ttl [OF recordsOf_uniform [OF state(3)]])
  from diff(2) obtain rows1 where r: "foldE (deleteChange d) rows del = Inr rows1"
    "foldE (\<lambda>rows (i, rr). addChange d i rows rr) rows1 (zip [newid..<newid + length added] added) = Inr rows'"
    by (auto simp: ApplyRecordChanges_def bindE_Inr_iff)
  have d: "absTable rows1 = (\<lambda>i. if Some i \<in> recordKeyRR d ` set del then None else absTable rows i) \<and> tableOk rows1"
    by (rule deletes_abs [OF law _ r(1) table(1)]) (use orig(3) soa del in blast)
  have "\<forall>rr \<in> set added. hType rr \<noteq> TypeSOA \<and> recordKeyRR d rr \<noteq> None \<and> hTTL rr = ttl (rrKey rr)"
    using add all ttl by (simp add: recordsOf_iff [OF state(3)])
  from adds_abs [OF law this r(2)] d have a: "absTable rows' = diffMap d ttl del added (absTable rows)" and ok: "tableOk rows'"
    unfolding diffMap_def Let_def by auto
  show "tableOk rows'" "\<forall>rr \<in> set (recordsOf st'). recordKeyRR d rr \<noteq> None" by (rule ok all)+
  show "absTable rows' i = Some t \<longleftrightarrow> (\<exists>rr \<in> set (recordsOf st'). recordKeyRR d rr = Some i \<and> hTTL rr = t)"
    unfolding a by (rule diffMap_exact [OF law _ _ add del ttl]) (use orig in auto)
qed

text \<open>The rules only count records: fewer of the same keys obey them too.\<close>

lemma zoneOk_fewer:
  assumes "zoneOk nl apex ps" "set ps' = set ps" "\<And>k. count_list ps' k \<le> count_list ps k"
  shows "zoneOk nl apex ps'"
proof -
  have "count_list ps' k = 1" if "count_list ps k = 1" "k \<in> set ps'" for k
    using assms(3) [of k] that count_list_0_iff [of ps' k] by linarith
  moreover have "count_list ps' k \<le> 1" if "count_list ps k \<le> 1" for k using assms(3) [of k] that by linarith
  ultimately show ?thesis using assms(1,2) by (simp add: zoneOk_def ownerOk_def)
qed

lemma count_list_map: "count_list (map f xs) k = length (filter (\<lambda>x. f x = k) xs)"
  by (induction xs) auto

lemma table_rules:
  assumes "pack_law d" "tableOk rows" "\<forall>rr \<in> set rrs. recordKeyRR d rr \<noteq> None"
    "\<And>i t. absTable rows i = Some t \<longleftrightarrow> (\<exists>rr \<in> set rrs. recordKeyRR d rr = Some i \<and> hTTL rr = t)"
    "zoneOk nl apex (map rrKey rrs)"
  shows "zoneOk nl apex (map rowKey rows)"
proof -
  have key: "fst i = rrKey rr" if "recordKeyRR d rr = Some i" for rr i using that unfolding recordKeyRR_Some [OF assms(1)] by auto
  have "i \<in> rowIdent ` set rows \<longleftrightarrow> absTable rows i \<noteq> None" for i by (simp add: absTable_None)
  also have "absTable rows i \<noteq> None \<longleftrightarrow> (\<exists>rr \<in> set rrs. recordKeyRR d rr = Some i)" for i
    using assms(4) [of i] by (auto simp del: split_paired_Ex)
  finally have idents: "rowIdent ` set rows = (\<lambda>rr. the (recordKeyRR d rr)) ` set rrs" using assms(3) by force
  have fk: "fst (the (recordKeyRR d rr)) = rrKey rr" if "rr \<in> set rrs" for rr using that assms(3) key by fastforce
  have "rowKey ` set rows = fst ` rowIdent ` set rows" by (simp add: image_image)
  also have "\<dots> = rrKey ` set rrs" unfolding idents image_image using fk by (rule image_cong [OF refl])
  finally have sets: "set (map rowKey rows) = set (map rrKey rrs)" by simp
  have "count_list (map rowKey rows) k \<le> count_list (map rrKey rrs) k" for k
  proof -
    have "count_list (map rowKey rows) k = card (set (map rowIdent (filter (\<lambda>r. rowKey r = k) rows)))"
      using assms(2) by (simp add: count_list_map distinct_card distinct_map_filter tableOk_def del: set_map)
    also have "set (map rowIdent (filter (\<lambda>r. rowKey r = k) rows)) = {i \<in> rowIdent ` set rows. fst i = k}" by auto
    also have "\<dots> = set (map (\<lambda>rr. the (recordKeyRR d rr)) (filter (\<lambda>rr. rrKey rr = k) rrs))" unfolding idents using fk by auto
    finally show ?thesis using card_length [of "map (\<lambda>rr. the (recordKeyRR d rr)) (filter (\<lambda>rr. rrKey rr = k) rrs)"]
      by (simp add: count_list_map)
  qed
  from zoneOk_fewer [OF assms(5) sets this] show ?thesis .
qed

end
