(* ===== verification/Zone_Serving.thy ===== *)
theory Zone_Serving
  imports Zone_Edits
begin

text \<open>
  From a record edit to the served zone. An unsigned primary zone serves its SOA and its stored
  records; after every create, update or delete the version that \<open>Rebuild\<close> wrote from the edited
  RRsets alone serves exactly the SOA at its new serial and the rows of the table.
\<close>

section \<open>Rows as wire records\<close>

definition rowRec :: "'d dns_lib \<Rightarrow> zrecord \<Rightarrow> nzf_record" where
  "rowRec d r = \<lparr>rOwner = the (dlPackName d (zrOwner r)), rType = zrType r, rClass = 1, rTTL = zrTTL r, rRData = zrRData r\<rparr>"

text \<open>What the service relies on of the library: packed owners are valid names, unpacking a stored
  record and packing it again gives the same record, only SOA records unpack to SOA data, the zone's
  own SOA packs to one, and names without escapes that pack alike differ in case at most.\<close>

definition wire_law :: "'d dns_lib \<Rightarrow> bool" where
  "wire_law d \<longleftrightarrow> (\<forall>rr w. FromRR d rr = Some w \<longrightarrow> validOwner w) \<and>
     (\<forall>r rr. rowRR d r = Inr rr \<longrightarrow> FromRR d rr = Some (rowRec d r) \<and> (\<forall>s. rrData rr = RSOA s \<longrightarrow> zrType r = TypeSOA)) \<and>
     (\<forall>z w. FromRR d (zoneSOA z) = Some w \<longrightarrow> rType w = typeSOA) \<and>
     (\<forall>a b. CHR 0x5C \<notin> set a \<longrightarrow> CHR 0x5C \<notin> set b \<longrightarrow> dlPackName d a \<noteq> None \<longrightarrow> dlPackName d a = dlPackName d b \<longrightarrow>
       ToLower a = ToLower b)"

definition readable :: "'d dns_lib \<Rightarrow> zrecord \<Rightarrow> bool" where
  "readable d r \<longleftrightarrow> \<not> isl (rowRR d r)"

definition plainRow :: "'d dns_lib \<Rightarrow> zrecord \<Rightarrow> bool" where
  "plainRow d r \<longleftrightarrow> readable d r \<and> ManagedTypes (zrType r) \<and> CHR 0x5C \<notin> set (zrOwner r)"

lemma rowRec_key:
  assumes "wire_law d" "plainRow d r" "plainRow d s" "rowRec d r = rowRec d s"
  shows "rowKey r = rowKey s"
proof -
  have p: "dlPackName d (zrOwner x) \<noteq> None" if "plainRow d x" for x
    using that by (auto simp: plainRow_def readable_def rowRR_def split: option.splits)
  have "the (dlPackName d (zrOwner r)) = the (dlPackName d (zrOwner s))" "zrType r = zrType s"
    using assms(4) by (auto simp: rowRec_def)
  then have "dlPackName d (zrOwner r) = dlPackName d (zrOwner s)" using p [OF assms(2)] p [OF assms(3)] by (auto simp: option.expand)
  then have "ToLower (zrOwner r) = ToLower (zrOwner s)"
    using assms(1-3) p [OF assms(2)] unfolding wire_law_def plainRow_def by blast
  with \<open>zrType r = zrType s\<close> show ?thesis by (simp add: rowKey_def)
qed

lemma managed_not_soa: "ManagedTypes (rType w) \<Longrightarrow> \<not> isSOAData w" "\<not> ManagedTypes TypeSOA"
  by (auto simp: ManagedTypes_def isSOAData_def typeSOA_def TypeSOA_def TypeZONEMD_def TypeRRSIG_def TypeCNAME_def TypeDNAME_def
    TypeNS_def TypeDS_def)

section \<open>The environment\<close>

lemma hostEnv_sel [simp]:
  "foldTable (hostEnv d env rows) = foldTable env" "zstd (hostEnv d env rows) = zstd env"
  "unzstd (hostEnv d env rows) = unzstd env" "sha256 (hostEnv d env rows) = sha256 env"
  "mapOrder (hostEnv d env rows) = mapOrder env" "soaRR (hostEnv d env rows) = zoneSOA"
  "setSerialRR (hostEnv d env rows) = setSerialSOA" "signer (hostEnv d env rows) = signer env"
  "fromRR (hostEnv d env rows) = (\<lambda>rr. case FromRR d rr of None \<Rightarrow> Inl (External 2) | Some w \<Rightarrow> Inr w)"
  "storedRRs (hostEnv d env rows) = (case queryRRs d rows of Inl _ \<Rightarrow> Inl (External 3) | Inr rrs \<Rightarrow> Inr rrs)"
  by (simp_all add: hostEnv_def)

lemma hostEnv_env: "env_ok (hostEnv d env rows) = env_ok env" "storeInv (hostEnv d env rows) = storeInv env"
  by (auto simp: env_ok_def storeInv_def contentAddressed_def fun_eq_iff)

lemma readBlob_hostEnv: "readBlob (hostEnv d env rows) db k = readBlob env db k"
  by (simp add: readBlob_def Decompress_def split: option.split)

lemma loadDeltas_hostEnv: "loadDeltas (hostEnv d env rows) db ks m = loadDeltas env db ks m"
proof (induction ks arbitrary: m)
  case (Cons k ks)
  show ?case unfolding loadDeltas.simps readBlob_hostEnv hostEnv_sel Cons.IH by (rule refl)
qed simp

lemma loadServed_hostEnv: "loadServed (hostEnv d env rows) db z = loadServed env db z"
  unfolding loadServed_def readBlob_hostEnv loadDeltas_hostEnv hostEnv_sel by (rule refl)

lemma hostEnv_owners: "wire_law d \<Longrightarrow> owners_ok (hostEnv d env rows)"
  by (auto simp: owners_ok_def wire_law_def split: option.splits)

lemma rows_toRecords:
  assumes "wire_law d" "queryRRs d rows = Inr rrs"
  shows "toRecords (hostEnv d env r0) rrs = Inr (map (rowRec d) rows)" "\<forall>r \<in> set rows. readable d r"
    "\<forall>r \<in> set rows. zrType r \<noteq> TypeSOA \<Longrightarrow> map (setSerialSOA ns) rrs = rrs"
proof -
  have "list_all2 (\<lambda>r rr. rowRR d r = Inr rr) rows rrs" using assms(2) by (simp add: queryRRs_def mapE_Inr_iff)
  then show "toRecords (hostEnv d env r0) rrs = Inr (map (rowRec d) rows)" "\<forall>r \<in> set rows. readable d r"
    "\<forall>r \<in> set rows. zrType r \<noteq> TypeSOA \<Longrightarrow> map (setSerialSOA ns) rrs = rrs"
  proof (induction rows rrs rule: list_all2_induct)
    case (Cons r rows rr rrs)
    have rr: "FromRR d rr = Some (rowRec d r)" "\<And>s. rrData rr = RSOA s \<Longrightarrow> zrType r = TypeSOA"
      using assms(1) Cons.hyps(1) unfolding wire_law_def by blast+
    { case 1 show ?case using Cons.IH(1) rr(1) by (simp add: toRecords_def) }
    { case 2 show ?case using Cons.IH(2) Cons.hyps(1) by (simp add: readable_def) }
    { case 3 show ?case using Cons.IH(3) rr(2) 3 by (auto simp: setSerialSOA_def split: rdata.splits) }
  qed (simp_all add: toRecords_def)
qed

lemma queryRRs_readable: "\<forall>r \<in> set rows. readable d r \<Longrightarrow> \<exists>rrs. queryRRs d rows = Inr rrs"
proof (induction rows)
  case (Cons r rows)
  then obtain rrs rr where "queryRRs d rows = Inr rrs" "rowRR d r = Inr rr" by (auto simp: readable_def dest!: isl_def [THEN iffD1] split: sum.splits)
       (metis sum.collapse(2))
  then show ?case by (simp add: queryRRs_def)
qed (simp add: queryRRs_def)

lemma firstSets_set: "set (firstSets seen sets) \<union> set seen = lowerSets sets \<union> set seen"
  by (induction seen sets rule: firstSets.induct) (auto simp: lowerSets_def)

lemma loadRRsets_recs:
  assumes "wire_law d" "loadRRsets d rows sets = Inr out"
  shows "\<exists>b. toRecords (hostEnv d env r0) out = Inr b \<and> set b = rowRec d ` {r \<in> set rows. rowKey r \<in> lowerSets sets} \<and>
    (\<forall>r \<in> set rows. rowKey r \<in> lowerSets sets \<longrightarrow> readable d r)"
proof -
  from assms(2) obtain outs where o: "list_all2 (\<lambda>k o1. queryRRs d (filter (\<lambda>r. rowKey r = k) rows) = Inr o1) (firstSets [] sets) outs"
    "out = concat outs" by (auto simp: loadRRsets_def bindE_Inr_iff mapE_Inr_iff)
  have "\<exists>b. toRecords (hostEnv d env r0) (concat outs) = Inr b \<and> set b = rowRec d ` {r \<in> set rows. rowKey r \<in> set ks} \<and>
    (\<forall>r \<in> set rows. rowKey r \<in> set ks \<longrightarrow> readable d r)"
    if "list_all2 (\<lambda>k o1. queryRRs d (filter (\<lambda>r. rowKey r = k) rows) = Inr o1) ks outs" for ks
    using that
  proof (induction ks outs rule: list_all2_induct)
    case (Cons k ks o1 outs)
    note q = rows_toRecords [OF assms(1) Cons.hyps(1)]
    from Cons.IH obtain b where b: "toRecords (hostEnv d env r0) (concat outs) = Inr b"
      "set b = rowRec d ` {r \<in> set rows. rowKey r \<in> set ks}" "\<forall>r \<in> set rows. rowKey r \<in> set ks \<longrightarrow> readable d r" by blast
    have "mapE f (xs @ ys) = Inr (u @ v)" if "mapE f xs = Inr u" "mapE f ys = Inr v" for f :: "'a rr \<Rightarrow> zone_error + nzf_record" and xs ys u v
      using that by (auto simp: mapE_Inr_iff list_all2_appendI)
    from this [OF q(1) [unfolded toRecords_def] b(1) [unfolded toRecords_def]]
    have "toRecords (hostEnv d env r0) (concat (o1 # outs)) = Inr (map (rowRec d) (filter (\<lambda>r. rowKey r = k) rows) @ b)"
      by (simp add: toRecords_def)
    moreover have "set (map (rowRec d) (filter (\<lambda>r. rowKey r = k) rows) @ b) = rowRec d ` {r \<in> set rows. rowKey r \<in> set (k # ks)}"
      using b(2) by auto
    ultimately show ?case using q(2) b(3) by auto
  qed (simp add: toRecords_def)
  from this [OF o(1)] show ?thesis unfolding o(2) using firstSets_set [of "[]" sets] by simp
qed

section \<open>Serving the table\<close>

definition unsignedPrimary :: "zone_row \<Rightarrow> bool" where
  "unsignedPrimary z \<longleftrightarrow> zKind z = ''primary'' \<and> \<not> zDNSSEC z \<and> \<not> zZonemdGenerate z \<and> zCurrentSeq z > 0"

definition servesTable :: "'d dns_lib \<Rightarrow> 'd rr build_env \<Rightarrow> hosted \<Rightarrow> bool" where
  "servesTable d env h \<longleftrightarrow> storeInv env (hzStore h) (hzRow h) \<and>
     (\<exists>served soa. loadServed env (hzStore h) (hzRow h) = Inr served \<and> FromRR d (zoneSOA (hzRow h)) = Some soa \<and>
       set served = insert soa (rowRec d ` set (hzRecords h)))"

lemma awayFrom_set: "awayFrom K rows' = awayFrom K rows \<Longrightarrow> {r \<in> set rows'. rowKey r \<notin> K} = {r \<in> set rows. rowKey r \<notin> K}"
  by (drule arg_cong [where f = set_mset]) (simp add: awayFrom_def)

text \<open>The served records outside the edited RRsets stay, those inside are replaced.\<close>

lemma edited_recs:
  assumes "wire_law d" "\<forall>r \<in> set rows. plainRow d r" "awayFrom K rows' = awayFrom K rows"
  shows "rowRec d ` set rows' =
    rowRec d ` set rows - rowRec d ` {r \<in> set rows. rowKey r \<in> K} \<union> rowRec d ` {r \<in> set rows'. rowKey r \<in> K}"
proof -
  have "rowRec d ` set rows - rowRec d ` {r \<in> set rows. rowKey r \<in> K} = rowRec d ` {r \<in> set rows. rowKey r \<notin> K}"
  proof (intro equalityI subsetI)
    fix w assume "w \<in> rowRec d ` {r \<in> set rows. rowKey r \<notin> K}"
    then obtain r where r: "r \<in> set rows" "rowKey r \<notin> K" "w = rowRec d r" by blast
    have "w \<noteq> rowRec d s" if "s \<in> set rows" "rowKey s \<in> K" for s
      using rowRec_key [OF assms(1), of r s] assms(2) r that by auto
    then show "w \<in> rowRec d ` set rows - rowRec d ` {r \<in> set rows. rowKey r \<in> K}" using r by blast
  qed blast
  then show ?thesis using awayFrom_set [OF assms(3)] by blast
qed

lemma edit_served:
  fixes d :: "'d dns_lib"
  assumes law: "env_ok env" "wire_law d" and z: "unsignedPrimary (hzRow h)" and sv: "servesTable d env h"
    and plain: "\<forall>r \<in> set (hzRecords h). plainRow d r" "\<forall>r \<in> set rows. plainRow d r"
    and away: "awayFrom (lowerSets sets) rows = awayFrom (lowerSets sets) (hzRecords h)"
    and ld: "loadRRsets d (hzRecords h) sets = Inr old" "loadRRsets d rows sets = Inr new"
    and rb: "rebuildHosted d env \<lparr>opEdit = Some \<lparr>edBefore = old, edAfter = new\<rparr>, opSerial = None, opForce = False\<rparr>
      (h\<lparr>hzRecords := rows, hzRevision := n\<rparr>) = Inr h'"
    and size: "sizesOk (hzStore h')"
  shows "servesTable d env h' \<and> unsignedPrimary (hzRow h') \<and> hzRecords h' = rows"
proof -
  let ?E = "hostEnv d env rows" and ?K = "lowerSets sets" and ?z = "hzRow h" and ?db = "hzStore h"
  let ?ed = "\<lparr>edBefore = old, edAfter = new\<rparr>"
  from rb z obtain b db' z' where re: "rebuildEdit ?E ?db ?z ?ed None = Inr (b, db', z')"
    and h': "h' = h\<lparr>hzRecords := rows, hzRevision := n, hzStore := db', hzRow := z'\<rparr>"
    by (auto simp: rebuildHosted_def Rebuild_def unsignedPrimary_def generateZonemd_def split: sum.splits)
  from sv obtain served soa where inv: "storeInv ?E ?db ?z" and s: "loadServed ?E ?db ?z = Inr served"
    "FromRR d (zoneSOA ?z) = Some soa" "set served = insert soa (rowRec d ` set (hzRecords h))"
    unfolding servesTable_def hostEnv_env loadServed_hostEnv by blast
  have E: "env_ok ?E" "owners_ok ?E" using law hostEnv_owners by (auto simp: hostEnv_env)
  have soa: "isSOAData soa" "rType soa = typeSOA" using law(2) s(2) by (auto simp: wire_law_def isSOAData_def)
  have ns: "\<not> isSOAData (rowRec d r)" if "plainRow d r" for r
    by (rule managed_not_soa) (use that in \<open>simp add: plainRow_def rowRec_def\<close>)
  have nsoa: "soa \<notin> rowRec d ` set (hzRecords h)" using soa(1) ns plain(1) by blast
  obtain o1 where o1: "toRecords ?E old = Inr o1" "set o1 = rowRec d ` {r \<in> set (hzRecords h). rowKey r \<in> ?K}"
    using loadRRsets_recs [OF law(2) ld(1)] by blast
  obtain n1 where n1: "toRecords ?E new = Inr n1" "set n1 = rowRec d ` {r \<in> set rows. rowKey r \<in> ?K}"
    using loadRRsets_recs [OF law(2) ld(2)] by blast
  note recs = edited_recs [OF law(2) plain(1) away]
  have z': "\<exists>i t c. z' = ?z\<lparr>zImageSeq := i, zSerial := t, zCurrentSeq := c\<rparr>"
    by (rule Rebuild_row [of ?E ?db ?z "\<lparr>opEdit = Some ?ed, opSerial = None, opForce = False\<rparr>" b db'])
      (use re z in \<open>simp add: Rebuild_def unsignedPrimary_def generateZonemd_def\<close>)
  show ?thesis
  proof (cases b)
    case True
    obtain rrs where q: "queryRRs d rows = Inr rrs" using queryRRs_readable plain(2) by (metis plainRow_def)
    have m: "\<forall>r \<in> set rows. zrType r \<noteq> TypeSOA" using plain(2) managed_not_soa(2) by (auto simp: plainRow_def)
    note t = rows_toRecords [OF law(2) q]
    have stored: "bindE (desiredRRs ?E ?z) (\<lambda>d. toRecords ?E (setSOASerial ?E d ns)) =
        bindE (fromRR ?E (setSerialRR ?E ns (soaRR ?E ?z))) (\<lambda>soa. Inr (soa # map (rowRec d) rows))" for ns
      using t(1) t(3) [OF m] q by (simp add: desiredRRs_def setSOASerial_def toRecords_def)
    have new: "\<exists>newSOA served. fromRR ?E (setSerialRR ?E (zSerial z') (soaRR ?E ?z)) = Inr newSOA \<and>
        loadServed ?E db' z' = Inr served \<and> set served = insert newSOA (set (map (rowRec d) rows)) \<and> distinct served"
    proof (rule rebuildEdit_loads [OF E inv s(1) _ _ _ _ _ _ stored])
      show "{r \<in> set served. isSOAData r} = {soa}" using s(3) soa(1) ns plain(1) by auto
      show "set o1 \<subseteq> set served - {soa}" using o1(2) s(3) nsoa by blast
      show "\<forall>r \<in> set n1. \<not> isSOAData r" unfolding n1(2) using ns plain(2) by auto
      show "set (map (rowRec d) rows) = set served - {soa} - set o1 \<union> set n1"
        unfolding set_map recs s(3) o1(2) n1(2) using nsoa by simp
    qed (use s(2) o1(1) n1(1) re True size h' in auto)
    have "setSerialSOA (zSerial z') (zoneSOA ?z :: 'd rr) = zoneSOA z'" using z' by (auto simp: setSerialSOA_def zoneSOA_def)
    with new obtain newSOA served' where "FromRR d (zoneSOA z') = Some newSOA" "loadServed env db' z' = Inr served'"
      "set served' = insert newSOA (rowRec d ` set rows)" by (auto simp: loadServed_hostEnv split: option.splits)
    moreover have "storeInv ?E db' z' \<and> zCurrentSeq z' > 0"
      using re True z by (auto elim!: rebuildEdit_True dest!: writeVersion_inv [OF inv] simp: unsignedPrimary_def)
    ultimately show ?thesis using z z' unfolding servesTable_def hostEnv_env h' by (auto simp: unsignedPrimary_def)
  next
    case False
    with re rebuildEdit_False have e: "db' = ?db" "z' = ?z" "diffIgnoringSOA o1 n1 = ([], [])" using o1(1) n1(1) by fastforce+
    have same: "{r \<in> set o1. \<not> isSOAData r} = {r \<in> set n1. \<not> isSOAData r}"
      using diffIgnoringSOA_set [OF _ _ e(3)] toRecords_valid [OF E(2)] o1(1) n1(1) by auto
    have "\<forall>r \<in> set o1. \<not> isSOAData r" "\<forall>r \<in> set n1. \<not> isSOAData r" unfolding o1(2) n1(2) using ns plain by auto
    then have "set o1 = set n1" using same by (simp add: set_eq_iff) blast
    then have "rowRec d ` set rows = rowRec d ` set (hzRecords h)" unfolding recs o1(2) n1(2) by blast
    then show ?thesis using sv z unfolding servesTable_def h' e(1,2) by simp
  qed
qed

text \<open>The unsigned zones a theorem is about: the served set is the table, whose owners have no escapes.\<close>

definition servedZone :: "'d dns_lib \<Rightarrow> 'd rr build_env \<Rightarrow> hosted \<Rightarrow> bool" where
  "servedZone d env h \<longleftrightarrow> unsignedPrimary (hzRow h) \<and> tableOk (hzRecords h) \<and> servesTable d env h \<and>
     (\<forall>r \<in> set (hzRecords h). plainRow d r)"

definition unescaped :: "hosted \<Rightarrow> bool" where
  "unescaped h \<longleftrightarrow> (\<forall>r \<in> set (hzRecords h). CHR 0x5C \<notin> set (zrOwner r))"

context row_change
begin

lemma edit_serves:
  assumes "env_ok env" "wire_law d" "servedZone d env h" "pre (hzRecords h)" "\<forall>k \<in> set sets. ManagedTypes (snd k)"
    "MutateFenced d env publish fence (\<lambda>h. g h) (Some h) = Inr (h', x)"
    "\<And>h1 opts. g h = Inr (h1, opts, x) \<Longrightarrow> recordEdit d h owners sets change = Inr (h1, opts, x)"
    "unescaped h'" "sizesOk (hzStore h')"
  shows "servedZone d env h'"
  using assms(6)
proof (rule MutateFenced_Inr)
  note z = assms(3) [unfolded servedZone_def]
  fix h0 h1 opts
  assume h0: "Some h = Some h0" "g h0 = Inr (h1, opts, x)" and rec: "hzRecords h' = hzRecords h1"
    and rb: "zKind (hzRow h1) = ''primary'' \<or> opSerial opts \<noteq> None \<longrightarrow>
      rebuildHosted d env opts (h1\<lparr>hzRevision := hzRevision h1 + 1\<rparr>) = Inr h'"
  from assms(7) h0 have "recordEdit d h owners sets change = Inr (h1, opts, x)" by simp
  then show "servedZone d env h'"
  proof (rule recordEdit_Inr)
    fix old rows new
    assume c: "loadRRsets d (hzRecords h) sets = Inr old" "change (hzRecords h) = Inr (rows, x)"
      "loadRRsets d rows sets = Inr new" "h1 = h\<lparr>hzRecords := rows\<rparr>"
      "opts = \<lparr>opEdit = Some \<lparr>edBefore = old, edAfter = new\<rparr>, opSerial = None, opForce = False\<rparr>"
    have aw: "awayFrom (lowerSets sets) rows = awayFrom (lowerSets sets) (hzRecords h)" and tb: "tableOk rows"
      using away [OF _ assms(4) c(2)] table [OF _ assms(4) c(2)] z by auto
    have plain: "plainRow d r" if r: "r \<in> set rows" for r
    proof (cases "rowKey r \<in> lowerSets sets")
      case True
      then have "readable d r" using loadRRsets_recs [OF assms(2) c(3)] r by blast
      moreover from True have "ManagedTypes (zrType r)" using assms(5) by (auto simp: lowerSets_def rowKey_def)
      moreover have "CHR 0x5C \<notin> set (zrOwner r)" using assms(8) r rec c(4) by (simp add: unescaped_def)
      ultimately show ?thesis by (simp add: plainRow_def)
    next
      case False
      then have "r \<in> set (hzRecords h)" using awayFrom_set [OF aw] r by blast
      then show ?thesis using z by blast
    qed
    have "zKind (hzRow h1) = ''primary''" using z c(4) by (simp add: unsignedPrimary_def)
    with rb have "rebuildHosted d env opts (h\<lparr>hzRecords := rows, hzRevision := hzRevision h + 1\<rparr>) = Inr h'" unfolding c(4) by simp
    from edit_served [OF assms(1,2) _ _ _ _ aw c(1,3) this [unfolded c(5)] assms(9)] z plain tb
    show ?thesis unfolding servedZone_def by auto
  qed
qed

end

lemma ParseRecord_managed: "ParseRecord d z inp = Inr (rr, pres) \<Longrightarrow> ManagedTypes (hType rr)"
  by (auto simp: ParseRecord_def bindE_Inr_iff split: option.splits)

lemma zone_edit_serves:
  fixes d :: "'d dns_lib"
  assumes "env_ok env" "wire_law d" "type_law d" "servedZone d env h" "zone_edit d env h h'" "unescaped h'" "sizesOk (hzStore h')"
  shows "servedZone d env h'"
  using assms(5)
proof cases
  case (created publish newid inp r)
  from created obtain h1 opts where "createEdit d newid inp h = Inr (h1, opts, r)"
    unfolding CreateRecord_def Mutate_def by (rule MutateFenced_Inr) auto
  then obtain rr pres where p: "ParseRecord d (zName (hzRow h)) inp = Inr (rr, pres)"
    by (auto simp: createEdit_def bindE_Inr_iff)
  show ?thesis
    by (rule cc.edit_serves [OF assms(1,2,4) _ _ created [unfolded CreateRecord_def Mutate_def] _ assms(6,7),
        where owners = "[hName rr]" and rr = rr and da = d and newid = newid])
      (use p ParseRecord_managed [OF p] in \<open>auto simp: createEdit_def bindE_Inr_iff\<close>)
next
  case (updated publish i revision inp r)
  from updated obtain h1 opts where "updateEdit d i revision inp h = Inr (h1, opts, r)"
    unfolding UpdateRecord_def Mutate_def by (rule MutateFenced_Inr) auto
  then obtain rr pres old w where p: "ParseRecord d (zName (hzRow h)) inp = Inr (rr, pres)"
      "lockRecord (hzRecords h) i revision = Inr old" "FromRR d rr = Some w"
    by (auto simp: updateEdit_def bindE_Inr_iff split: option.splits)
  have "old \<in> set (hzRecords h)" "ManagedTypes (zrType old)"
    using lockRecord_Inr [OF p(2)] assms(4) by (auto simp: servedZone_def plainRow_def)
  then show ?thesis
    by (intro uc.edit_serves [OF assms(1,2,4) _ _ updated [unfolded UpdateRecord_def Mutate_def] _ assms(6,7),
        where owners = "[zrOwner old, hName rr]" and old = old and rr = rr and pres = pres and rdata = "rRData w"])
      (use p ParseRecord_managed [OF p(1)] assms(3) in \<open>auto simp: updateEdit_def bindE_Inr_iff type_law_def\<close>)
next
  case (removed publish i revision r)
  from removed obtain h1 opts where "deleteEdit d i revision h = Inr (h1, opts, r)"
    unfolding DeleteRecord_def Mutate_def by (rule MutateFenced_Inr) auto
  then obtain old where p: "lockRecord (hzRecords h) i revision = Inr old"
    by (auto simp: deleteEdit_def bindE_Inr_iff)
  have "old \<in> set (hzRecords h)" "ManagedTypes (zrType old)"
    using lockRecord_Inr [OF p] assms(4) by (auto simp: servedZone_def plainRow_def)
  then show ?thesis
    by (intro dc.edit_serves [OF assms(1,2,4) _ _ removed [unfolded DeleteRecord_def Mutate_def] _ assms(6,7),
        where owners = "[zrOwner old]" and old = old])
      (use p assms(3) in \<open>auto simp: deleteEdit_def bindE_Inr_iff type_law_def\<close>)
qed

section \<open>An example zone\<close>

text \<open>A library that knows the names \<open>ab.\<close> and \<open>w.ab.\<close>, and a zone with one nameserver record.\<close>

lemma FromRR_wire:
  assumes "dlPackRR d rr = Some (wireRR w)" "dlPackName d (hName rr) = Some (rOwner w)" "length (rRData w) \<le> 65535"
  shows "FromRR d rr = Some w"
proof -
  have "unat (of_nat (length (rRData w)) :: u16) = length (rRData w)" using assms(3) by (simp add: unat_of_nat take_bit_nat_eq_self)
  then show ?thesis using assms by (simp add: FromRR_def wireRR_def)
qed

lemma wireRR_inj:
  assumes "wireRR v = wireRR w" "rOwner v = rOwner w"
  shows "rType v = rType w \<and> rClass v = rClass w \<and> rTTL v = rTTL w \<and> rRData v = rRData w"
proof -
  have "put_u16 (rType v) @ put_u16 (rClass v) @ put_u32 (rTTL v) @ put_u16 (of_nat (length (rRData v))) @ rRData v =
    put_u16 (rType w) @ put_u16 (rClass w) @ put_u32 (rTTL w) @ put_u16 (of_nat (length (rRData w))) @ rRData w"
    using assms unfolding wireRR_def by simp
  from put_u16_inj [OF this] show ?thesis using put_u16_inj put_u32_inj by metis
qed

definition exPackName :: "string \<Rightarrow> byte list option" where
  "exPackName w = (if w = ''ab.'' then Some [2, 97, 98, 0] else if w = ''w.ab.'' then Some [1, 119, 2, 97, 98, 0] else None)"

definition exWire :: "byte list \<Rightarrow> byte list rr \<Rightarrow> nzf_record" where
  "exWire own r = \<lparr>rOwner = own, rType = hType r, rClass = hClass r, rTTL = hTTL r,
     rRData = (case rrData r of ROther b \<Rightarrow> take 65535 b | RSOA s \<Rightarrow> [0, 0] @ put_u32 (dsSerial s) @ replicate 16 0)\<rparr>"

definition exNS :: "byte list rr" where
  "exNS = \<lparr>hName = ''ab.'', hType = 2, hClass = 1, hTTL = 300, hRdlength = 1, rrData = ROther [0]\<rparr>"

definition exAddr :: "byte list rr" where
  "exAddr = \<lparr>hName = ''w.ab.'', hType = 1, hClass = 1, hTTL = 60, hRdlength = 4, rrData = ROther [10, 0, 0, 1]\<rparr>"

definition exLib :: "byte list dns_lib" where
  "exLib = \<lparr>dlNextLabel = exNextLabel, dlIsDomainName = (\<lambda>_. True), dlIsFqdn = (\<lambda>_. True), dlFqdn = id,
     dlIsSubDomain = (\<lambda>z w. HasSuffix w z), dlCanonicalName = ToLower,
     dlStringToType = (\<lambda>s. if s = ''A'' then Some 1 else if s = ''NS'' then Some 2 else None),
     dlTypeToString = (\<lambda>t. if t = 1 then ''A'' else if t = 2 then ''NS'' else []),
     dlNewRR = (\<lambda>_. Some (Some exAddr)), dlString = (\<lambda>_. []),
     dlPackRR = (\<lambda>r. case exPackName (hName r) of None \<Rightarrow> None | Some own \<Rightarrow> Some (wireRR (exWire own r))),
     dlPackName = exPackName,
     dlUnpackRR = (\<lambda>b. if b = wireRR (exWire [2, 97, 98, 0] exNS) then Some exNS
       else if b = wireRR (exWire [1, 119, 2, 97, 98, 0] exAddr) then Some exAddr else None),
     dlIsDuplicate = (\<lambda>a b. hName a = hName b \<and> hType a = hType b \<and> hClass a = hClass b \<and> rrData a = rrData b)\<rparr>"

lemma exLib_sel: "dlNextLabel exLib = exNextLabel" "dlPackName exLib = exPackName"
  by (simp_all add: exLib_def)

lemma exLib_type: "type_law exLib"
  unfolding type_law_def
proof
  fix t :: u16
  have "unat t < 2 ^ 16" using unsigned_less [of t] by simp
  from ParseUint_showNat [OF this] show "rtypeOf exLib (typeName exLib t) = t"
    by (simp add: rtypeOf_def typeName_def exLib_def HasPrefix_def)
qed

lemma exLib_FromRR: "FromRR exLib rr = (case exPackName (hName rr) of None \<Rightarrow> None | Some own \<Rightarrow> Some (exWire own rr))"
proof (cases "exPackName (hName rr)")
  case (Some own)
  have "FromRR exLib rr = Some (exWire own rr)"
    by (rule FromRR_wire) (use Some in \<open>auto simp: exLib_def exWire_def split: rdata.splits\<close>)
  then show ?thesis using Some by simp
qed (simp add: FromRR_def exLib_def)

lemma exLib_wire: "wire_law exLib"
  unfolding wire_law_def exLib_FromRR exLib_sel
proof (intro conjI allI impI)
  have v: "validName [2, 97, 98, 0] = Inr ()" "validName [1, 119, 2, 97, 98, 0] = Inr ()" by code_simp+
  fix rr :: "byte list rr" and w assume "(case exPackName (hName rr) of None \<Rightarrow> None | Some own \<Rightarrow> Some (exWire own rr)) = Some w"
  then show "validOwner w" using v by (auto simp: exPackName_def exWire_def validOwner_def split: if_splits)
next
  fix z :: zone_row and w
  assume "(case exPackName (hName (zoneSOA z :: byte list rr)) of None \<Rightarrow> None | Some own \<Rightarrow> Some (exWire own (zoneSOA z))) = Some w"
  then show "rType w = typeSOA" by (auto simp: exWire_def zoneSOA_def TypeSOA_def typeSOA_def split: option.splits)
next
  fix a b assume "exPackName a \<noteq> None" "exPackName a = exPackName b"
  then show "ToLower a = ToLower b" by (auto simp: exPackName_def split: if_splits)
next
  fix r and rr :: "byte list rr" assume "rowRR exLib r = Inr rr"
  then obtain own where own: "exPackName (zrOwner r) = Some own" and
    u: "dlUnpackRR exLib (wireRR \<lparr>rOwner = own, rType = zrType r, rClass = 1, rTTL = zrTTL r, rRData = zrRData r\<rparr>) = Some rr"
    by (auto simp: rowRR_def ToRR_def exLib_sel split: option.splits if_splits)
  let ?w = "\<lparr>rOwner = own, rType = zrType r, rClass = 1, rTTL = zrTTL r, rRData = zrRData r\<rparr>"
  have own2: "own = [2, 97, 98, 0] \<or> own = [1, 119, 2, 97, 98, 0]" using own by (auto simp: exPackName_def split: if_splits)
  have "\<exists>rr0. rr = rr0 \<and> exPackName (hName rr0) = Some own \<and> wireRR ?w = wireRR (exWire own rr0) \<and> rrData rr0 \<noteq> RSOA s" for s
    using u own2 by (auto simp: exLib_def exNS_def exAddr_def exPackName_def wireRR_def exWire_def split: if_splits)
  then have rr: "exPackName (hName rr) = Some own" "wireRR ?w = wireRR (exWire own rr)" "\<And>s. rrData rr \<noteq> RSOA s" by blast+
  have "exWire own rr = ?w" using wireRR_inj [OF rr(2)] by (simp add: exWire_def)
  then show "(case exPackName (hName rr) of None \<Rightarrow> None | Some own \<Rightarrow> Some (exWire own rr)) = Some (rowRec exLib r)"
    using rr(1) own by (simp add: rowRec_def exLib_sel)
  show "zrType r = TypeSOA" if "rrData rr = RSOA s" for s using that rr(3) by blast
qed

definition exEnvB :: "byte list rr build_env" where
  "exEnvB = \<lparr>fromRR = (\<lambda>_. Inl (External 0)), soaRR = zoneSOA, setSerialRR = setSerialSOA, storedRRs = Inr [],
     zmdPlaceholder = zoneSOA, zmdApply = (\<lambda>_ rrs. Inr rrs), signer = None, wireName = (\<lambda>_. Inl (External 0)),
     foldTable = id, zstd = id, unzstd = Inr, sha256 = id, mapOrder = id\<rparr>"

definition exImage :: "byte list" where
  "exImage = [78, 90, 70, 49, 1, 0, 4, 2, 97, 98, 0, 0, 0, 0, 7, 0, 0, 0, 0, 0, 0, 0, 2, 0, 0, 0, 0, 4, 2, 97, 98, 0, 0, 2,
     0, 1, 0, 0, 1, 44, 0, 1, 0, 4, 2, 97, 98, 0, 0, 6, 0, 1, 0, 0, 1, 44, 0, 22, 0, 0, 0, 0, 0, 7, 0, 0, 0, 0, 0,
     0, 0, 0, 0, 0, 0, 0, 0, 0, 0, 0]"

definition exDelta :: "byte list" where
  "exDelta = [78, 90, 70, 49, 2, 0, 4, 2, 97, 98, 0, 0, 0, 0, 8, 0, 0, 0, 7, 0, 0, 0, 1, 0, 0, 0, 2, 4, 2, 97, 98, 0, 0, 6,
     0, 1, 0, 0, 1, 44, 0, 22, 0, 0, 0, 0, 0, 7, 0, 0, 0, 0, 0, 0, 0, 0, 0, 0, 0, 0, 0, 0, 0, 0, 4, 2, 97, 98, 0,
     0, 6, 0, 1, 0, 0, 1, 44, 0, 22, 0, 0, 0, 0, 0, 8, 0, 0, 0, 0, 0, 0, 0, 0, 0, 0, 0, 0, 0, 0, 0, 0, 6, 1, 119,
     2, 97, 98, 0, 0, 1, 0, 1, 0, 0, 0, 60, 0, 4, 10, 0, 0, 1]"

definition exHost1 :: hosted where
  "exHost1 = \<lparr>hzRow = exZone1, hzRevision = 1, hzUpdateKeys = [5], hzProducer = False,
     hzRecords = [\<lparr>zrID = 1, zrOwner = ''ab.'', zrType = 2, zrTTL = 300, zrData = [], zrRData = [0], zrRev = 1\<rparr>],
     hzStore = \<lparr>dbImages = [\<lparr>irSeq = 1, irSerial = 7, irSha = exImage, irSize = 80\<rparr>], dbJournal = [],
       dbBlobs = [(exImage, exImage)]\<rparr>\<rparr>"

definition exInput :: record_input where
  "exInput = \<lparr>riName = ''w.ab.'', riType = ''a'', riTTL = 60, riData = ''10.0.0.1''\<rparr>"

definition exNew :: zrecord where
  "exNew = \<lparr>zrID = 2, zrOwner = ''w.ab.'', zrType = 1, zrTTL = 60, zrData = [], zrRData = [10, 0, 0, 1], zrRev = 1\<rparr>"

definition exHost2 :: hosted where
  "exHost2 = exHost1\<lparr>hzRow := exZone1\<lparr>zSerial := 8, zCurrentSeq := 2\<rparr>, hzRevision := 2, hzRecords := hzRecords exHost1 @ [exNew],
     hzStore := \<lparr>dbImages = dbImages (hzStore exHost1),
       dbJournal = [\<lparr>jrSeq = 2, jrFrom = 7, jrTo = 8, jrSha = exDelta, jrSize = 122\<rparr>],
       dbBlobs = [(exDelta, exDelta), (exImage, exImage)]\<rparr>\<rparr>"

lemma exHost_edit: "zone_edit exLib exEnvB exHost1 exHost2"
proof (rule zone_edit.created)
  show "CreateRecord exLib exEnvB (\<lambda>_. Inr ()) 2 exInput (Some exHost1) = Inr (exHost2, exNew)" by code_simp
qed

lemma exHost1_served: "servedZone exLib exEnvB exHost1"
proof -
  let ?l = "loadServed exEnvB (hzStore exHost1) (hzRow exHost1)"
  have "unsignedPrimary (hzRow exHost1)" by code_simp
  moreover have "tableOk (hzRecords exHost1)" by code_simp
  moreover have "list_all (plainRow exLib) (hzRecords exHost1)" by code_simp
  moreover have "storeInv exEnvB (hzStore exHost1) (hzRow exHost1)" by code_simp
  moreover have "?l = Inr [exWire [2, 97, 98, 0] exNS, exWire [2, 97, 98, 0] (zoneSOA exZone1)]" by code_simp
  moreover have "FromRR exLib (zoneSOA (hzRow exHost1)) = Some (exWire [2, 97, 98, 0] (zoneSOA exZone1))"
    by (simp add: exLib_FromRR exPackName_def zoneSOA_def exZone1_def exHost1_def)
  moreover have "rowRec exLib ` set (hzRecords exHost1) = {exWire [2, 97, 98, 0] exNS}"
    by (simp add: rowRec_def exHost1_def exLib_sel exPackName_def exWire_def exNS_def)
  ultimately show ?thesis by (auto simp: servedZone_def servesTable_def list_all_iff)
qed

section \<open>Properties\<close>



text \<open>C22. Record edits keep a zone lawful. Over any sequence of creates, updates and deletes, a zone whose
  records obey the zone rules, are distinct and have one TTL per RRset stays so.\<close>

theorem record_edits_keep_rules:
  assumes "label_law (dlNextLabel d)" "type_law d" "(zone_edit d env)\<^sup>*\<^sup>* h h'"
    "rowsInv (dlNextLabel d) (zName (hzRow h)) (hzRecords h)"
  shows "zoneOk (dlNextLabel d) (ToLower (zName (hzRow h'))) (map rowKey (hzRecords h')) \<and>
    distinct (map rowIdent (hzRecords h')) \<and> ttlUniform (hzRecords h')"
proof -
  from assms(3,4) have "hostInv d h'" by induction (use zone_edit_keeps [OF assms(1,2)] in blast)+
  then show ?thesis by (simp add: rowsInv_def tableOk_def)
qed

theorem record_edits_keep_rules_witness: "zoneOk exNextLabel ''ab.'' (map rowKey (hzRecords exHost2)) \<and> length (hzRecords exHost2) = 2"
proof -
  have "CheckSet exNextLabel ''ab.'' [exRR ''ab.'' 2] = Inr ()" by code_simp
  then have "zoneOk exNextLabel (ToLower ''ab.'') (map rrKey [exRR ''ab.'' 2])" unfolding CheckSet_iff .
  moreover have "map rrKey [exRR ''ab.'' 2] = map rowKey (hzRecords exHost1)" "zName (hzRow exHost1) = ''ab.''"
    "tableOk (hzRecords exHost1)" "ToLower ''ab.'' = ''ab.''" "length (hzRecords exHost2) = 2" "zName (hzRow exHost2) = ''ab.''" by code_simp+
  ultimately show ?thesis
    using record_edits_keep_rules [of exLib exEnvB exHost1 exHost2] exNextLabel_laws(1) exLib_type exHost_edit
    by (simp add: exLib_sel rowsInv_def r_into_rtranclp)
qed

end
