(* ===== verification/Update_Apply.thy ===== *)
theory Update_Apply
  imports Update_Diff Zone_Serving
begin

text \<open>
  The meaning of the prerequisites of an update over the records of a zone, what an update that was
  applied went through, and a concrete run of one.
\<close>

section \<open>Prerequisites\<close>

definition rrsetOf :: "'d rr list \<Rightarrow> string \<Rightarrow> u16 \<Rightarrow> 'd rr list" where
  "rrsetOf rrs w t = filter (\<lambda>rr. rrKey rr = (w, t)) rrs"

text \<open>RFC 2136, section 3.2, over the records of a zone: a name is (not) in use, an RRset does (not)
  exist, or an RRset is exactly the one the prerequisites list.\<close>

definition prereqHolds :: "'d dns_lib \<Rightarrow> string \<Rightarrow> 'd rr list \<Rightarrow> 'd rr \<Rightarrow> bool" where
  "prereqHolds d apex rrs p \<longleftrightarrow>
     (let w = ToLower (hName p);
          there = (if hType p = TypeANY then \<exists>rr \<in> set rrs. ToLower (hName rr) = w else rrsetOf rrs w (hType p) \<noteq> []) in
      hTTL p = 0 \<and> dlIsSubDomain d apex w \<and>
      (hClass p = ClassANY \<and> hRdlength p = 0 \<and> there \<or> hClass p = ClassNONE \<and> hRdlength p = 0 \<and> \<not> there \<or> hClass p = ClassINET))"

definition prereqsHold :: "'d dns_lib \<Rightarrow> string \<Rightarrow> 'd rr list \<Rightarrow> 'd rr list \<Rightarrow> bool" where
  "prereqsHold d apex rrs prs \<longleftrightarrow> (\<forall>p \<in> set prs. prereqHolds d apex rrs p) \<and>
     (\<forall>p \<in> set prs. hClass p = ClassINET \<longrightarrow>
        sameSet d (filter (\<lambda>q. hClass q = ClassINET \<and> rrKey q = rrKey p) prs) (rrsetOf rrs (ToLower (hName p)) (hType p)))"

lemma classes_neq: "ClassANY \<noteq> ClassNONE" "ClassANY \<noteq> ClassINET" "ClassNONE \<noteq> ClassINET"
  by (simp_all add: ClassANY_def ClassNONE_def ClassINET_def)

definition collect :: "((string \<times> u16) \<times> 'd rr list) list \<Rightarrow> 'd rr \<Rightarrow> ((string \<times> u16) \<times> 'd rr list) list" where
  "collect temp p = (if hClass p = ClassINET
     then AList.update (rrKey p) ((case map_of temp (rrKey p) of None \<Rightarrow> [] | Some x \<Rightarrow> x) @ [p]) temp else temp)"

lemma setAt_nonempty: "setAt ts t \<noteq> [] \<longleftrightarrow> (\<exists>s. map_of ts t = Some s \<and> s \<noteq> [])"
  by (auto simp: setAt_def split: option.split)

lemma newState_exists:
  fixes d :: "'d dns_lib"
  assumes "newState d z records = Inr st"
  shows "nameExists st w \<longleftrightarrow> (\<exists>rr \<in> set (apexSOA d z # records). ToLower (hName rr) = w)"
proof -
  have dist: "distinct (map fst (rrsAt (stRRs st) w))" using newState_state(2) [OF assms] by (simp add: distinctMap_def)
  have "nameExists st w \<longleftrightarrow> (\<exists>t. setAt (rrsAt (stRRs st) w) t \<noteq> [])"
    unfolding nameExists_def list_ex_iff setAt_nonempty using map_of_eq_Some_iff [OF dist] by fastforce
  also have "\<dots> \<longleftrightarrow> (\<exists>t. \<exists>rr \<in> set (apexSOA d z # records). rrKey rr = (w, t))"
    unfolding newState_state(1) [OF assms] filter_empty_conv by blast
  finally show ?thesis by (auto simp: rrKey_def)
qed

lemma prerequisite_Inr:
  assumes "newState d z records = Inr st"
  shows "prerequisite d st temp p = Inr temp' \<longleftrightarrow>
    prereqHolds d (dlCanonicalName d (zName z)) (apexSOA d z # records) p \<and> temp' = collect temp p"
proof -
  have w: "(ToLower (hName p), hType p) = rrKey p" by (simp add: rrKey_def)
  show ?thesis
    unfolding prerequisite_def prereqHolds_def Let_def collect_def inZone_def newState_state(3) [OF assms] newState_exists [OF assms]
      newState_state(1) [OF assms] rrsetOf_def w failR_def
    using classes_neq by (cases "hType p = TypeANY") auto
qed

lemma collect_all:
  "map_of (foldl collect temp prs) k =
    (if filter (\<lambda>q. hClass q = ClassINET \<and> rrKey q = k) prs = [] then map_of temp k
     else Some ((case map_of temp k of None \<Rightarrow> [] | Some x \<Rightarrow> x) @ filter (\<lambda>q. hClass q = ClassINET \<and> rrKey q = k) prs))"
  by (induction prs arbitrary: temp) (auto simp: collect_def update_conv')

lemma collect_distinct: "distinct (map fst temp) \<Longrightarrow> distinct (map fst (foldl collect temp prs))"
  by (induction prs arbitrary: temp) (auto simp: collect_def distinct_update)

lemma collect_iff: "(k, s) \<in> set (foldl collect [] prs) \<longleftrightarrow>
    s = filter (\<lambda>q. hClass q = ClassINET \<and> rrKey q = k) prs \<and> s \<noteq> []"
proof -
  have "(k, s) \<in> set (foldl collect [] prs) \<longleftrightarrow> map_of (foldl collect [] prs) k = Some s"
    using collect_distinct [of "[]" prs] by simp
  then show ?thesis by (auto simp: collect_all)
qed

lemma prerequisites_fold:
  assumes "newState d z records = Inr st"
  shows "foldE (prerequisite d st) temp prs = Inr temp' \<longleftrightarrow>
    (\<forall>p \<in> set prs. prereqHolds d (dlCanonicalName d (zName z)) (apexSOA d z # records) p) \<and> temp' = foldl collect temp prs"
  by (induction prs arbitrary: temp) (auto simp: bindE_Inr_iff prerequisite_Inr [OF assms])

section \<open>An applied update\<close>

lemma ApplyFenced_Some:
  assumes "ApplyFenced d env ue publish fence newid req seen locked = (rc, Some h')"
  obtains msg z where "rc = 0" "ueUnpack ue (urMessage req) = Some msg" "seen = Some z" "zKind (hzRow z) = ''primary''"
    "ueCheck ue \<longrightarrow> verify d ue z msg (urMessage req) (dlCanonicalName d (urKey req)) = Inr ()"
    "MutateFenced d env publish fence (updateEditZone d ue newid msg (dlCanonicalName d (urKey req))) locked = Inr (h', ())"
proof -
  from assms have a: "applyUpdate d env ue publish fence newid req seen locked = Inr h'" and rc: "rc = 0"
    by (auto simp: ApplyFenced_def split: sum.splits service_error.splits)
  from a show thesis using rc unfolding applyUpdate_def
    by (auto simp: failR_def bindE_Inr_iff Let_def split: option.splits if_splits prod.splits intro!: that)
qed

lemma updateEditZone_Inr:
  assumes "updateEditZone d ue newid msg key h = Inr (h1, opts, u)"
  obtains records st del added where "zKind (hzRow h) = ''primary''" "ueCheck ue \<longrightarrow> allowed ue h key"
    "queryRRs d (hzRecords h) = Inr records" "newState d (hzRow h) records = Inr st"
    "prerequisites d st (umAnswer msg) = Inr ()" "prescan d st (umNs msg) = Inr ()"
    "changes d (update d (umNs msg) st) = Inr (del, added)"
    "CheckSet (dlNextLabel d) (zName (hzRow h)) (recordsOf (update d (umNs msg) st)) = Inr ()"
    "ApplyRecordChanges d newid del added (hzRecords h) = Inr (hzRecords h1)" "zName (hzRow h1) = zName (hzRow h)"
proof -
  have name: "zName (setZoneSOA d st z) = zName z" for st z by (simp add: setZoneSOA_def split: rdata.split)
  have refused: "(case m of Inl _ \<Rightarrow> failR r | Inr _ \<Rightarrow> Inr ()) = Inr () \<longleftrightarrow> m = Inr ()" for m :: "rule_error + unit" and r
    by (cases m) (auto simp: failR_def)
  from assms show thesis unfolding updateEditZone_def Let_def
    by (auto simp: bindE_Inr_iff refused name intro!: that)
qed

lemma verify_Inr:
  assumes "verify d ue z msg raw key = Inr ()"
  obtains w alg i kalg secret where "umTsig msg = Some (w, alg)" "dlCanonicalName d w = key" "ueKeyID ue key = Some i"
    "i \<in> set (hzUpdateKeys z)" "ueSecret ue i = Some (kalg, secret)" "ToLower (tsigAlgorithms kalg) = ToLower alg" "ueVerify ue raw secret"
  using assms by (auto simp: verify_def failR_def split: option.splits if_splits prod.splits)

lemma edit_stored:
  assumes law: "pack_law d" and inv: "hostInv d h" "readsBack d (hzRecords h)"
    and soa: "\<forall>r \<in> set (hzRecords h). zrType r \<noteq> TypeSOA" and typed: "\<forall>rr \<in> set (umNs msg). typedRR rr"
    and edit: "updateEditZone d ue newid msg key h = Inr (h1, opts, u)"
  obtains records st where "queryRRs d (hzRecords h) = Inr records" "newState d (hzRow h) records = Inr st"
    "\<And>i t. absTable (hzRecords h1) i = Some t \<longleftrightarrow>
       (\<exists>rr \<in> set (recordsOf (update d (umNs msg) st)). recordKeyRR d rr = Some i \<and> hTTL rr = t)" "hostInv d h1"
  using edit
proof (rule updateEditZone_Inr)
  fix records st del added
  assume e: "queryRRs d (hzRecords h) = Inr records" "newState d (hzRow h) records = Inr st"
    "changes d (update d (umNs msg) st) = Inr (del, added)"
    "CheckSet (dlNextLabel d) (zName (hzRow h)) (recordsOf (update d (umNs msg) st)) = Inr ()"
    "ApplyRecordChanges d newid del added (hzRecords h) = Inr (hzRecords h1)" "zName (hzRow h1) = zName (hzRow h)"
  have table: "tableOk (hzRecords h)" using inv(1) by (simp add: rowsInv_def)
  have rows: "\<exists>r \<in> set (hzRecords h). rrKey rr = rowKey r \<and> hTTL rr = zrTTL r" if "rr \<in> set records" for rr
    using readsBack_rr [OF inv(2) e(1) that] unfolding recordKeyRR_Some [OF law] by (metis fst_conv fst_rowIdent)
  have soa': "\<forall>rr \<in> set records. hType rr \<noteq> TypeSOA" using rows soa by (metis rrKey_def rowKey_def snd_conv)
  have "hTTL x = hTTL y" if "x \<in> set records" "y \<in> set records" "rrKey x = rrKey y" for x y
    using rows [OF that(1)] rows [OF that(2)] that(3) table ttlUniformD unfolding tableOk_def by metis
  then have "mapOk (stRRs (update d (umNs msg) st))" using newState_ok [OF e(2) soa'] typed by (intro update_ok) blast+
  note s = stored_state [OF law table inv(2) e(1,2) update_original this soa' e(3,5)]
  have "hostInv d h1" unfolding rowsInv_def e(6)
    using s(1) table_rules [OF law s(1,2,3)] e(4) by (simp add: CheckSet_iff)
  then show thesis using e(1,2) s(3) by (intro that)
qed

section \<open>An example\<close>

definition exInUse :: "byte list rr" where
  "exInUse = \<lparr>hName = ''AB.'', hType = 255, hClass = 255, hTTL = 0, hRdlength = 0, rrData = ROther []\<rparr>"

definition exUpdateMsg :: "byte list update_msg" where
  "exUpdateMsg = \<lparr>umUpdate = True, umResponse = False, umQuestion = [(''ab.'', 6, 1)], umAnswer = [exInUse], umNs = [exAddr],
     umTsig = Some (''k.'', ''HMAC-SHA256.'')\<rparr>"

definition exUpdateEnv :: "byte list update_env" where
  "exUpdateEnv = \<lparr>ueUnpack = (\<lambda>b. if b = [1] then Some exUpdateMsg else None), ueCheck = True, ueService = True,
     ueKeyID = (\<lambda>w. if w = ''k.'' then Some 5 else None), ueKeyID2 = (\<lambda>w. if w = ''k.'' then Some 5 else None),
     ueSecret = (\<lambda>i. if i = 5 then Some (''hmac-sha256'', [9]) else None), ueVerify = (\<lambda>raw secret. raw = [1] \<and> secret = [9])\<rparr>"

definition exRequest :: update_request where
  "exRequest = \<lparr>urMessage = [1], urZone = ''AB.'', urKey = ''K.''\<rparr>"

definition exUpdated :: hosted where
  "exUpdated = exHost1\<lparr>hzRecords := hzRecords exHost1 @ [exNew]\<rparr>"

abbreviation exOptions :: "byte list rr rebuild_options" where
  "exOptions \<equiv> \<lparr>opEdit = None, opSerial = None, opForce = False\<rparr>"

lemma exUpdate_edit: "updateEditZone exLib exUpdateEnv 2 exUpdateMsg ''k.'' exHost1 = Inr (exUpdated, exOptions, ())"
  by code_simp

lemma exUpdate_rebuild: "rebuildHosted exLib exEnvB exOptions (exUpdated\<lparr>hzRevision := 2\<rparr>) = Inr exHost2"
  by code_simp

lemma exUpdate_verify: "verify exLib exUpdateEnv exHost1 exUpdateMsg [1] ''k.'' = Inr ()" "dlCanonicalName exLib ''K.'' = ''k.''"
  by code_simp+

lemma exUpdate_run:
  "ApplyFenced exLib exEnvB exUpdateEnv (\<lambda>_. Inr ()) (Inr ()) 2 exRequest (Some exHost1) (Some exHost1) = (0, Some exHost2)"
proof -
  have "zKind (hzRow exUpdated) = ''primary''" "zKind (hzRow exHost1) = ''primary''" "hzRevision exUpdated = 1"
    "dlCanonicalName exLib ''ab.'' = dlCanonicalName exLib ''AB.''" by code_simp+
  then show ?thesis using exUpdate_edit exUpdate_rebuild exUpdate_verify
    by (simp add: ApplyFenced_def applyUpdate_def MutateFenced_def exUpdateEnv_def exUpdateMsg_def exRequest_def maxMessage_def
      TypeSOA_def ClassINET_def)
qed

end
