(* ===== verification/Update_Props.thy ===== *)
theory Update_Props
  imports Update_Apply
begin

text \<open>
  What dynamic updates guarantee: the stored table becomes exactly the state the update section
  describes and stays lawful, the apex keeps its SOA and a nameserver, the prerequisites mean what
  RFC 2136 says, and nothing changes without a verified and permitted key.
\<close>

lemma collect_ball:
  "(\<forall>x \<in> set (foldl collect [] prs). P (fst x) (snd x)) \<longleftrightarrow>
    (\<forall>p \<in> set prs. hClass p = ClassINET \<longrightarrow> P (rrKey p) (filter (\<lambda>q. hClass q = ClassINET \<and> rrKey q = rrKey p) prs))"
proof (intro iffI ballI impI)
  fix p assume all: "\<forall>x \<in> set (foldl collect [] prs). P (fst x) (snd x)" and p: "p \<in> set prs" "hClass p = ClassINET"
  have "filter (\<lambda>q. hClass q = ClassINET \<and> rrKey q = rrKey p) prs \<noteq> []" using p by (auto simp: filter_empty_conv)
  then have "(rrKey p, filter (\<lambda>q. hClass q = ClassINET \<and> rrKey q = rrKey p) prs) \<in> set (foldl collect [] prs)"
    unfolding collect_iff by simp
  from bspec [OF all this] show "P (rrKey p) (filter (\<lambda>q. hClass q = ClassINET \<and> rrKey q = rrKey p) prs)" by simp
next
  fix x
  assume all: "\<forall>p \<in> set prs. hClass p = ClassINET \<longrightarrow> P (rrKey p) (filter (\<lambda>q. hClass q = ClassINET \<and> rrKey q = rrKey p) prs)"
    and x: "x \<in> set (foldl collect [] prs)"
  have s: "snd x = filter (\<lambda>q. hClass q = ClassINET \<and> rrKey q = fst x) prs \<and> snd x \<noteq> []"
    using x collect_iff [of "fst x" "snd x" prs] by (simp only: prod.collapse)
  obtain p where "p \<in> set (snd x)" using s by (meson hd_in_set)
  then have p: "p \<in> set prs" "hClass p = ClassINET" "rrKey p = fst x" unfolding conjunct1 [OF s] by simp_all
  show "P (fst x) (snd x)" using mp [OF bspec [OF all p(1)] p(2)] unfolding conjunct1 [OF s] p(3) .
qed

section \<open>Properties\<close>

text \<open>C9. An update that is answered as applied is stored exactly: the rows of the zone become the records of
  the state that the update section leads to from the stored records, each with the TTL of its RRset,
  and the zone stays lawful (the zone rules hold, rows are distinct and an RRset has one TTL). The
  library keeps the type of what it packs, and the stored rows read back as themselves.\<close>

theorem update_stored:
  assumes "pack_law d" "hostInv d h" "readsBack d (hzRecords h)" "\<forall>r \<in> set (hzRecords h). zrType r \<noteq> TypeSOA"
    "\<And>msg. ueUnpack ue (urMessage req) = Some msg \<Longrightarrow> \<forall>rr \<in> set (umNs msg). typedRR rr"
    "ApplyFenced d env ue publish fence newid req seen (Some h) = (rc, Some h')"
  shows "hostInv d h' \<and> (\<exists>msg records st. ueUnpack ue (urMessage req) = Some msg \<and>
    queryRRs d (hzRecords h) = Inr records \<and> newState d (hzRow h) records = Inr st \<and>
    (\<forall>i t. absTable (hzRecords h') i = Some t \<longleftrightarrow>
       (\<exists>rr \<in> set (recordsOf (update d (umNs msg) st)). recordKeyRR d rr = Some i \<and> hTTL rr = t)))"
  using assms(6)
proof (rule ApplyFenced_Some)
  fix msg z
  assume m: "ueUnpack ue (urMessage req) = Some msg"
    "MutateFenced d env publish fence (updateEditZone d ue newid msg (dlCanonicalName d (urKey req))) (Some h) = Inr (h', ())"
  from m(2) show ?thesis
  proof (rule MutateFenced_Inr)
    fix h0 h1 opts
    assume e: "Some h = Some h0" "updateEditZone d ue newid msg (dlCanonicalName d (urKey req)) h0 = Inr (h1, opts, ())"
      "hzRecords h' = hzRecords h1" "zName (hzRow h') = zName (hzRow h1)"
    have "updateEditZone d ue newid msg (dlCanonicalName d (urKey req)) h = Inr (h1, opts, ())" using e(1,2) by simp
    then show ?thesis by (rule edit_stored [OF assms(1-4) assms(5) [OF m(1)]]) (use m(1) e(3,4) in auto)
  qed
qed

theorem update_stored_witness:
  "absTable (hzRecords exHost2) ((''w.ab.'', 1), [10, 0, 0, 1]) = Some 60 \<and> rowsInv exNextLabel ''ab.'' (hzRecords exHost2)"
proof -
  have "CheckSet exNextLabel ''ab.'' [exRR ''ab.'' 2] = Inr ()" by code_simp
  then have "zoneOk exNextLabel (ToLower ''ab.'') (map rrKey [exRR ''ab.'' 2])" unfolding CheckSet_iff .
  moreover have ex: "map rrKey [exRR ''ab.'' 2] = map rowKey (hzRecords exHost1)" "zName (hzRow exHost1) = ''ab.''"
    "tableOk (hzRecords exHost1)" "zName (hzRow exHost2) = ''ab.''" by code_simp+
  ultimately have inv: "hostInv exLib exHost1" by (simp add: rowsInv_def exLib_sel)
  have pack: "pack_law exLib" by (auto simp: pack_law_def exLib_FromRR exWire_def split: option.splits)
  have "list_all (\<lambda>r. case rowRR exLib r of Inl _ \<Rightarrow> True | Inr rr \<Rightarrow> recordKeyRR exLib rr = Some (rowIdent r) \<and> hTTL rr = zrTTL r)
      (hzRecords exHost1)" by code_simp
  then have rb: "readsBack exLib (hzRecords exHost1)" by (force simp: readsBack_def list_all_iff split: sum.splits)
  have soa: "\<forall>r \<in> set (hzRecords exHost1). zrType r \<noteq> TypeSOA" by (simp add: exHost1_def TypeSOA_def)
  have typed: "\<forall>rr \<in> set (umNs msg). typedRR rr" if "ueUnpack exUpdateEnv (urMessage exRequest) = Some msg" for msg
    using that by (auto simp: exUpdateEnv_def exRequest_def exUpdateMsg_def typedRR_def exAddr_def TypeSOA_def)
  have "absTable (hzRecords exHost2) ((''w.ab.'', 1), [10, 0, 0, 1]) = Some 60"
    by (simp add: absTable_def exHost2_def exHost1_def exNew_def rowIdent_def rowKey_def ToLower_def lower_char_def)
  then show ?thesis using update_stored [OF pack inv rb soa typed exUpdate_run] ex(4) by (simp add: exLib_sel)
qed

text \<open>C11. With TSIG checking on, a zone only changes for a request that carries a TSIG of the key the engine
  named, whose key may update the zone both when it is verified and when the zone is locked, whose
  algorithm is the key's and whose signature verifies over the message as received; the zone is a
  primary and the stream's fence held. Every other answer changes nothing.\<close>

theorem update_authorized:
  assumes "ueCheck ue" "ApplyFenced d env ue publish fence newid req seen locked = (rc, Some h')"
  shows "rc = 0 \<and> fence = Inr () \<and> (\<exists>msg z h w alg i j kalg secret.
    ueUnpack ue (urMessage req) = Some msg \<and> seen = Some z \<and> locked = Some h \<and>
    zKind (hzRow z) = ''primary'' \<and> zKind (hzRow h) = ''primary'' \<and>
    umTsig msg = Some (w, alg) \<and> dlCanonicalName d w = dlCanonicalName d (urKey req) \<and>
    ueKeyID ue (dlCanonicalName d (urKey req)) = Some i \<and> i \<in> set (hzUpdateKeys z) \<and>
    ueSecret ue i = Some (kalg, secret) \<and> ToLower (tsigAlgorithms kalg) = ToLower alg \<and> ueVerify ue (urMessage req) secret \<and>
    ueKeyID2 ue (dlCanonicalName d (urKey req)) = Some j \<and> j \<in> set (hzUpdateKeys h))"
proof -
  let ?key = "dlCanonicalName d (urKey req)"
  obtain msg z where m: "rc = 0" "ueUnpack ue (urMessage req) = Some msg" "seen = Some z" "zKind (hzRow z) = ''primary''"
    "verify d ue z msg (urMessage req) ?key = Inr ()"
    "MutateFenced d env publish fence (updateEditZone d ue newid msg ?key) locked = Inr (h', ())"
    using ApplyFenced_Some [OF assms(2)] assms(1) by metis
  from m(6) obtain h h1 opts where f: "fence = Inr ()" "locked = Some h" "updateEditZone d ue newid msg ?key h = Inr (h1, opts, ())"
    by (rule MutateFenced_Inr)
  from f(3) have k: "zKind (hzRow h) = ''primary''" "allowed ue h ?key" using assms(1) by (auto elim: updateEditZone_Inr)
  from k(2) obtain j where "ueKeyID2 ue ?key = Some j" "j \<in> set (hzUpdateKeys h)" by (auto simp: allowed_def split: option.splits)
  moreover obtain w alg i kalg secret where "umTsig msg = Some (w, alg)" "dlCanonicalName d w = ?key" "ueKeyID ue ?key = Some i"
    "i \<in> set (hzUpdateKeys z)" "ueSecret ue i = Some (kalg, secret)" "ToLower (tsigAlgorithms kalg) = ToLower alg"
    "ueVerify ue (urMessage req) secret"
    by (rule verify_Inr [OF m(5)])
  ultimately show ?thesis using m(1-4) f(1,2) k(1) by blast
qed

theorem update_authorized_witness: "\<exists>msg w alg. ueUnpack exUpdateEnv [1] = Some msg \<and> umTsig msg = Some (w, alg) \<and> ToLower w = ''k.''"
proof -
  have c: "ueCheck exUpdateEnv" by (simp add: exUpdateEnv_def)
  have "urMessage exRequest = [1]" "dlCanonicalName exLib (urKey exRequest) = ''k.''" by code_simp+
  moreover have "dlCanonicalName exLib = ToLower" by (simp add: exLib_def)
  ultimately show ?thesis using update_authorized [OF c exUpdate_run] by auto
qed

text \<open>C30. The prerequisite section is accepted exactly when it holds in the sense of RFC 2136, section 3.2, of
  the SOA and the stored records: every record has TTL 0 and an owner in the zone, a class ANY or NONE
  record is empty and its name or RRset does or does not exist, and each RRset that class IN records
  list equals the stored one.\<close>

theorem prerequisites_exact:
  assumes "newState d z records = Inr st"
  shows "prerequisites d st prs = Inr () \<longleftrightarrow>
    prereqsHold d (dlCanonicalName d (zName z)) ((zoneSOA z)\<lparr>hName := dlCanonicalName d (zName z)\<rparr> # records) prs"
proof -
  let ?rrs = "apexSOA d z # records" and ?same = "\<lambda>k s. sameSet d s (setAt (rrsAt (stRRs st) (fst k)) (snd k))"
  let ?sec = "\<lambda>p. filter (\<lambda>q. hClass q = ClassINET \<and> rrKey q = rrKey p) prs"
  have each: "eachE (\<lambda>((w, t), s). if sameSet d s (setAt (rrsAt (stRRs st) w) t) then Inr () else failR RcodeNXRrset) temp = Inr () \<longleftrightarrow>
      (\<forall>x \<in> set temp. ?same (fst x) (snd x))" for temp
    by (auto simp: eachE_Inr_iff failR_def split: if_splits)
  have sets: "(\<forall>p \<in> set prs. hClass p = ClassINET \<longrightarrow> sameSet d (?sec p) (rrsetOf ?rrs (ToLower (hName p)) (hType p))) \<longleftrightarrow>
      (\<forall>x \<in> set (foldl collect [] prs). ?same (fst x) (snd x))"
    using collect_ball [of prs ?same] unfolding newState_state(1) [OF assms] rrsetOf_def by (simp only: rrKey_def fst_conv snd_conv)
  show ?thesis
    unfolding prerequisites_def bindE_Inr_iff prerequisites_fold [OF assms] each prereqsHold_def sets by simp
qed

theorem prerequisites_exact_witness: "prerequisites exLib (projr (newState exLib exZone1 [exNS])) [exInUse, exNS\<lparr>hTTL := 0\<rparr>] = Inr ()"
proof -
  have "\<not> isl (newState exLib exZone1 [exNS])" by code_simp
  then have st: "newState exLib exZone1 [exNS] = Inr (projr (newState exLib exZone1 [exNS]))" by simp
  have "prereqsHold exLib (dlCanonicalName exLib (zName exZone1))
      ((zoneSOA exZone1)\<lparr>hName := dlCanonicalName exLib (zName exZone1)\<rparr> # [exNS]) [exInUse, exNS\<lparr>hTTL := 0\<rparr>]" by code_simp
  then show ?thesis using prerequisites_exact [OF st] by blast
qed

text \<open>C25. Whatever an update section says, the apex keeps one SOA record, the current one, and at least one
  nameserver record, when the zone had a nameserver and every record of the section is SOA data
  exactly when its type is SOA.\<close>

theorem update_keeps_apex:
  assumes "newState d z records = Inr st" "ToLower (dlCanonicalName d (zName z)) = dlCanonicalName d (zName z)"
    "\<forall>rr \<in> set records. hType rr \<noteq> TypeSOA" "(dlCanonicalName d (zName z), TypeNS) \<in> rrKey ` set records"
    "\<forall>rr \<in> set us. typedRR rr"
  shows "setAt (rrsAt (stRRs (update d us st)) (dlCanonicalName d (zName z))) TypeSOA = [stSOA (update d us st)] \<and>
    setAt (rrsAt (stRRs (update d us st)) (dlCanonicalName d (zName z))) TypeNS \<noteq> []"
proof -
  note s = newState_state [OF assms(1)]
  have "filter (\<lambda>rr. rrKey rr = (dlCanonicalName d (zName z), TypeSOA)) records = []"
    using assms(3) by (auto simp: filter_empty_conv rrKey_def)
  then have "setAt (rrsAt (stRRs st) (stApex st)) TypeSOA = [stSOA st]"
    unfolding s(1,3,4) using assms(2) by (simp add: rrKey_def zoneSOA_def)
  moreover have "setAt (rrsAt (stRRs st) (stApex st)) TypeNS \<noteq> []"
    unfolding s(1,3) filter_empty_conv using assms(4) by auto
  ultimately have "apexOk st" by (simp add: apexOk_def)
  from update_apex [OF this assms(5), of d] show ?thesis unfolding apexOk_def s(3) by metis
qed

theorem update_keeps_apex_witness:
  "setAt (rrsAt (stRRs (update exLib [exNS\<lparr>hClass := 254, hTTL := 0\<rparr>, exInUse] (projr (newState exLib exZone1 [exNS])))) ''ab.'') TypeNS \<noteq> []"
proof -
  have "\<not> isl (newState exLib exZone1 [exNS])" by code_simp
  then have st: "newState exLib exZone1 [exNS] = Inr (projr (newState exLib exZone1 [exNS]))" by simp
  have apex: "dlCanonicalName exLib (zName exZone1) = ''ab.''" "ToLower ''ab.'' = ''ab.''" by code_simp+
  show ?thesis using update_keeps_apex [OF st, of "[exNS\<lparr>hClass := 254, hTTL := 0\<rparr>, exInUse]"]
    by (simp add: apex exNS_def exInUse_def typedRR_def rrKey_def TypeSOA_def TypeNS_def)
qed

end
