(* ===== verification/Lease_Controller.thy ===== *)
theory Lease_Controller
  imports Go_Strings
begin

text \<open>
  The lease controller (\<open>deploy/failover/lease/controller.go\<close>): one \<open>Step\<close> observes the lease
  record, waits out the quarantine, captures a kernel ticket, writes the record by
  compare-and-swap and arms the ticket. \<open>Step\<close> is cut at its calls to the clock, the authority
  and the gate into segments, which are pure functions of the controller and the replies; \<open>Step\<close>
  itself runs them on a script of replies, and the system model interleaves the same segments.
  Clock values are nanoseconds of one boot; the code subtracts two of them only after comparing
  them, so they are natural numbers here. The epoch is a 64-bit word.
\<close>

section \<open>Types\<close>

definition MaxKernelWindow :: nat where "MaxKernelWindow = 5000000000"

definition Protocol :: string where "Protocol = ''nexora-kernel-ticket-v1''"

record ticket =
  tkCaptured :: nat
  tkDeadline :: nat

record lease_record =
  lrUID :: string
  lrRV :: string
  lrHolder :: string
  lrNonce :: string
  lrProtocol :: string
  lrEpoch :: u64

record lease_config =
  lcHolder :: string
  lcMargin :: nat

record controller =
  cLast :: nat
  cSince :: nat
  cPinned :: string
  cStableRV :: string
  cOwn :: lease_record
  cObserved :: lease_record
  cAck :: bool
  cStarted :: bool
  cTerminal :: bool

definition noRecord :: lease_record where
  "noRecord = \<lparr>lrUID = [], lrRV = [], lrHolder = [], lrNonce = [], lrProtocol = [], lrEpoch = 0\<rparr>"

definition noTicket :: ticket where
  "noTicket = \<lparr>tkCaptured = 0, tkDeadline = 0\<rparr>"

text \<open>The state \<open>New\<close> returns.\<close>

definition newController :: controller where
  "newController = \<lparr>cLast = 0, cSince = 0, cPinned = [], cStableRV = [], cOwn = noRecord,
     cObserved = noRecord, cAck = False, cStarted = False, cTerminal = False\<rparr>"

text \<open>What \<open>New\<close> checks: the configuration, and for a driver gate that it is paired with its clock,
  not poisoned and not yet claimed by another controller.\<close>

record driver_binding =
  bdPaired :: bool
  bdPoisoned :: bool
  bdClaimed :: bool

datatype step_error = ETerminal | EClock | EGet | EGetLate | EInvalid | EUIDReplaced | EChanged
  | EEpoch | ENonce | ECollision | ECapture | ECaptureLate | ETicket | ECAS | EUnverified
  | EExpired | ECASLate | EArm | EArmLate | EArmExpired | EDeny

section \<open>Records\<close>

definition strong :: "string \<Rightarrow> bool" where
  "strong s = (case hexDecode s of None \<Rightarrow> False | Some b \<Rightarrow> length b = 32 \<and> hexEncode b = s)"

definition valid :: "lease_record \<Rightarrow> bool" where
  "valid r \<longleftrightarrow> lrProtocol r = Protocol \<and> lrUID r \<noteq> [] \<and> length (lrUID r) \<le> 256 \<and>
     lrRV r \<noteq> [] \<and> length (lrRV r) \<le> 256 \<and> (lrHolder r = [] \<or> strong (lrHolder r)) \<and> strong (lrNonce r)"

definition New :: "lease_config \<Rightarrow> nat \<Rightarrow> driver_binding option \<Rightarrow> (controller \<times> driver_binding option) option" where
  "New cfg ioTimeout driver =
     (if \<not> strong (lcHolder cfg) \<or> lcMargin cfg = 0 \<or> lcMargin cfg > 2 ^ 63 - 1 - MaxKernelWindow \<or>
        ioTimeout = 0 \<or> ioTimeout > 60000000000
      then None
      else case driver of
        None \<Rightarrow> Some (newController, None)
      | Some d \<Rightarrow>
          if \<not> bdPaired d \<or> bdPoisoned d \<or> bdClaimed d then None
          else Some (newController, Some (d\<lparr>bdClaimed := True\<rparr>)))"

section \<open>Segments of Step\<close>

text \<open>\<open>now\<close>: \<open>None\<close> is the error for a zero or regressing clock.\<close>

definition read_clock :: "controller \<Rightarrow> nat \<Rightarrow> controller option" where
  "read_clock c n = (if n = 0 \<or> n < cLast c then None else Some (c\<lparr>cLast := n\<rparr>))"

text \<open>\<open>deny\<close> with the gate's reply.\<close>

definition deny :: "controller \<Rightarrow> bool \<Rightarrow> controller \<times> step_error list" where
  "deny c ok = (if ok then (c, []) else (c\<lparr>cTerminal := True\<rparr>, [EDeny]))"

definition fail_with :: "controller \<Rightarrow> step_error \<Rightarrow> bool \<Rightarrow> bool \<Rightarrow> controller \<times> step_error list" where
  "fail_with c e terminal denied =
     (let (c', es) = deny (c\<lparr>cAck := False, cStableRV := [], cSince := 0,
        cTerminal := cTerminal c \<or> terminal\<rparr>) denied in (c', e # es))"

datatype verdict = Proceed | Quiet | QuietDeny | Failed step_error bool

definition renewal :: "lease_config \<Rightarrow> controller \<Rightarrow> lease_record \<Rightarrow> bool" where
  "renewal cfg c r \<longleftrightarrow> cAck c \<and> lrUID r = lrUID (cOwn c) \<and> lrRV r = lrRV (cOwn c) \<and>
     lrHolder r = lcHolder cfg \<and> lrNonce r = lrNonce (cOwn c) \<and> lrEpoch r = lrEpoch (cOwn c)"

definition observe :: "lease_config \<Rightarrow> controller \<Rightarrow> lease_record \<Rightarrow> nat \<Rightarrow> controller \<times> verdict" where
  "observe cfg c r n =
     (if \<not> valid r then (c, Failed EInvalid False)
      else let c = (if cPinned c = [] then c\<lparr>cPinned := lrUID r\<rparr> else c) in
      if lrUID r \<noteq> cPinned c then (c, Failed EUIDReplaced True)
      else if lrUID (cObserved c) = lrUID r \<and> lrRV (cObserved c) = lrRV r \<and>
        (lrHolder (cObserved c) \<noteq> lrHolder r \<or> lrNonce (cObserved c) \<noteq> lrNonce r \<or>
         lrEpoch (cObserved c) \<noteq> lrEpoch r)
      then (c, Failed EChanged False)
      else let c = c\<lparr>cObserved := r\<rparr> in
      if renewal cfg c r then (c, Proceed)
      else let c = c\<lparr>cAck := False\<rparr> in
      if cStableRV c \<noteq> lrRV r then (c\<lparr>cStableRV := lrRV r, cSince := n\<rparr>, QuietDeny)
      else if n - cSince c < MaxKernelWindow + lcMargin cfg then (c, Quiet)
      else (c, Proceed))"

definition choose_nonce :: "lease_record \<Rightarrow> string option \<Rightarrow> step_error + string" where
  "choose_nonce r nonce =
     (if lrEpoch r = - 1 then Inl EEpoch
      else case nonce of
        None \<Rightarrow> Inl ENonce
      | Some x \<Rightarrow> if x = lrNonce r then Inl ECollision else Inr x)"

definition ticket_ok :: "nat \<Rightarrow> ticket \<Rightarrow> nat \<Rightarrow> bool" where
  "ticket_ok before_ns t after_ns \<longleftrightarrow>
     \<not> (tkCaptured t = 0 \<or> tkCaptured t < before_ns \<or> tkCaptured t > after_ns \<or>
        tkDeadline t \<le> tkCaptured t \<or> tkDeadline t - tkCaptured t > MaxKernelWindow \<or>
        after_ns \<ge> tkDeadline t)"

definition next_record :: "lease_config \<Rightarrow> lease_record \<Rightarrow> string \<Rightarrow> lease_record" where
  "next_record cfg r nonce = r\<lparr>lrHolder := lcHolder cfg, lrNonce := nonce, lrEpoch := lrEpoch r + 1\<rparr>"

definition verified :: "lease_record \<Rightarrow> lease_record \<Rightarrow> lease_record \<Rightarrow> bool" where
  "verified r nxt out \<longleftrightarrow>
     \<not> (\<not> valid out \<or> lrUID out \<noteq> lrUID r \<or> lrRV out = lrRV r \<or> lrHolder out \<noteq> lrHolder nxt \<or>
        lrNonce out \<noteq> lrNonce nxt \<or> lrEpoch out \<noteq> lrEpoch nxt)"

definition acquired :: "controller \<Rightarrow> lease_record \<Rightarrow> controller" where
  "acquired c out = c\<lparr>cOwn := out, cAck := True, cStableRV := [], cSince := 0\<rparr>"

section \<open>Step\<close>

text \<open>The replies of one \<open>Step\<close>: five clock reads after the first, the authority's and the gate's
  answers, and whether the operation's deadline had passed when it was looked at. An authority
  error is \<open>True\<close> when it is \<open>ErrGone\<close>.\<close>

record step_io =
  ioDenyStart :: bool
  ioNow1 :: nat
  ioGet :: "bool + lease_record"
  ioLate1 :: bool
  ioNow2 :: nat
  ioDeny :: bool
  ioNonce :: "string option"
  ioNow3 :: nat
  ioCapture :: "ticket option"
  ioLate2 :: bool
  ioNow4 :: nat
  ioCAS :: "bool + lease_record"
  ioNow5 :: nat
  ioLate3 :: bool
  ioArm :: bool
  ioLate4 :: bool
  ioNow6 :: nat

datatype action = ADeny | AGet | ACapture | ACAS lease_record lease_record | AArm ticket

type_synonym step_out = "controller \<times> (step_error list + ticket option) \<times> action list"

definition finish :: "step_io \<Rightarrow> action list \<Rightarrow> controller \<Rightarrow> step_error \<Rightarrow> bool \<Rightarrow> step_out" where
  "finish io tr c e terminal = (let (c', es) = fail_with c e terminal (ioDeny io) in (c', Inl es, tr @ [ADeny]))"

definition step_arm :: "step_io \<Rightarrow> action list \<Rightarrow> controller \<Rightarrow> ticket \<Rightarrow> lease_record \<Rightarrow> step_out" where
  "step_arm io tr c t out =
     (let tr = tr @ [AArm t] in
      if \<not> ioArm io then finish io tr c EArm True
      else if ioLate4 io then finish io tr c EArmLate True
      else case read_clock c (ioNow6 io) of
        None \<Rightarrow> finish io tr c EClock True
      | Some c \<Rightarrow>
          if ioNow6 io \<ge> tkDeadline t then finish io tr c EArmExpired False
          else (acquired c out, Inr (Some t), tr))"

definition step_cas ::
    "lease_config \<Rightarrow> step_io \<Rightarrow> action list \<Rightarrow> controller \<Rightarrow> lease_record \<Rightarrow> string \<Rightarrow> ticket \<Rightarrow> step_out" where
  "step_cas cfg io tr c r nonce t =
     (let nxt = next_record cfg r nonce; tr = tr @ [ACAS r nxt] in
      case ioCAS io of
        Inl gone \<Rightarrow> finish io tr c ECAS gone
      | Inr out \<Rightarrow>
          (case read_clock c (ioNow5 io) of
             None \<Rightarrow> finish io tr c EClock True
           | Some c \<Rightarrow>
               if \<not> verified r nxt out then finish io tr c EUnverified False
               else if ioNow5 io \<ge> tkDeadline t then finish io tr c EExpired False
               else if ioLate3 io then finish io tr c ECASLate False
               else step_arm io tr c t out))"

definition step_capture ::
    "lease_config \<Rightarrow> step_io \<Rightarrow> action list \<Rightarrow> controller \<Rightarrow> lease_record \<Rightarrow> step_out" where
  "step_capture cfg io tr c r =
     (case choose_nonce r (ioNonce io) of
        Inl e \<Rightarrow> finish io tr c e False
      | Inr nonce \<Rightarrow>
          (case read_clock c (ioNow3 io) of
             None \<Rightarrow> finish io tr c EClock True
           | Some c \<Rightarrow>
               let tr = tr @ [ACapture] in
               (case ioCapture io of
                  None \<Rightarrow> finish io tr c ECapture True
                | Some t \<Rightarrow>
                    if ioLate2 io then finish io tr c ECaptureLate True
                    else case read_clock c (ioNow4 io) of
                      None \<Rightarrow> finish io tr c EClock True
                    | Some c \<Rightarrow>
                        if \<not> ticket_ok (ioNow3 io) t (ioNow4 io) then finish io tr c ETicket True
                        else step_cas cfg io tr c r nonce t)))"

definition step_observe :: "lease_config \<Rightarrow> step_io \<Rightarrow> action list \<Rightarrow> controller \<Rightarrow> step_out" where
  "step_observe cfg io tr c =
     (case read_clock c (ioNow1 io) of
        None \<Rightarrow> finish io tr c EClock True
      | Some c \<Rightarrow>
          let tr = tr @ [AGet] in
          (case ioGet io of
             Inl gone \<Rightarrow> finish io tr c EGet gone
           | Inr r \<Rightarrow>
               if ioLate1 io then finish io tr c EGetLate False
               else case read_clock c (ioNow2 io) of
                 None \<Rightarrow> finish io tr c EClock True
               | Some c \<Rightarrow>
                   (case observe cfg c r (ioNow2 io) of
                      (c, Failed e terminal) \<Rightarrow> finish io tr c e terminal
                    | (c, Quiet) \<Rightarrow> (c, Inr None, tr)
                    | (c, QuietDeny) \<Rightarrow>
                        (case deny c (ioDeny io) of
                           (c, []) \<Rightarrow> (c, Inr None, tr @ [ADeny])
                         | (c, es) \<Rightarrow> (c, Inl es, tr @ [ADeny]))
                    | (c, Proceed) \<Rightarrow> step_capture cfg io tr c r)))"

definition Step :: "lease_config \<Rightarrow> step_io \<Rightarrow> controller \<Rightarrow> step_out" where
  "Step cfg io c =
     (if cTerminal c then (c, Inl [ETerminal], [])
      else if \<not> cStarted c then
        (case deny (c\<lparr>cStarted := True\<rparr>) (ioDenyStart io) of
           (c, []) \<Rightarrow> step_observe cfg io [ADeny] c
         | (c, es) \<Rightarrow> (c, Inl es, [ADeny]))
      else step_observe cfg io [] c)"

section \<open>Lemmas\<close>

lemma finish_fails:
  "finish io tr c e b = (c', r, tr') \<Longrightarrow>
   (\<exists>es. r = Inl (e # es)) \<and> tr' = tr @ [ADeny] \<and> \<not> cAck c' \<and> cStableRV c' = [] \<and> (b \<or> \<not> ioDeny io \<longrightarrow> cTerminal c')"
  by (auto simp: finish_def fail_with_def deny_def Let_def split: prod.splits if_splits)

lemma read_clock_fields:
  "read_clock c n = Some c' \<Longrightarrow> c' = c\<lparr>cLast := n\<rparr> \<and> cLast c \<le> n"
  by (auto simp: read_clock_def split: if_splits)

lemma finish_not_armed [simp]: "finish io tr c e b \<noteq> (c', Inr x, tr')"
  by (auto simp: finish_def Let_def split: prod.splits)

lemma finish_error:
  "finish io tr c e b = (c', Inl es, tr') \<Longrightarrow> tr' = tr @ [ADeny] \<and> \<not> cAck c'"
  using finish_fails [of io tr c e b c' "Inl es" tr'] by simp

lemma step_arm_error: "step_arm io tr c t out = (c', Inl es, tr') \<Longrightarrow> last tr' = ADeny \<and> \<not> cAck c'"
  by (auto simp: step_arm_def Let_def dest!: finish_error split: if_splits option.splits)

lemma step_cas_error: "step_cas cfg io tr c r nonce t = (c', Inl es, tr') \<Longrightarrow> last tr' = ADeny \<and> \<not> cAck c'"
  by (auto simp: step_cas_def Let_def dest!: finish_error step_arm_error split: if_splits option.splits sum.splits)

lemma step_capture_error: "step_capture cfg io tr c r = (c', Inl es, tr') \<Longrightarrow> last tr' = ADeny \<and> \<not> cAck c'"
  by (auto simp: step_capture_def Let_def dest!: finish_error step_cas_error split: if_splits option.splits sum.splits)

lemma observe_deny: "observe cfg c r n = (c', QuietDeny) \<Longrightarrow> \<not> cAck c'"
  by (auto simp: observe_def Let_def split: if_splits)

lemma deny_fields: "deny c ok = (c', es) \<Longrightarrow> cAck c' = cAck c \<and> (es \<noteq> [] \<longrightarrow> cTerminal c')"
  by (auto simp: deny_def split: if_splits)

lemma step_observe_error: "step_observe cfg io tr c = (c', Inl es, tr') \<Longrightarrow> last tr' = ADeny \<and> \<not> cAck c'"
  by (auto simp: step_observe_def Let_def dest!: finish_error step_capture_error observe_deny deny_fields
      split: if_splits option.splits sum.splits prod.splits verdict.splits list.splits)

lemma step_arm_ok:
  "step_arm io tr c t out = (c', Inr x, tr') \<Longrightarrow>
   x = Some t \<and> tr' = tr @ [AArm t] \<and> ioNow6 io < tkDeadline t \<and> cAck c' \<and> cOwn c' = out"
  by (auto simp: step_arm_def Let_def acquired_def split: if_splits option.splits)

lemma step_cas_ok:
  "step_cas cfg io tr c r nonce t = (c', Inr x, tr') \<Longrightarrow>
   x = Some t \<and> ioNow6 io < tkDeadline t \<and>
   (\<exists>out. ioCAS io = Inr out \<and> verified r (next_record cfg r nonce) out \<and> cAck c' \<and> cOwn c' = out \<and>
      tr' = tr @ [ACAS r (next_record cfg r nonce), AArm t])"
  by (auto simp: step_cas_def Let_def dest!: step_arm_ok split: if_splits option.splits sum.splits)

lemma step_capture_ok:
  "step_capture cfg io tr c r = (c', Inr x, tr') \<Longrightarrow>
   \<exists>t nonce out. x = Some t \<and> ticket_ok (ioNow3 io) t (ioNow4 io) \<and> ioNow6 io < tkDeadline t \<and>
      lrEpoch r \<noteq> - 1 \<and> nonce \<noteq> lrNonce r \<and>
      verified r (next_record cfg r nonce) out \<and> cAck c' \<and> cOwn c' = out \<and>
      tr' = tr @ [ACapture, ACAS r (next_record cfg r nonce), AArm t]"
  by (auto simp: step_capture_def choose_nonce_def Let_def dest!: step_cas_ok
      split: if_splits option.splits sum.splits)

lemma observe_proceed:
  "observe cfg c r n = (c', Proceed) \<Longrightarrow> valid r \<and>
   (renewal cfg c r \<or> cStableRV c = lrRV r \<and> MaxKernelWindow + lcMargin cfg \<le> n - cSince c)"
  by (auto simp: observe_def renewal_def Let_def split: if_splits)

lemma step_observe_ok:
  assumes "step_observe cfg io tr c = (c', Inr (Some t), tr')"
  shows "\<exists>r nonce. ioGet io = Inr r \<and> valid r \<and>
     (renewal cfg c r \<or> cStableRV c = lrRV r \<and> MaxKernelWindow + lcMargin cfg \<le> ioNow2 io - cSince c) \<and>
     ticket_ok (ioNow3 io) t (ioNow4 io) \<and> ioNow6 io < tkDeadline t \<and> lrEpoch r \<noteq> - 1 \<and> nonce \<noteq> lrNonce r \<and>
     verified r (next_record cfg r nonce) (cOwn c') \<and> cAck c' \<and>
     tr' = tr @ [AGet, ACapture, ACAS r (next_record cfg r nonce), AArm t]"
proof -
  from assms obtain c1 c2 c3 r where s: "read_clock c (ioNow1 io) = Some c1" "ioGet io = Inr r"
    "read_clock c1 (ioNow2 io) = Some c2" "observe cfg c2 r (ioNow2 io) = (c3, Proceed)"
    "step_capture cfg io (tr @ [AGet]) c3 r = (c', Inr (Some t), tr')"
    by (auto simp: step_observe_def Let_def split: if_splits option.splits sum.splits prod.splits
        verdict.splits list.splits)
  have c2: "cAck c2 = cAck c" "cOwn c2 = cOwn c" "cStableRV c2 = cStableRV c" "cSince c2 = cSince c"
    using read_clock_fields [OF s(1)] read_clock_fields [OF s(3)] by simp_all
  show ?thesis using step_capture_ok [OF s(5)] observe_proceed [OF s(4)] s(2) c2
    by (auto simp: renewal_def)
qed

section \<open>Properties\<close>

text \<open>C29. \<open>Step\<close> fails closed: on every error path of a controller that was not already terminal, the
  last thing it does is to deny the gate, it no longer counts as holding the lease, and when the
  denial itself failed it is terminal and never acts again.\<close>

theorem step_fails_closed:
  assumes "Step cfg io c = (c', Inl es, tr)" "\<not> cTerminal c" "cAck c \<longrightarrow> cStarted c"
  shows "last tr = ADeny \<and> \<not> cAck c' \<and> (cTerminal c' \<longrightarrow> Step cfg io' c' = (c', Inl [ETerminal], []))"
proof -
  have "last tr = ADeny \<and> \<not> cAck c'"
    using assms by (auto simp: Step_def dest!: step_observe_error deny_fields split: if_splits prod.splits list.splits)
  then show ?thesis by (simp add: Step_def)
qed

text \<open>A script on which the authority is unreachable.\<close>

definition exIO :: step_io where
  "exIO = \<lparr>ioDenyStart = True, ioNow1 = 5, ioGet = Inl False, ioLate1 = False, ioNow2 = 6, ioDeny = True,
     ioNonce = None, ioNow3 = 7, ioCapture = None, ioLate2 = False, ioNow4 = 8, ioCAS = Inl False, ioNow5 = 9,
     ioLate3 = False, ioArm = True, ioLate4 = False, ioNow6 = 10\<rparr>"

theorem step_fails_closed_witness:
  "last (snd (snd (Step \<lparr>lcHolder = [], lcMargin = 1\<rparr> exIO newController))) = ADeny"
proof -
  let ?s = "Step \<lparr>lcHolder = [], lcMargin = 1\<rparr> exIO newController"
  have s: "?s = (fst ?s, Inl [EGet], snd (snd ?s))" by code_simp
  show ?thesis by (rule step_fails_closed [OF s, THEN conjunct1]) (simp_all add: newController_def)
qed


text \<open>A renewal: the controller's own record comes back, and is replaced.\<close>

definition exOwn :: lease_record where
  "exOwn = \<lparr>lrUID = ''u'', lrRV = ''1'', lrHolder = replicate 64 CHR ''b'', lrNonce = replicate 64 CHR ''a'',
     lrProtocol = Protocol, lrEpoch = 3\<rparr>"

definition exRenew :: step_io where
  "exRenew = exIO\<lparr>ioGet := Inr exOwn, ioNonce := Some (replicate 64 CHR ''c''),
     ioCapture := Some \<lparr>tkCaptured = 7, tkDeadline = 1007\<rparr>,
     ioCAS := Inr (exOwn\<lparr>lrRV := ''2'', lrNonce := replicate 64 CHR ''c'', lrEpoch := 4\<rparr>)\<rparr>"

definition exOwner :: controller where
  "exOwner = newController\<lparr>cStarted := True, cPinned := ''u'', cOwn := exOwn, cAck := True\<rparr>"


end
