(* ===== verification/Lease_System.thy ===== *)
theory Lease_System
  imports Lease_Controller
begin

text \<open>
  Several lease controllers against one authority. A system step is one segment of one
  controller's \<open>Step\<close>, a reply of the authority or of a gate, the passing of time, or the restart
  of a process, in any interleaving. A read may return any committed record, a reply may be lost,
  and an ARM may take effect late. \<open>clk i t\<close> is what the boot clock of host \<open>i\<close> shows at time \<open>t\<close>;
  the gate of a host forwards while a ticket is armed and its deadline has not passed.
\<close>

section \<open>States\<close>

type_synonym host = nat

record commit =
  cmHost :: host
  cmTime :: nat
  cmRec :: lease_record
  cmTicket :: ticket

datatype phase = Idle
  | Chosen lease_record string
  | HasTicket lease_record string ticket
  | Replied lease_record string ticket lease_record
  | Arming ticket lease_record

record lease_sys =
  lsNow :: nat
  lsInit :: lease_record
  lsLog :: "commit list"
  lsCfg :: "host \<Rightarrow> lease_config"
  lsCtl :: "host \<Rightarrow> controller"
  lsPhase :: "host \<Rightarrow> phase"
  lsPending :: "host \<Rightarrow> ticket option"
  lsGate :: "host \<Rightarrow> ticket option"

text \<open>The committed record: the one of the latest commit.\<close>

definition lsAuth :: "lease_sys \<Rightarrow> lease_record" where
  "lsAuth s = (case lsLog s of [] \<Rightarrow> lsInit s | e # _ \<Rightarrow> cmRec e)"

definition committed :: "lease_sys \<Rightarrow> lease_record set" where
  "committed s = insert (lsInit s) (cmRec ` set (lsLog s))"

definition denied :: "bool \<Rightarrow> host \<Rightarrow> lease_sys \<Rightarrow> lease_sys" where
  "denied ok i s = (if ok then s\<lparr>lsPending := (lsPending s)(i := None), lsGate := (lsGate s)(i := None)\<rparr> else s)"

definition upd :: "host \<Rightarrow> controller \<Rightarrow> phase \<Rightarrow> lease_sys \<Rightarrow> lease_sys" where
  "upd i c p s = s\<lparr>lsCtl := (lsCtl s)(i := c), lsPhase := (lsPhase s)(i := p)\<rparr>"

definition forwarding :: "(host \<Rightarrow> nat \<Rightarrow> nat) \<Rightarrow> lease_sys \<Rightarrow> host \<Rightarrow> bool" where
  "forwarding clk s i = (case lsGate s i of None \<Rightarrow> False | Some t \<Rightarrow> clk i (lsNow s) < tkDeadline t)"

section \<open>Steps\<close>

inductive lease_step :: "(host \<Rightarrow> nat \<Rightarrow> nat) \<Rightarrow> lease_sys \<Rightarrow> lease_sys \<Rightarrow> bool" for clk where
  tick: "lease_step clk s (s\<lparr>lsNow := lsNow s + 1\<rparr>)"
| observed:
  "\<lbrakk>lsPhase s i = Idle; \<not> cTerminal (lsCtl s i); r \<in> committed s;
    read_clock ((lsCtl s i)\<lparr>cStarted := True\<rparr>) (clk i (lsNow s)) = Some c;
    observe (lsCfg s i) c r (clk i (lsNow s)) = (c', Proceed); choose_nonce r (Some nonce) = Inr nonce\<rbrakk>
   \<Longrightarrow> lease_step clk s (upd i c' (Chosen r nonce) s)"
| waiting:
  "\<lbrakk>lsPhase s i = Idle; \<not> cTerminal (lsCtl s i); r \<in> committed s;
    read_clock ((lsCtl s i)\<lparr>cStarted := True\<rparr>) (clk i (lsNow s)) = Some c;
    observe (lsCfg s i) c r (clk i (lsNow s)) = (c', Quiet)\<rbrakk>
   \<Longrightarrow> lease_step clk s (upd i c' Idle s)"
| quarantined:
  "\<lbrakk>lsPhase s i = Idle; \<not> cTerminal (lsCtl s i); r \<in> committed s;
    read_clock ((lsCtl s i)\<lparr>cStarted := True\<rparr>) (clk i (lsNow s)) = Some c;
    observe (lsCfg s i) c r (clk i (lsNow s)) = (c', QuietDeny)\<rbrakk>
   \<Longrightarrow> lease_step clk s (denied ok i (upd i (fst (deny c' ok)) Idle s))"
| refused:
  "\<lbrakk>lsPhase s i = Idle; \<not> cTerminal (lsCtl s i); r \<in> committed s;
    read_clock ((lsCtl s i)\<lparr>cStarted := True\<rparr>) (clk i (lsNow s)) = Some c;
    observe (lsCfg s i) c r (clk i (lsNow s)) = (c', Failed e terminal)\<rbrakk>
   \<Longrightarrow> lease_step clk s (denied ok i (upd i (fst (fail_with c' e terminal ok)) Idle s))"
| failed:
  "\<lbrakk>c' = lsCtl s i \<or> read_clock (lsCtl s i) (clk i (lsNow s)) = Some c'\<rbrakk>
   \<Longrightarrow> lease_step clk s (denied ok i (upd i (fst (fail_with c' e terminal ok)) Idle s))"
| captured:
  "\<lbrakk>lsPhase s i = Chosen r nonce; read_clock (lsCtl s i) (clk i (lsNow s)) = Some c;
    ticket_ok before_ns t (clk i (lsNow s))\<rbrakk>
   \<Longrightarrow> lease_step clk s (upd i c (HasTicket r nonce t) s)"
| swapped:
  "\<lbrakk>lsPhase s i = HasTicket r nonce t; lrUID r = lrUID (lsAuth s); lrRV r = lrRV (lsAuth s);
    rv \<notin> lrRV ` committed s; out = (next_record (lsCfg s i) r nonce)\<lparr>lrRV := rv\<rparr>\<rbrakk>
   \<Longrightarrow> lease_step clk s (upd i (lsCtl s i) (Replied r nonce t out)
         (s\<lparr>lsLog := \<lparr>cmHost = i, cmTime = lsNow s, cmRec = out, cmTicket = t\<rparr> # lsLog s\<rparr>))"
| acknowledged:
  "\<lbrakk>lsPhase s i = Replied r nonce t out; read_clock (lsCtl s i) (clk i (lsNow s)) = Some c;
    verified r (next_record (lsCfg s i) r nonce) out; clk i (lsNow s) < tkDeadline t\<rbrakk>
   \<Longrightarrow> lease_step clk s (upd i c (Arming t out) (s\<lparr>lsPending := (lsPending s)(i := Some t)\<rparr>))"
| armed:
  "\<lbrakk>lsPending s i = Some t\<rbrakk>
   \<Longrightarrow> lease_step clk s (s\<lparr>lsGate := (lsGate s)(i := Some t)\<rparr>)"
| completed:
  "\<lbrakk>lsPhase s i = Arming t out; lsGate s i = Some t;
    read_clock (lsCtl s i) (clk i (lsNow s)) = Some c; clk i (lsNow s) < tkDeadline t\<rbrakk>
   \<Longrightarrow> lease_step clk s (upd i (acquired c out) Idle s)"
| restarted:
  "\<lbrakk>lcMargin cfg = lcMargin (lsCfg s i)\<rbrakk>
   \<Longrightarrow> lease_step clk s (upd i newController Idle (s\<lparr>lsCfg := (lsCfg s)(i := cfg)\<rparr>))"

text \<open>At the start a record is provisioned, no controller runs and no ticket is armed.\<close>

definition lease_init :: "lease_sys \<Rightarrow> bool" where
  "lease_init s \<longleftrightarrow> lsLog s = [] \<and> lsCtl s = (\<lambda>_. newController) \<and> lsPhase s = (\<lambda>_. Idle) \<and>
     lsPending s = (\<lambda>_. None) \<and> lsGate s = (\<lambda>_. None)"

inductive lease_reach :: "(host \<Rightarrow> nat \<Rightarrow> nat) \<Rightarrow> lease_sys \<Rightarrow> bool" for clk where
  start: "lease_init s \<Longrightarrow> lease_reach clk s"
| step: "lease_reach clk s \<Longrightarrow> lease_step clk s s' \<Longrightarrow> lease_reach clk s'"

section \<open>The invariant\<close>

text \<open>What the deployment must establish of the clocks: they do not run backwards, and a quarantine
  of one host outlasts the kernel window of every other.\<close>

definition clocks_ok :: "(host \<Rightarrow> nat \<Rightarrow> nat) \<Rightarrow> (host \<Rightarrow> nat) \<Rightarrow> bool" where
  "clocks_ok clk margin \<longleftrightarrow> (\<forall>i t t'. t \<le> t' \<longrightarrow> clk i t \<le> clk i t') \<and>
     (\<forall>i j t t'. t \<le> t' \<longrightarrow> clk i t + MaxKernelWindow + margin i \<le> clk i t' \<longrightarrow>
        clk j t + MaxKernelWindow \<le> clk j t')"

definition seen_by :: "lease_sys \<Rightarrow> string \<Rightarrow> nat \<Rightarrow> bool" where
  "seen_by s rv t \<longleftrightarrow> rv = lrRV (lsInit s) \<or> (\<exists>e \<in> set (lsLog s). lrRV (cmRec e) = rv \<and> cmTime e \<le> t)"

definition owned :: "lease_sys \<Rightarrow> host \<Rightarrow> string \<Rightarrow> bool" where
  "owned s i rv \<longleftrightarrow> (\<exists>e \<in> set (lsLog s). cmHost e = i \<and> lrRV (cmRec e) = rv)"

definition cleared :: "(host \<Rightarrow> nat \<Rightarrow> nat) \<Rightarrow> lease_sys \<Rightarrow> host \<Rightarrow> lease_record \<Rightarrow> bool" where
  "cleared clk s i r \<longleftrightarrow> owned s i (lrRV r) \<or>
     (\<exists>t \<le> lsNow s. seen_by s (lrRV r) t \<and>
        clk i t + MaxKernelWindow + lcMargin (lsCfg s i) \<le> clk i (lsNow s))"

definition ticket_inv :: "(host \<Rightarrow> nat \<Rightarrow> nat) \<Rightarrow> lease_sys \<Rightarrow> host \<Rightarrow> ticket \<Rightarrow> bool" where
  "ticket_inv clk s i t \<longleftrightarrow> (\<exists>e \<in> set (lsLog s). cmHost e = i \<and> cmTicket e = t)"

fun phase_inv :: "(host \<Rightarrow> nat \<Rightarrow> nat) \<Rightarrow> lease_sys \<Rightarrow> host \<Rightarrow> phase \<Rightarrow> bool" where
  "phase_inv clk s i Idle \<longleftrightarrow> True"
| "phase_inv clk s i (Chosen r nonce) \<longleftrightarrow> cleared clk s i r \<and> r \<in> committed s \<and> lrEpoch r \<noteq> - 1"
| "phase_inv clk s i (HasTicket r nonce t) \<longleftrightarrow> cleared clk s i r \<and> r \<in> committed s \<and> lrEpoch r \<noteq> - 1 \<and>
     tkDeadline t \<le> clk i (lsNow s) + MaxKernelWindow"
| "phase_inv clk s i (Replied r nonce t out) \<longleftrightarrow> ticket_inv clk s i t \<and> owned s i (lrRV out)"
| "phase_inv clk s i (Arming t out) \<longleftrightarrow> ticket_inv clk s i t \<and> owned s i (lrRV out)"

definition ctl_inv :: "(host \<Rightarrow> nat \<Rightarrow> nat) \<Rightarrow> lease_sys \<Rightarrow> host \<Rightarrow> controller \<Rightarrow> bool" where
  "ctl_inv clk s i c \<longleftrightarrow> (cAck c \<longrightarrow> owned s i (lrRV (cOwn c))) \<and>
     (cStableRV c \<noteq> [] \<longrightarrow> (\<exists>t \<le> lsNow s. clk i t = cSince c \<and> seen_by s (cStableRV c) t))"

definition log_inv :: "(host \<Rightarrow> nat \<Rightarrow> nat) \<Rightarrow> lease_sys \<Rightarrow> bool" where
  "log_inv clk s \<longleftrightarrow>
     distinct (map (\<lambda>e. lrRV (cmRec e)) (lsLog s)) \<and>
     lrRV (lsInit s) \<notin> (\<lambda>e. lrRV (cmRec e)) ` set (lsLog s) \<and>
     (\<forall>e \<in> set (lsLog s). cmTime e \<le> lsNow s \<and>
        tkDeadline (cmTicket e) \<le> clk (cmHost e) (cmTime e) + MaxKernelWindow) \<and>
     (\<forall>e \<in> set (lsLog s). cmHost e \<noteq> cmHost (hd (lsLog s)) \<longrightarrow>
        tkDeadline (cmTicket e) \<le> clk (cmHost e) (lsNow s)) \<and>
     sorted_wrt (\<lambda>a b. lrEpoch (cmRec b) < lrEpoch (cmRec a)) (lsLog s) \<and>
     (\<forall>e \<in> set (lsLog s). lrEpoch (lsInit s) < lrEpoch (cmRec e)) \<and>
     (\<forall>e \<in> set (lsLog s). cmTime e \<le> cmTime (hd (lsLog s)))"

definition lease_inv :: "(host \<Rightarrow> nat \<Rightarrow> nat) \<Rightarrow> lease_sys \<Rightarrow> bool" where
  "lease_inv clk s \<longleftrightarrow> log_inv clk s \<and>
     (\<forall>i. ctl_inv clk s i (lsCtl s i) \<and> phase_inv clk s i (lsPhase s i) \<and>
        (\<forall>t. lsPending s i = Some t \<longrightarrow> ticket_inv clk s i t) \<and>
        (\<forall>t. lsGate s i = Some t \<longrightarrow> ticket_inv clk s i t))"

section \<open>Preservation\<close>

text \<open>\<open>ext s s'\<close>: the log has only grown and time has only passed.\<close>

definition ext :: "lease_sys \<Rightarrow> lease_sys \<Rightarrow> bool" where
  "ext s s' \<longleftrightarrow> set (lsLog s) \<subseteq> set (lsLog s') \<and> lsInit s' = lsInit s \<and> lsNow s \<le> lsNow s' \<and>
     (\<forall>i. lcMargin (lsCfg s' i) = lcMargin (lsCfg s i))"

lemma ext_seen: "ext s s' \<Longrightarrow> seen_by s rv t \<Longrightarrow> seen_by s' rv t"
  by (auto simp: ext_def seen_by_def)

lemma ext_owned: "ext s s' \<Longrightarrow> owned s i rv \<Longrightarrow> owned s' i rv"
  by (auto simp: ext_def owned_def)

lemma ext_ticket: "ext s s' \<Longrightarrow> ticket_inv clk s i t \<Longrightarrow> ticket_inv clk s' i t"
  by (auto simp: ext_def ticket_inv_def)

lemma ext_committed: "ext s s' \<Longrightarrow> r \<in> committed s \<Longrightarrow> r \<in> committed s'"
  by (auto simp: ext_def committed_def)

lemma clocks_mono: "clocks_ok clk m \<Longrightarrow> t \<le> t' \<Longrightarrow> clk i t \<le> clk i t'"
  by (simp add: clocks_ok_def)

lemma clocks_window:
  "clocks_ok clk m \<Longrightarrow> t \<le> t' \<Longrightarrow> clk i t + MaxKernelWindow + m i \<le> clk i t' \<Longrightarrow>
   clk j t + MaxKernelWindow \<le> clk j t'"
  unfolding clocks_ok_def by blast

lemma ext_cleared:
  assumes "ext s s'" "clocks_ok clk m" "cleared clk s i r"
  shows "cleared clk s' i r"
proof -
  have "clk i (lsNow s) \<le> clk i (lsNow s')" using assms by (auto simp: ext_def intro: clocks_mono)
  then show ?thesis
    using assms ext_owned [OF assms(1)] ext_seen [OF assms(1)]
    unfolding cleared_def ext_def by (metis (no_types, lifting) le_trans)
qed

lemma ext_phase:
  assumes "ext s s'" "clocks_ok clk m" "phase_inv clk s i p"
  shows "phase_inv clk s' i p"
proof -
  have "clk i (lsNow s) \<le> clk i (lsNow s')" using assms by (auto simp: ext_def intro: clocks_mono)
  then show ?thesis
    using assms ext_cleared [OF assms(1,2)] ext_owned [OF assms(1)] ext_ticket [OF assms(1)]
      ext_committed [OF assms(1)]
    by (cases p) auto
qed

lemma ext_ctl: "ext s s' \<Longrightarrow> ctl_inv clk s i c \<Longrightarrow> ctl_inv clk s' i c"
  using ext_owned [of s s'] ext_seen [of s s'] unfolding ctl_inv_def ext_def
  by (metis le_trans)

lemma lease_inv_ext:
  assumes "lease_inv clk s" "clocks_ok clk m" "ext s s'" "log_inv clk s'"
    "\<And>i. lsCtl s' i = lsCtl s i \<or> ctl_inv clk s' i (lsCtl s' i)"
    "\<And>i. lsPhase s' i = lsPhase s i \<or> phase_inv clk s' i (lsPhase s' i)"
    "\<And>i t. lsPending s' i = Some t \<Longrightarrow> lsPending s i = Some t \<or> ticket_inv clk s' i t"
    "\<And>i t. lsGate s' i = Some t \<Longrightarrow> lsGate s i = Some t \<or> ticket_inv clk s' i t"
  shows "lease_inv clk s'"
  unfolding lease_inv_def
proof (intro conjI allI impI)
  fix i
  show "ctl_inv clk s' i (lsCtl s' i)"
    using assms(1,5) ext_ctl [OF assms(3)] by (metis lease_inv_def)
  show "phase_inv clk s' i (lsPhase s' i)"
    using assms(1,6) ext_phase [OF assms(3,2)] by (metis lease_inv_def)
  show "ticket_inv clk s' i t" if "lsPending s' i = Some t" for t
    using that assms(1,7) ext_ticket [OF assms(3)] by (metis lease_inv_def)
  show "ticket_inv clk s' i t" if "lsGate s' i = Some t" for t
    using that assms(1,8) ext_ticket [OF assms(3)] by (metis lease_inv_def)
qed (rule assms(4))

lemma log_inv_cong:
  "lsLog s' = lsLog s \<Longrightarrow> lsInit s' = lsInit s \<Longrightarrow> lsNow s' = lsNow s \<Longrightarrow> log_inv clk s \<Longrightarrow> log_inv clk s'"
  by (simp add: log_inv_def)

lemma log_inv_tick:
  assumes "log_inv clk s" "clocks_ok clk m"
  shows "log_inv clk (s\<lparr>lsNow := lsNow s + 1\<rparr>)"
proof -
  have "clk i (lsNow s) \<le> clk i (lsNow s + 1)" for i using assms(2) by (rule clocks_mono) simp
  then show ?thesis using assms(1) unfolding log_inv_def
    by simp (meson le_SucI le_trans)
qed

text \<open>The controller after each segment.\<close>

lemma read_clock_ctl: "read_clock c n = Some c' \<Longrightarrow> ctl_inv clk s i c \<Longrightarrow> ctl_inv clk s i c'"
  by (auto simp: read_clock_def ctl_inv_def split: if_splits)

lemma started_ctl: "ctl_inv clk s i c \<Longrightarrow> ctl_inv clk s i (c\<lparr>cStarted := b\<rparr>)"
  by (simp add: ctl_inv_def)

lemma fail_with_ctl: "ctl_inv clk s i (fst (fail_with c e terminal ok))"
  by (auto simp: fail_with_def deny_def ctl_inv_def split: if_splits)

lemma deny_ctl: "ctl_inv clk s i c \<Longrightarrow> ctl_inv clk s i (fst (deny c ok))"
  by (auto simp: deny_def ctl_inv_def)

lemma new_ctl: "ctl_inv clk s i newController"
  by (simp add: ctl_inv_def newController_def)

lemma acquired_ctl: "owned s i (lrRV out) \<Longrightarrow> ctl_inv clk s i (acquired c out)"
  by (simp add: ctl_inv_def acquired_def)

lemma committed_seen:
  "log_inv clk s \<Longrightarrow> r \<in> committed s \<Longrightarrow> seen_by s (lrRV r) (lsNow s)"
  by (auto simp: committed_def seen_by_def log_inv_def)

lemma observe_ctl:
  assumes "log_inv clk s" "ctl_inv clk s i c" "r \<in> committed s" "observe cfg c r (clk i (lsNow s)) = (c', v)"
  shows "ctl_inv clk s i c'"
  using assms(2,4) committed_seen [OF assms(1,3)]
  by (auto simp: observe_def Let_def ctl_inv_def split: if_splits)

lemma observe_cleared:
  assumes "log_inv clk s" "ctl_inv clk s i c" "r \<in> committed s"
    "observe (lsCfg s i) c r (clk i (lsNow s)) = (c', Proceed)"
  shows "cleared clk s i r"
proof -
  have v: "lrRV r \<noteq> []" using assms(4) by (auto simp: observe_def valid_def Let_def split: if_splits)
  consider "cAck c" "lrRV r = lrRV (cOwn c)"
    | "cStableRV c = lrRV r" "MaxKernelWindow + lcMargin (lsCfg s i) \<le> clk i (lsNow s) - cSince c"
    using assms(4) by (auto simp: observe_def Let_def renewal_def not_less split: if_splits)
  then show ?thesis
  proof cases
    case 1
    then show ?thesis using assms(2) by (simp add: cleared_def ctl_inv_def)
  next
    case 2
    with v assms(2) obtain t where t: "t \<le> lsNow s" "clk i t = cSince c" "seen_by s (lrRV r) t"
      by (auto simp: ctl_inv_def)
    have "0 < MaxKernelWindow" by (simp add: MaxKernelWindow_def)
    then have "clk i t + MaxKernelWindow + lcMargin (lsCfg s i) \<le> clk i (lsNow s)" using 2 t by linarith
    with t show ?thesis by (auto simp: cleared_def)
  qed
qed

text \<open>The records of the log are told apart by their versions.\<close>

lemma log_rv_inj:
  "log_inv clk s \<Longrightarrow> e \<in> set (lsLog s) \<Longrightarrow> e' \<in> set (lsLog s) \<Longrightarrow>
   lrRV (cmRec e) = lrRV (cmRec e') \<Longrightarrow> e = e'"
  by (auto simp: log_inv_def distinct_map inj_on_def)

lemma committed_auth:
  assumes "log_inv clk s" "r \<in> committed s" "lrRV r = lrRV (lsAuth s)"
  shows "r = lsAuth s"
proof (cases "lsLog s")
  case Nil
  then show ?thesis using assms by (simp add: committed_def lsAuth_def)
next
  case (Cons l ls)
  then have l: "lsAuth s = cmRec l" "l \<in> set (lsLog s)" by (simp_all add: lsAuth_def)
  have "r \<noteq> lsInit s" using assms l by (auto simp: log_inv_def)
  with assms(2) obtain e where e: "e \<in> set (lsLog s)" "r = cmRec e" by (auto simp: committed_def)
  with log_rv_inj [OF assms(1) e(1) l(2)] assms(3) l show ?thesis by simp
qed

text \<open>A successful write finds every ticket of another host expired: the heart of the argument.\<close>

lemma swap_expired:
  assumes inv: "log_inv clk s" and clk: "clocks_ok clk m" and m: "m i = lcMargin (lsCfg s i)"
    and c: "cleared clk s i r" and rv: "lrRV r = lrRV (lsAuth s)"
    and e: "e \<in> set (lsLog s)" "cmHost e \<noteq> i"
  shows "tkDeadline (cmTicket e) \<le> clk (cmHost e) (lsNow s)"
proof -
  obtain l ls where log: "lsLog s = l # ls" using e by (cases "lsLog s") auto
  then have l: "l \<in> set (lsLog s)" "lrRV r = lrRV (cmRec l)" using rv by (simp_all add: lsAuth_def)
  have "lrRV (cmRec l) \<in> (\<lambda>e. lrRV (cmRec e)) ` set (lsLog s)" using l(1) by (rule imageI)
  then have ni: "lrRV r \<noteq> lrRV (lsInit s)" using inv l(2) by (auto simp: log_inv_def)
  from c consider "owned s i (lrRV r)"
    | t where "t \<le> lsNow s" "seen_by s (lrRV r) t"
      "clk i t + MaxKernelWindow + lcMargin (lsCfg s i) \<le> clk i (lsNow s)"
    by (auto simp: cleared_def)
  then show ?thesis
  proof cases
    case 1
    then obtain e0 where "e0 \<in> set (lsLog s)" "cmHost e0 = i" "lrRV (cmRec e0) = lrRV r"
      by (auto simp: owned_def)
    then have "cmHost l = i" using log_rv_inj [OF inv _ l(1)] l(2) by metis
    then show ?thesis using inv e log by (auto simp: log_inv_def)
  next
    case 2
    then obtain e0 where "e0 \<in> set (lsLog s)" "lrRV (cmRec e0) = lrRV r" "cmTime e0 \<le> t"
      using ni by (auto simp: seen_by_def)
    then have lt: "cmTime l \<le> t" using log_rv_inj [OF inv _ l(1)] l(2) by metis
    have "cmTime e \<le> cmTime l" using inv e log by (auto simp: log_inv_def)
    then have "clk (cmHost e) (cmTime e) \<le> clk (cmHost e) t" 
      using clocks_mono [OF clk, of "cmTime e" t "cmHost e"] lt by simp
    moreover have "tkDeadline (cmTicket e) \<le> clk (cmHost e) (cmTime e) + MaxKernelWindow"
      using inv e by (auto simp: log_inv_def)
    moreover have "clk (cmHost e) t + MaxKernelWindow \<le> clk (cmHost e) (lsNow s)"
      using clocks_window [OF clk 2(1), of i] 2(3) m by simp
    ultimately show ?thesis by linarith
  qed
qed

lemma epoch_next: "e \<noteq> - 1 \<Longrightarrow> e < (e + 1 :: u64)"
proof -
  assume "e \<noteq> - 1"
  then have "1 + e \<noteq> 0" by (metis add.commute add_eq_0_iff2)
  then have "unat (e + 1) = Suc (unat e)" by (metis add.commute unatSuc)
  then show ?thesis by (simp add: word_less_nat_alt)
qed

lemma log_inv_swap:
  assumes inv: "log_inv clk s" and clk: "clocks_ok clk m" and m: "m i = lcMargin (lsCfg s i)"
    and c: "cleared clk s i r" "r \<in> committed s" "lrEpoch r \<noteq> - 1"
      "tkDeadline t \<le> clk i (lsNow s) + MaxKernelWindow"
    and rv: "lrRV r = lrRV (lsAuth s)" "rv \<notin> lrRV ` committed s"
    and out: "out = (next_record (lsCfg s i) r nonce)\<lparr>lrRV := rv\<rparr>"
  shows "log_inv clk (s\<lparr>lsLog := \<lparr>cmHost = i, cmTime = lsNow s, cmRec = out, cmTicket = t\<rparr> # lsLog s\<rparr>)"
proof -
  have r: "r = lsAuth s" by (rule committed_auth [OF inv c(2) rv(1)])
  have ep: "lrEpoch r < lrEpoch out" using epoch_next [OF c(3)] by (simp add: out next_record_def)
  have new: "lrRV out \<noteq> lrRV (cmRec e)" if "e \<in> set (lsLog s)" for e
    using rv(2) that by (auto simp: out committed_def)
  have init: "lrRV out \<noteq> lrRV (lsInit s)" using rv(2) by (auto simp: out committed_def)
  have top: "lrEpoch (cmRec e) < lrEpoch out" if "e \<in> set (lsLog s)" for e
  proof -
    have "lrEpoch (cmRec e) \<le> lrEpoch (lsAuth s)"
      using inv that by (cases "lsLog s") (auto simp: log_inv_def lsAuth_def)
    then show ?thesis using ep r by simp
  qed
  have base: "lrEpoch (lsInit s) < lrEpoch out"
  proof -
    have "lrEpoch (lsInit s) \<le> lrEpoch (lsAuth s)"
      using inv by (cases "lsLog s") (auto simp: log_inv_def lsAuth_def)
    then show ?thesis using ep r by simp
  qed
  have "\<forall>e \<in> set (lsLog s). cmHost e \<noteq> i \<longrightarrow> tkDeadline (cmTicket e) \<le> clk (cmHost e) (lsNow s)"
    using swap_expired [OF inv clk m c(1) rv(1)] by blast
  then show ?thesis
    using inv new init top base c(4) by (auto simp: log_inv_def)
qed

lemma sys_upd [simp]:
  "lsLog (upd i c p s) = lsLog s" "lsInit (upd i c p s) = lsInit s" "lsNow (upd i c p s) = lsNow s"
  "lsCfg (upd i c p s) = lsCfg s" "lsPending (upd i c p s) = lsPending s" "lsGate (upd i c p s) = lsGate s"
  "lsCtl (upd i c p s) = (lsCtl s)(i := c)" "lsPhase (upd i c p s) = (lsPhase s)(i := p)"
  by (simp_all add: upd_def)

lemma sys_denied [simp]:
  "lsLog (denied ok i s) = lsLog s" "lsInit (denied ok i s) = lsInit s" "lsNow (denied ok i s) = lsNow s"
  "lsCfg (denied ok i s) = lsCfg s" "lsCtl (denied ok i s) = lsCtl s" "lsPhase (denied ok i s) = lsPhase s"
  by (simp_all add: denied_def)

lemma denied_subset:
  "lsPending (denied ok i s) j = Some t \<Longrightarrow> lsPending s j = Some t"
  "lsGate (denied ok i s) j = Some t \<Longrightarrow> lsGate s j = Some t"
  by (auto simp: denied_def split: if_splits)

lemma inv_cong:
  assumes "lsLog s' = lsLog s" "lsInit s' = lsInit s" "lsNow s' = lsNow s"
  shows "seen_by s' = seen_by s" "owned s' = owned s" "committed s' = committed s"
    "ticket_inv clk s' = ticket_inv clk s" "ctl_inv clk s' = ctl_inv clk s"
  using assms by (auto simp: fun_eq_iff seen_by_def owned_def committed_def ticket_inv_def ctl_inv_def)

lemma ext_refl_upd:
  "ext s (upd i c p s)" "ext s (denied ok i (upd i c p s))"
  "ext s (s\<lparr>lsNow := lsNow s + 1\<rparr>)" "ext s (s\<lparr>lsGate := g\<rparr>)" "ext s (upd i c p (s\<lparr>lsPending := g\<rparr>))"
  "ext s (upd i c p (s\<lparr>lsLog := e # lsLog s\<rparr>))"
  by (auto simp: ext_def)

text \<open>A step that moves host \<open>i\<close> to a controller and phase that satisfy the invariant keeps it.\<close>

lemma lease_inv_move:
  assumes "lease_inv clk s" "clocks_ok clk m" "ctl_inv clk s i c" "phase_inv clk (upd i c p s) i p"
  shows "lease_inv clk (upd i c p s)" and "lease_inv clk (denied ok i (upd i c p s))"
proof -
  have l: "log_inv clk (upd i c p s)" using assms(1) by (auto simp: lease_inv_def intro: log_inv_cong)
  show u: "lease_inv clk (upd i c p s)"
    using assms(3,4)
    by (intro lease_inv_ext [OF assms(1,2) ext_refl_upd(1) l])
      (auto simp: inv_cong [of "upd i c p s" s])
  show "lease_inv clk (denied ok i (upd i c p s))"
  proof (rule lease_inv_ext [OF u assms(2)])
    show "ext (upd i c p s) (denied ok i (upd i c p s))" by (simp add: ext_def)
    show "log_inv clk (denied ok i (upd i c p s))" using l by (rule log_inv_cong [rotated 3]) simp_all
  qed (auto dest: denied_subset)
qed

lemma lease_invD:
  assumes "lease_inv clk s"
  shows "log_inv clk s" "ctl_inv clk s i (lsCtl s i)" "lsPhase s i = p \<Longrightarrow> phase_inv clk s i p"
    "read_clock ((lsCtl s i)\<lparr>cStarted := True\<rparr>) n = Some c \<Longrightarrow> ctl_inv clk s i c"
    "read_clock (lsCtl s i) n = Some c \<Longrightarrow> ctl_inv clk s i c"
proof -
  show "log_inv clk s" and c: "ctl_inv clk s i (lsCtl s i)" using assms by (simp_all add: lease_inv_def)
  show "lsPhase s i = p \<Longrightarrow> phase_inv clk s i p" using assms by (auto simp: lease_inv_def)
  show "read_clock ((lsCtl s i)\<lparr>cStarted := True\<rparr>) n = Some c \<Longrightarrow> ctl_inv clk s i c"
    using c by (blast intro: read_clock_ctl started_ctl)
  show "read_clock (lsCtl s i) n = Some c \<Longrightarrow> ctl_inv clk s i c" using c by (blast intro: read_clock_ctl)
qed

lemma lease_step_inv:
  assumes "lease_step clk s s'" "lease_inv clk s" "clocks_ok clk (\<lambda>i. lcMargin (lsCfg s i))"
  shows "lease_inv clk s' \<and> (\<forall>i. lcMargin (lsCfg s' i) = lcMargin (lsCfg s i))"
  using assms
proof (induction rule: lease_step.induct)
  case (tick s)
  have "lease_inv clk (s\<lparr>lsNow := lsNow s + 1\<rparr>)"
    using tick log_inv_tick [of clk s] by (intro lease_inv_ext [OF tick(1,2) ext_refl_upd(3)]) (auto simp: lease_inv_def)
  then show ?case by simp
next
  case (observed s i r c c' nonce)
  have l: "log_inv clk s" and c: "ctl_inv clk s i c"
    using lease_invD(1,4) [OF observed(7)] observed(4) by blast+
  have e: "lrEpoch r \<noteq> - 1" using observed(6) by (auto simp: choose_nonce_def split: if_splits)
  have "cleared clk s i r" using observe_cleared [OF l c observed(3,5)] .
  then have "cleared clk (upd i c' (Chosen r nonce) s) i r" by (simp add: cleared_def inv_cong [of "upd i c' (Chosen r nonce) s" s])
  then have "phase_inv clk (upd i c' (Chosen r nonce) s) i (Chosen r nonce)"
    using observed(3) e by (simp add: inv_cong [of "upd i c' (Chosen r nonce) s" s])
  then show ?case
    using lease_inv_move(1) [OF observed(7,8) observe_ctl [OF l c observed(3,5)]] by simp
next
  case (waiting s i r c c')
  have l: "log_inv clk s" and c: "ctl_inv clk s i c"
    using lease_invD(1,4) [OF waiting(6)] waiting(4) by blast+
  show ?case using lease_inv_move(1) [OF waiting(6,7) observe_ctl [OF l c waiting(3,5)], where p = Idle] by simp
next
  case (quarantined s i r c c' ok)
  have l: "log_inv clk s" and c: "ctl_inv clk s i c"
    using lease_invD(1,4) [OF quarantined(6)] quarantined(4) by blast+
  show ?case
    using lease_inv_move(2) [OF quarantined(6,7) deny_ctl [OF observe_ctl [OF l c quarantined(3,5)]], where p = Idle] by simp
next
  case (refused s i r c c' e terminal ok)
  show ?case using lease_inv_move(2) [OF refused(6,7) fail_with_ctl, where p = Idle] by simp
next
  case (failed c' s i ok e terminal)
  show ?case using lease_inv_move(2) [OF failed(2,3) fail_with_ctl, where p = Idle] by simp
next
  case (captured s i r nonce c before_ns t)
  have p: "phase_inv clk s i (Chosen r nonce)" and c: "ctl_inv clk s i c"
    using lease_invD(3,5) [OF captured(4)] captured(1,2) by blast+
  have "tkDeadline t \<le> clk i (lsNow s) + MaxKernelWindow"
    using captured(3) by (auto simp: ticket_ok_def)
  then have "phase_inv clk (upd i c (HasTicket r nonce t) s) i (HasTicket r nonce t)"
    using p by (simp add: cleared_def inv_cong [of "upd i c (HasTicket r nonce t) s" s])
  then show ?case using lease_inv_move(1) [OF captured(4,5) c] by simp
next
  case (swapped s i r nonce t rv out)
  let ?s1 = "s\<lparr>lsLog := \<lparr>cmHost = i, cmTime = lsNow s, cmRec = out, cmTicket = t\<rparr> # lsLog s\<rparr>"
  let ?s' = "upd i (lsCtl s i) (Replied r nonce t out) ?s1"
  have p: "phase_inv clk s i (HasTicket r nonce t)" using lease_invD(3) [OF swapped(6) swapped(1)] .
  have "log_inv clk ?s1"
    using p swapped(6) by (intro log_inv_swap [OF _ swapped(7) refl _ _ _ _ swapped(3,4,5)]) (auto simp: lease_inv_def)
  then have l: "log_inv clk ?s'" by (rule log_inv_cong [rotated 3]) simp_all
  have "phase_inv clk ?s' i (Replied r nonce t out)" by (simp add: ticket_inv_def owned_def)
  then show ?case
    by (intro conjI lease_inv_ext [OF swapped(6,7) ext_refl_upd(6) l]) auto
next
  case (acknowledged s i r nonce t out c)
  let ?s' = "upd i c (Arming t out) (s\<lparr>lsPending := (lsPending s)(i := Some t)\<rparr>)"
  have p: "phase_inv clk s i (Replied r nonce t out)" and c: "ctl_inv clk s i c"
    using lease_invD(3,5) [OF acknowledged(5)] acknowledged(1,2) by blast+
  have l: "log_inv clk ?s'" using acknowledged(5) by (auto simp: lease_inv_def intro: log_inv_cong)
  have k: "ticket_inv clk ?s' = ticket_inv clk s" "owned ?s' = owned s" "ctl_inv clk ?s' = ctl_inv clk s"
    by (rule inv_cong [of _ s]; simp)+
  show ?case
    using p c by (intro conjI lease_inv_ext [OF acknowledged(5,6) ext_refl_upd(5) l]) (auto simp: k split: if_splits)
next
  case (armed s i t)
  let ?s' = "s\<lparr>lsGate := (lsGate s)(i := Some t)\<rparr>"
  have t: "ticket_inv clk s i t" using armed(1,2) by (auto simp: lease_inv_def)
  have l: "log_inv clk ?s'" using armed(2) by (auto simp: lease_inv_def intro: log_inv_cong)
  have k: "ticket_inv clk ?s' = ticket_inv clk s" by (rule inv_cong [of _ s]; simp)
  show ?case
    using t by (intro conjI lease_inv_ext [OF armed(2,3) ext_refl_upd(4) l]) (auto simp: k split: if_splits)
next
  case (completed s i t out c)
  have "owned s i (lrRV out)" using lease_invD(3) [OF completed(5) completed(1)] by simp
  then have "ctl_inv clk s i (acquired c out)" by (rule acquired_ctl)
  then show ?case using lease_inv_move(1) [OF completed(5,6), where p = Idle] by simp
next
  case (restarted cfg s i)
  let ?s' = "upd i newController Idle (s\<lparr>lsCfg := (lsCfg s)(i := cfg)\<rparr>)"
  have l: "log_inv clk ?s'" using restarted(2) by (auto simp: lease_inv_def intro: log_inv_cong)
  have "ext s ?s'" using restarted(1) by (simp add: ext_def)
  then show ?case
    using restarted(1) by (intro conjI lease_inv_ext [OF restarted(2,3) _ l]) (auto simp: new_ctl)
qed

theorem lease_reach_inv:
  assumes "lease_reach clk s" "clocks_ok clk (\<lambda>i. lcMargin (lsCfg s i))"
  shows "lease_inv clk s"
  using assms
proof (induction rule: lease_reach.induct)
  case (start s)
  then show ?case by (simp add: lease_init_def lease_inv_def log_inv_def new_ctl)
next
  case (step s s')
  have m: "(\<lambda>i. lcMargin (lsCfg s' i)) = (\<lambda>i. lcMargin (lsCfg s i))"
    using step.hyps(2) by (induction rule: lease_step.induct) (auto simp: fun_eq_iff)
  then have clk: "clocks_ok clk (\<lambda>i. lcMargin (lsCfg s i))" using step.prems by simp
  then show ?case using lease_step_inv [OF step.hyps(2) step.IH [OF clk] clk] by blast
qed

section \<open>A run\<close>

text \<open>Host 0 observes the provisioned record, waits out the quarantine, and acquires the lease. A unit
  of time is ten seconds of every clock.\<close>

definition exClk :: "host \<Rightarrow> nat \<Rightarrow> nat" where
  "exClk i t = 10000000000 * t + 1"

definition exHex :: "char \<Rightarrow> string" where
  "exHex c = replicate 64 c"

definition exLease :: lease_record where
  "exLease = \<lparr>lrUID = ''u'', lrRV = ''1'', lrHolder = [], lrNonce = exHex CHR ''a'', lrProtocol = Protocol,
     lrEpoch = 0\<rparr>"

definition exCfg :: lease_config where
  "exCfg = \<lparr>lcHolder = exHex CHR ''b'', lcMargin = 1000000000\<rparr>"

definition exTicket :: ticket where
  "exTicket = \<lparr>tkCaptured = 10000000001, tkDeadline = 15000000001\<rparr>"

definition exOut :: lease_record where
  "exOut = exLease\<lparr>lrRV := ''2'', lrHolder := exHex CHR ''b'', lrNonce := exHex CHR ''c'', lrEpoch := 1\<rparr>"

definition exSys0 :: lease_sys where
  "exSys0 = \<lparr>lsNow = 0, lsInit = exLease, lsLog = [], lsCfg = (\<lambda>_. exCfg), lsCtl = (\<lambda>_. newController),
     lsPhase = (\<lambda>_. Idle), lsPending = (\<lambda>_. None), lsGate = (\<lambda>_. None)\<rparr>"

definition exCtl1 :: controller where
  "exCtl1 = newController\<lparr>cStarted := True, cLast := 1, cPinned := ''u'', cObserved := exLease,
     cStableRV := ''1'', cSince := 1\<rparr>"

definition exSys1 :: lease_sys where
  "exSys1 = exSys0\<lparr>lsCtl := (lsCtl exSys0)(0 := exCtl1)\<rparr>"

definition exSys2 :: lease_sys where
  "exSys2 = exSys1\<lparr>lsNow := 1\<rparr>"

definition exSys3 :: lease_sys where
  "exSys3 = upd 0 (exCtl1\<lparr>cLast := 10000000001\<rparr>) (Chosen exLease (exHex CHR ''c'')) exSys2"

definition exSys4 :: lease_sys where
  "exSys4 = upd 0 (exCtl1\<lparr>cLast := 10000000001\<rparr>) (HasTicket exLease (exHex CHR ''c'') exTicket) exSys3"

definition exSys5 :: lease_sys where
  "exSys5 = upd 0 (lsCtl exSys4 0) (Replied exLease (exHex CHR ''c'') exTicket exOut)
     (exSys4\<lparr>lsLog := [\<lparr>cmHost = 0, cmTime = 1, cmRec = exOut, cmTicket = exTicket\<rparr>]\<rparr>)"

definition exSys6 :: lease_sys where
  "exSys6 = upd 0 (lsCtl exSys5 0) (Arming exTicket exOut)
     (exSys5\<lparr>lsPending := (lsPending exSys5)(0 := Some exTicket)\<rparr>)"

definition exSys7 :: lease_sys where
  "exSys7 = exSys6\<lparr>lsGate := (lsGate exSys6)(0 := Some exTicket)\<rparr>"

lemma exStrong: "strong (exHex CHR ''a'')" "strong (exHex CHR ''b'')" "strong (exHex CHR ''c'')"
  by code_simp+

lemma exHex_eq: "exHex a = exHex b \<longleftrightarrow> a = b"
  by (simp add: exHex_def numeral_eq_Suc)

lemma exLease_valid: "valid exLease" "valid exOut"
  using exStrong by (simp_all add: valid_def exLease_def exOut_def)

lemma exClocks: "clocks_ok exClk (\<lambda>i. lcMargin (lsCfg exSys7 i))"
proof -
  have w: "exClk j t + MaxKernelWindow \<le> exClk j t'"
    if "t \<le> t'" "exClk i t + MaxKernelWindow + lcMargin (lsCfg exSys7 i) \<le> exClk i t'" for i j t t'
  proof -
    have "t \<noteq> t'" using that(2) by (auto simp: exClk_def MaxKernelWindow_def)
    then have "Suc t \<le> t'" using that(1) by simp
    then have "10000000000 * Suc t \<le> 10000000000 * t'" by (rule mult_le_mono2)
    then show ?thesis by (simp add: exClk_def MaxKernelWindow_def)
  qed
  then show ?thesis unfolding clocks_ok_def by (auto simp: exClk_def)
qed

lemma exReach: "lease_reach exClk exSys7"
proof -
  let ?c0 = "newController\<lparr>cStarted := True\<rparr>"
  have "lease_reach exClk exSys0"
    by (rule lease_reach.start) (simp add: lease_init_def exSys0_def)
  moreover have "lease_step exClk exSys0 exSys1"
  proof -
    have "lease_step exClk exSys0 (denied True 0 (upd 0 (fst (deny exCtl1 True)) Idle exSys0))"
      by (rule lease_step.quarantined [where r = exLease and c = "?c0\<lparr>cLast := 1\<rparr>"])
        (use exLease_valid in \<open>simp_all add: exSys0_def newController_def committed_def read_clock_def
           exClk_def observe_def exCtl1_def renewal_def noRecord_def exLease_def\<close>)
    moreover have "denied True 0 (upd 0 (fst (deny exCtl1 True)) Idle exSys0) = exSys1"
      by (simp add: denied_def upd_def deny_def exSys1_def exSys0_def fun_eq_iff)
    ultimately show ?thesis by simp
  qed
  ultimately have "lease_reach exClk exSys1" by (rule lease_reach.step)
  moreover have "lease_step exClk exSys1 exSys2"
    using lease_step.tick [of exClk exSys1] by (simp add: exSys2_def exSys1_def exSys0_def)
  ultimately have "lease_reach exClk exSys2" by (rule lease_reach.step)
  moreover have "lease_step exClk exSys2 exSys3"
    unfolding exSys3_def
    by (rule lease_step.observed [where c = "exCtl1\<lparr>cLast := 10000000001\<rparr>"])
      (use exLease_valid in \<open>simp_all add: exSys2_def exSys1_def exSys0_def exCtl1_def committed_def
         read_clock_def exClk_def observe_def newController_def renewal_def exCfg_def
         MaxKernelWindow_def choose_nonce_def exHex_eq exLease_def\<close>)
  ultimately have "lease_reach exClk exSys3" by (rule lease_reach.step)
  moreover have "lease_step exClk exSys3 exSys4"
    unfolding exSys4_def
    by (rule lease_step.captured [where before_ns = 1])
      (simp_all add: exSys3_def exSys2_def exCtl1_def read_clock_def exClk_def ticket_ok_def exTicket_def
         MaxKernelWindow_def newController_def)
  ultimately have "lease_reach exClk exSys4" by (rule lease_reach.step)
  moreover have "lease_step exClk exSys4 exSys5"
  proof -
    have n: "lsNow exSys4 = 1" "lsLog exSys4 = []" "lsPhase exSys4 0 = HasTicket exLease (exHex CHR ''c'') exTicket"
      "lsAuth exSys4 = exLease" "committed exSys4 = {exLease}" "lsCfg exSys4 0 = exCfg"
      by (simp_all add: exSys4_def exSys3_def exSys2_def exSys1_def exSys0_def lsAuth_def committed_def)
    have "exOut = (next_record (lsCfg exSys4 0) exLease (exHex CHR ''c''))\<lparr>lrRV := ''2''\<rparr>"
      by (simp add: n next_record_def exOut_def exCfg_def exLease_def)
    then show ?thesis
      using lease_step.swapped [of exSys4 0 exLease "exHex CHR ''c''" exTicket "''2''" exOut exClk]
      by (simp add: n exSys5_def) (simp add: exLease_def)
  qed
  ultimately have "lease_reach exClk exSys5" by (rule lease_reach.step)
  moreover have "lease_step exClk exSys5 exSys6"
  proof -
    have c: "lsCtl exSys5 0 = exCtl1\<lparr>cLast := 10000000001\<rparr>" "lsNow exSys5 = 1" "lsCfg exSys5 0 = exCfg"
      "lsPhase exSys5 0 = Replied exLease (exHex CHR ''c'') exTicket exOut"
      by (simp_all add: exSys5_def exSys4_def exSys3_def exSys2_def exSys1_def exSys0_def)
    have "verified exLease (next_record exCfg exLease (exHex CHR ''c'')) exOut"
      using exLease_valid by (simp add: verified_def next_record_def exOut_def exCfg_def exLease_def)
    then show ?thesis
      unfolding exSys6_def
      by (intro lease_step.acknowledged [where r = exLease and nonce = "exHex CHR ''c''"])
        (simp_all add: c read_clock_def exClk_def exTicket_def exCtl1_def newController_def)
  qed
  ultimately have "lease_reach exClk exSys6" by (rule lease_reach.step)
  moreover have "lease_step exClk exSys6 exSys7"
    unfolding exSys7_def by (rule lease_step.armed) (simp add: exSys6_def)
  ultimately show ?thesis by (rule lease_reach.step)
qed

section \<open>Properties\<close>

text \<open>C3. At no time do two hosts forward: whatever the interleaving of the controllers, of lost and
  late replies and of restarts, if the gates of two hosts are open they are the same host. The
  clocks must not run backwards, and the quarantine of one host must outlast the kernel window of
  every other.\<close>

theorem lease_mutual_exclusion:
  assumes "lease_reach clk s" "clocks_ok clk (\<lambda>i. lcMargin (lsCfg s i))"
    "forwarding clk s i" "forwarding clk s j"
  shows "i = j"
proof -
  have inv: "lease_inv clk s" by (rule lease_reach_inv [OF assms(1,2)])
  have top: "k = cmHost (hd (lsLog s))" if f: "forwarding clk s k" for k
  proof -
    from f obtain t where t: "lsGate s k = Some t" "clk k (lsNow s) < tkDeadline t"
      by (auto simp: forwarding_def split: option.splits)
    with inv obtain e where e: "e \<in> set (lsLog s)" "cmHost e = k" "cmTicket e = t"
      unfolding lease_inv_def ticket_inv_def by blast
    have "\<not> tkDeadline (cmTicket e) \<le> clk (cmHost e) (lsNow s)" using t e by simp
    then show ?thesis using inv e unfolding lease_inv_def log_inv_def by metis
  qed
  show ?thesis using top [OF assms(3)] top [OF assms(4)] by simp
qed

theorem lease_mutual_exclusion_witness:
  "{j. forwarding exClk exSys7 j} = {0}"
proof -
  have "forwarding exClk exSys7 0"
    by (simp add: forwarding_def exSys7_def exSys6_def exSys5_def exSys4_def exSys3_def exSys2_def
        exClk_def exTicket_def)
  then show ?thesis using lease_mutual_exclusion [OF exReach exClocks] by blast
qed



end
