(* ===== verification/Lease_Driver.thy ===== *)
theory Lease_Driver
  imports Lease_Controller "HOL-Library.Sublist"
begin

text \<open>
  The gate's driver connection (\<open>deploy/failover/lease/driver.go\<close>) and the clock's offset check
  (\<open>clock.go\<close>): the line protocol with the privileged child, the poisoning of a connection whose
  state is uncertain, and the ticket the connection holds between \<open>Capture\<close> and \<open>Arm\<close>. The pipe,
  the context and the identity check are the script of one exchange.
\<close>

section \<open>The connection\<close>

record driver_gate =
  dgPoisoned :: bool
  dgTicket :: ticket
  dgLastCapture :: nat
  dgIfindex :: nat
  dgProgram :: nat
  dgBackend :: nat
  dgDual :: bool

definition decimal :: "string \<Rightarrow> nat \<Rightarrow> nat option" where
  "decimal s bits =
     (if s = [] \<or> length s > 20 \<or> length s > 1 \<and> hd s = CHR ''0'' then None
      else if \<not> list_all isDigit s then None
      else case ParseUint s bits of
        None \<Rightarrow> None
      | Some n \<Rightarrow> if n = 0 then None else Some n)"

text \<open>What one \<open>Read\<close> of a byte gives; the end of the script is the end of the pipe.\<close>

datatype pipe_read = GotByte char | NoProgress | ReadFailed

definition newline :: char where "newline = CHR 0x0A"

definition printable :: "char \<Rightarrow> bool" where
  "printable c \<longleftrightarrow> \<not> ((of_char c :: nat) < 32 \<or> (of_char c :: nat) > 126)"

fun readLoop :: "nat \<Rightarrow> string \<Rightarrow> pipe_read list \<Rightarrow> string option \<times> pipe_read list" where
  "readLoop 0 b rs = (None, rs)"
| "readLoop (Suc room) b [] = (None, [])"
| "readLoop (Suc room) b (ReadFailed # rs) = (None, rs)"
| "readLoop (Suc room) b (NoProgress # rs) = (None, rs)"
| "readLoop (Suc room) b (GotByte c # rs) =
     (if c = newline then (Some b, rs)
      else if \<not> printable c then (None, rs)
      else readLoop room (b @ [c]) rs)"

definition readDriverLine :: "pipe_read list \<Rightarrow> string option \<times> pipe_read list" where
  "readDriverLine rs = readLoop 127 [] rs"

definition poison :: "driver_gate \<Rightarrow> driver_gate" where
  "poison g = g\<lparr>dgPoisoned := True\<rparr>"

text \<open>One exchange: whether the serial slot was taken before the context ended, the pipe deadlines
  and the identity checks held, the whole command was written, and the context was still live at
  the end. \<open>accept\<close> sees the reply and updates the gate, also when it then refuses it.\<close>

record exchange_io =
  xiSlot :: bool
  xiDeadlines :: bool
  xiVerify1 :: bool
  xiWritten :: bool
  xiReads :: "pipe_read list"
  xiVerify2 :: bool
  xiLive :: bool

type_synonym accept_fn = "string \<Rightarrow> driver_gate \<Rightarrow> driver_gate \<times> bool"

definition exchangeChecked ::
    "exchange_io \<Rightarrow> string \<Rightarrow> (driver_gate \<Rightarrow> bool) \<Rightarrow> accept_fn \<Rightarrow> driver_gate \<Rightarrow> driver_gate \<times> bool \<times> string list" where
  "exchangeChecked io command before_ok accept g =
     (if \<not> xiSlot io then (poison g, False, [])
      else if dgPoisoned g then (g, False, [])
      else if \<not> xiDeadlines io then (poison g, False, [])
      else if \<not> xiVerify1 io \<or> \<not> before_ok g then (poison g, False, [])
      else let sent = (if command = [] then [] else [command @ [newline]]) in
      if command \<noteq> [] \<and> \<not> xiWritten io then (poison g, False, sent)
      else case readDriverLine (xiReads io) of
        (None, _) \<Rightarrow> (poison g, False, sent)
      | (Some line, _) \<Rightarrow>
          (case accept line g of (g, ok) \<Rightarrow>
             if \<not> ok \<or> \<not> xiVerify2 io \<or> \<not> xiLive io then (poison g, False, sent)
             else (g, True, sent)))"

definition exchange ::
    "exchange_io \<Rightarrow> string \<Rightarrow> accept_fn \<Rightarrow> driver_gate \<Rightarrow> driver_gate \<times> bool \<times> string list" where
  "exchange io command accept g = exchangeChecked io command (\<lambda>_. True) accept g"

section \<open>Operations\<close>

text \<open>The two parts of \<open>ready\<close>: the dual-egress line reduced to the plain one, and the plain one.\<close>

definition acceptBackend :: "string list \<Rightarrow> driver_gate \<Rightarrow> driver_gate \<times> string list option" where
  "acceptBackend p g =
     (if \<not> dgDual g then (g, Some p)
      else if length p \<noteq> 5 \<or> p ! 0 \<noteq> ''READY2'' \<or> \<not> HasPrefix (p ! 2) ''backend='' then (g, None)
      else case decimal (TrimPrefix (p ! 2) ''backend='') 31 of
        None \<Rightarrow> (g\<lparr>dgBackend := 0\<rparr>, None)
      | Some n \<Rightarrow> (g\<lparr>dgBackend := n\<rparr>, Some [''READY'', p ! 1, p ! 3, p ! 4]))"

definition acceptReady :: accept_fn where
  "acceptReady line g =
     (case acceptBackend (split_at CHR '' '' line) g of
        (g, None) \<Rightarrow> (g, False)
      | (g, Some p) \<Rightarrow>
          if length p \<noteq> 4 \<or> p ! 0 \<noteq> ''READY'' \<or> \<not> HasPrefix (p ! 1) ''ifindex='' \<or>
            \<not> HasPrefix (p ! 2) ''program='' \<or> p ! 3 \<noteq> ''horizon_ns=5000000000''
          then (g, False)
          else (case decimal (TrimPrefix (p ! 1) ''ifindex='') 31 of
             None \<Rightarrow> (g\<lparr>dgIfindex := 0\<rparr>, False)
           | Some n \<Rightarrow>
               let g = g\<lparr>dgIfindex := n\<rparr> in
               if dgDual g \<and> dgBackend g = n then (g, False)
               else (case decimal (TrimPrefix (p ! 2) ''program='') 32 of
                  None \<Rightarrow> (g\<lparr>dgProgram := 0\<rparr>, False)
                | Some m \<Rightarrow> (g\<lparr>dgProgram := m\<rparr>, True))))"

definition ready :: "exchange_io \<Rightarrow> driver_gate \<Rightarrow> driver_gate \<times> bool \<times> string list" where
  "ready io g = exchange io [] acceptReady g"

definition acceptTicket :: accept_fn where
  "acceptTicket line g =
     (let p = split_at CHR '' '' line in
      if length p \<noteq> 3 \<or> p ! 0 \<noteq> ''TICKET'' then (g, False)
      else case decimal (p ! 1) 64 of
        None \<Rightarrow> (g, False)
      | Some c \<Rightarrow>
          (case decimal (p ! 2) 64 of
             None \<Rightarrow> (g, False)
           | Some d \<Rightarrow>
               if c \<le> dgLastCapture g \<or> d \<le> c \<or> d - c \<noteq> MaxKernelWindow then (g, False)
               else (g\<lparr>dgTicket := \<lparr>tkCaptured = c, tkDeadline = d\<rparr>, dgLastCapture := c\<rparr>, True)))"

definition Capture :: "exchange_io \<Rightarrow> driver_gate \<Rightarrow> driver_gate \<times> ticket option \<times> string list" where
  "Capture io g =
     (case exchangeChecked io ''CAPTURE'' (\<lambda>g. dgTicket g = noTicket) acceptTicket g of
        (g, ok, sent) \<Rightarrow> (g, if ok then Some (dgTicket g) else None, sent))"

definition Arm :: "exchange_io \<Rightarrow> ticket \<Rightarrow> driver_gate \<Rightarrow> driver_gate \<times> bool \<times> string list" where
  "Arm io t g =
     exchangeChecked io (''ARM '' @ showNat (tkCaptured t)) (\<lambda>g. tkCaptured t \<noteq> 0 \<and> t = dgTicket g)
       (\<lambda>line g. if line \<noteq> ''ARMED'' then (g, False) else (g\<lparr>dgTicket := noTicket\<rparr>, True)) g"

definition Deny :: "exchange_io \<Rightarrow> driver_gate \<Rightarrow> driver_gate \<times> bool \<times> string list" where
  "Deny io g =
     exchange io ''DENY''
       (\<lambda>line g. if line \<noteq> ''DENIED'' then (g, False) else (g\<lparr>dgTicket := noTicket\<rparr>, True)) g"

definition Close :: "exchange_io \<Rightarrow> bool \<Rightarrow> driver_gate \<Rightarrow> driver_gate \<times> bool \<times> string list" where
  "Close io reaped g = (case Deny io g of (g, ok, sent) \<Rightarrow> (poison g, ok \<and> reaped, sent))"

text \<open>The connection \<open>startPrivate\<close> returns once the child has announced itself.\<close>

definition newGate :: "bool \<Rightarrow> driver_gate" where
  "newGate dual = \<lparr>dgPoisoned = False, dgTicket = noTicket, dgLastCapture = 0, dgIfindex = 0,
     dgProgram = 0, dgBackend = 0, dgDual = dual\<rparr>"

definition startPrivate :: "exchange_io \<Rightarrow> bool \<Rightarrow> driver_gate option" where
  "startPrivate io dual = (case ready io (newGate dual) of (g, ok, _) \<Rightarrow> if ok then Some g else None)"

section \<open>Time namespace offsets\<close>

fun zeroLines :: "string set \<Rightarrow> string list \<Rightarrow> bool" where
  "zeroLines seen [] \<longleftrightarrow> ''monotonic'' \<in> seen \<and> ''boottime'' \<in> seen"
| "zeroLines seen (line # rest) =
     (let p = Fields line in
      if length p \<noteq> 3 \<or> p ! 0 \<noteq> ''monotonic'' \<and> p ! 0 \<noteq> ''boottime'' \<or> p ! 0 \<in> seen \<or>
        p ! 1 \<noteq> ''0'' \<or> p ! 2 \<noteq> ''0''
      then False else zeroLines (insert (p ! 0) seen) rest)"

definition zeroOffsets :: "string \<Rightarrow> bool" where
  "zeroOffsets s = zeroLines {} (split_at newline (TrimSuffix s [newline]))"

section \<open>Sequences of operations\<close>

datatype gate_op = OCapture | OArm ticket | ODeny

datatype gate_event = EvCaptured ticket | EvArmed ticket | EvDenied | EvUncertain

fun gateStep :: "gate_op \<times> exchange_io \<Rightarrow> driver_gate \<Rightarrow> driver_gate \<times> gate_event \<times> string list" where
  "gateStep (OCapture, io) g = (case Capture io g of (g, r, sent) \<Rightarrow>
     (g, case r of Some t \<Rightarrow> EvCaptured t | None \<Rightarrow> EvUncertain, sent))"
| "gateStep (OArm t, io) g = (case Arm io t g of (g, ok, sent) \<Rightarrow> (g, if ok then EvArmed t else EvUncertain, sent))"
| "gateStep (ODeny, io) g = (case Deny io g of (g, ok, sent) \<Rightarrow> (g, if ok then EvDenied else EvUncertain, sent))"

fun gateRun :: "(gate_op \<times> exchange_io) list \<Rightarrow> driver_gate \<Rightarrow> (gate_event \<times> string list) list" where
  "gateRun [] g = []"
| "gateRun (x # xs) g = (case gateStep x g of (g', e, sent) \<Rightarrow> (e, sent) # gateRun xs g')"

fun capturedOf :: "gate_event list \<Rightarrow> ticket list" where
  "capturedOf [] = []"
| "capturedOf (EvCaptured t # es) = t # capturedOf es"
| "capturedOf (_ # es) = capturedOf es"

fun armedOf :: "gate_event list \<Rightarrow> ticket list" where
  "armedOf [] = []"
| "armedOf (EvArmed t # es) = t # armedOf es"
| "armedOf (_ # es) = armedOf es"

section \<open>Lemmas\<close>

lemma exchangeChecked_ok:
  "exchangeChecked io cmd bef acc g = (g', True, sent) \<Longrightarrow>
   \<not> dgPoisoned g \<and> bef g \<and> (\<exists>line. acc line g = (g', True)) \<and> sent = (if cmd = [] then [] else [cmd @ [newline]])"
  by (auto simp: exchangeChecked_def Let_def split: if_splits prod.splits option.splits)

lemma exchangeChecked_failed:
  "exchangeChecked io cmd bef acc g = (g', False, sent) \<Longrightarrow> dgPoisoned g'"
  by (auto simp: exchangeChecked_def Let_def poison_def split: if_splits prod.splits option.splits)

lemma exchangeChecked_poisoned:
  "dgPoisoned g \<Longrightarrow> \<exists>g'. exchangeChecked io cmd bef acc g = (g', False, []) \<and> dgPoisoned g'"
  by (auto simp: exchangeChecked_def poison_def)

lemma gateStep_uncertain: "gateStep x g = (g', EvUncertain, sent) \<Longrightarrow> dgPoisoned g'"
  by (cases "(x, g)" rule: gateStep.cases)
    (auto simp: Capture_def Arm_def Deny_def exchange_def dest: exchangeChecked_failed
       split: prod.splits if_splits option.splits)

lemma gateStep_poisoned:
  assumes "dgPoisoned g"
  shows "\<exists>g'. gateStep x g = (g', EvUncertain, []) \<and> dgPoisoned g'"
proof -
  note ex = exchangeChecked_poisoned [OF assms]
  obtain op io where x: "x = (op, io)" by force
  show ?thesis
  proof (cases op)
    case OCapture
    then show ?thesis using ex [of io "''CAPTURE''" "\<lambda>g. dgTicket g = noTicket" acceptTicket]
      by (auto simp: x Capture_def)
  next
    case (OArm t)
    then show ?thesis
      using ex [of io "''ARM '' @ showNat (tkCaptured t)" "\<lambda>g. tkCaptured t \<noteq> 0 \<and> t = dgTicket g"
          "\<lambda>line g. if line \<noteq> ''ARMED'' then (g, False) else (g\<lparr>dgTicket := noTicket\<rparr>, True)"]
      by (auto simp: x Arm_def)
  next
    case ODeny
    then show ?thesis
      using ex [of io "''DENY''" "\<lambda>_. True"
          "\<lambda>line g. if line \<noteq> ''DENIED'' then (g, False) else (g\<lparr>dgTicket := noTicket\<rparr>, True)"]
      by (auto simp: x Deny_def exchange_def)
  qed
qed

lemma gateRun_poisoned: "dgPoisoned g \<Longrightarrow> gateRun xs g = map (\<lambda>_. (EvUncertain, [])) xs"
proof (induction xs arbitrary: g)
  case (Cons x xs)
  then show ?case using gateStep_poisoned [OF Cons.prems, of x] by auto
qed simp

lemma gateStep_captured:
  "gateStep x g = (g', EvCaptured t, sent) \<Longrightarrow>
   dgTicket g = noTicket \<and> dgTicket g' = t \<and> dgLastCapture g < tkCaptured t \<and> dgLastCapture g' = tkCaptured t \<and>
   tkDeadline t = tkCaptured t + MaxKernelWindow"
  by (cases "(x, g)" rule: gateStep.cases)
    (auto simp: Capture_def Arm_def Deny_def acceptTicket_def Let_def dest!: exchangeChecked_ok
       split: prod.splits if_splits option.splits)

lemma gateStep_armed:
  "gateStep x g = (g', EvArmed t, sent) \<Longrightarrow>
   dgTicket g = t \<and> tkCaptured t \<noteq> 0 \<and> dgTicket g' = noTicket \<and> dgLastCapture g' = dgLastCapture g"
  by (cases "(x, g)" rule: gateStep.cases)
    (auto simp: Capture_def Arm_def Deny_def dest!: exchangeChecked_ok
       split: prod.splits if_splits option.splits)

lemma gateStep_denied:
  "gateStep x g = (g', EvDenied, sent) \<Longrightarrow> dgTicket g' = noTicket \<and> dgLastCapture g' = dgLastCapture g"
  by (cases "(x, g)" rule: gateStep.cases)
    (auto simp: Capture_def Arm_def Deny_def exchange_def dest!: exchangeChecked_ok
       split: prod.splits if_splits option.splits)


text \<open>The tickets armed by a run are among the captured ones, and the one the connection holds.\<close>

definition held :: "driver_gate \<Rightarrow> ticket list" where
  "held g = (if dgPoisoned g \<or> dgTicket g = noTicket then [] else [dgTicket g])"

lemma gateStep_event:
  assumes "gateStep x g = (g', e, sent)"
  shows "subseq (armedOf [e] @ held g') (held g @ capturedOf [e])"
proof (cases e)
  case (EvCaptured t)
  then show ?thesis using gateStep_captured assms by (auto simp: held_def)
next
  case (EvArmed t)
  have "\<not> dgPoisoned g" using gateStep_poisoned [of g x] assms EvArmed by auto
  moreover have "dgTicket g = t" "t \<noteq> noTicket" "dgTicket g' = noTicket"
    using gateStep_armed [of x g g' t sent] assms EvArmed by (auto simp: noTicket_def)
  ultimately show ?thesis using EvArmed by (simp add: held_def)
next
  case EvDenied
  then show ?thesis using gateStep_denied assms by (auto simp: held_def)
next
  case EvUncertain
  then show ?thesis using gateStep_uncertain assms by (auto simp: held_def)
qed

lemma events_Cons:
  "armedOf (e # es) = armedOf [e] @ armedOf es" "capturedOf (e # es) = capturedOf [e] @ capturedOf es"
  by (cases e; simp)+

lemma gateRun_armed: "subseq (armedOf (map fst (gateRun xs g))) (held g @ capturedOf (map fst (gateRun xs g)))"
proof (induction xs arbitrary: g)
  case (Cons x xs)
  obtain g' e sent where s: "gateStep x g = (g', e, sent)" by (cases "gateStep x g")
  let ?es = "map fst (gateRun xs g')"
  have "subseq (armedOf [e] @ armedOf ?es) (armedOf [e] @ held g' @ capturedOf ?es)"
    using Cons.IH by (intro list_emb_append_mono) auto
  also have "subseq (armedOf [e] @ held g' @ capturedOf ?es) (held g @ capturedOf [e] @ capturedOf ?es)"
    using list_emb_append_mono [OF gateStep_event [OF s], of "capturedOf ?es" "capturedOf ?es"] by simp
  finally have "subseq (armedOf (e # ?es)) (held g @ capturedOf (e # ?es))"
    by (simp only: events_Cons [of e ?es])
  then show ?case by (simp add: s)
qed simp

lemma gateRun_captured:
  "sorted_wrt (\<lambda>a b. tkCaptured a < tkCaptured b) (capturedOf (map fst (gateRun xs g))) \<and>
   (\<forall>t \<in> set (capturedOf (map fst (gateRun xs g))).
      dgLastCapture g < tkCaptured t \<and> tkDeadline t = tkCaptured t + MaxKernelWindow)"
proof (induction xs arbitrary: g)
  case (Cons x xs)
  obtain g' e sent where s: "gateStep x g = (g', e, sent)" by (cases "gateStep x g")
  show ?case
  proof (cases e)
    case (EvCaptured t)
    then show ?thesis using Cons.IH [of g'] gateStep_captured [of x g g' t sent] s by auto
  next
    case (EvArmed t)
    then show ?thesis using Cons.IH [of g'] gateStep_armed [of x g g' t sent] s by auto
  next
    case EvDenied
    then show ?thesis using Cons.IH [of g'] gateStep_denied [of x g g' sent] s by auto
  next
    case EvUncertain
    then have "dgPoisoned g'" using gateStep_uncertain s by blast
    moreover have "capturedOf (map (\<lambda>_. EvUncertain) xs) = []" by (induction xs) simp_all
    ultimately show ?thesis using EvUncertain s by (simp add: gateRun_poisoned comp_def)
  qed
qed simp

lemma gateRun_after:
  "list_all (\<lambda>p. p = (EvUncertain, [])) (drop 1 (dropWhile (\<lambda>p. fst p \<noteq> EvUncertain) (gateRun xs g)))"
proof (induction xs arbitrary: g)
  case (Cons x xs)
  obtain g' e sent where s: "gateStep x g = (g', e, sent)" by (cases "gateStep x g")
  show ?case
  proof (cases "e = EvUncertain")
    case True
    then have "dgPoisoned g'" using gateStep_uncertain s by blast
    then show ?thesis using True by (simp add: s gateRun_poisoned list_all_iff)
  qed (simp add: s Cons.IH [simplified])
qed simp

lemma sorted_wrt_irrefl_distinct: "sorted_wrt R xs \<Longrightarrow> (\<And>x. \<not> R x x) \<Longrightarrow> distinct xs"
  by (induction xs) auto

lemma subseq_distinct: "subseq xs ys \<Longrightarrow> distinct ys \<Longrightarrow> distinct xs"
  by (auto simp: subseq_conv_nths)

lemma showNat_length: "n < 10 ^ k \<Longrightarrow> 0 < k \<Longrightarrow> length (showNat n) \<le> k"
proof (induction k arbitrary: n)
  case (Suc k)
  show ?case
  proof (cases "n < 10")
    case True
    then show ?thesis by (simp add: showNat.simps)
  next
    case False
    then have "0 < k" "n div 10 < 10 ^ k" using Suc.prems by (cases k, auto)
    then show ?thesis using Suc.IH False by (simp add: showNat.simps [of n])
  qed
qed simp

lemma showNat_hd: "0 < n \<Longrightarrow> hd (showNat n) \<noteq> CHR ''0''"
proof (induction n rule: showNat.induct)
  case (1 n)
  show ?case
  proof (cases "n < 10")
    case True
    have "hd (showNat n) = digitChar n" using True by (simp add: showNat.simps)
    moreover have "digitVal (digitChar n) \<noteq> digitVal CHR ''0''"
      using True 1(2) by (simp add: digitChar_digit) (simp add: digitVal_def)
    ultimately show ?thesis by metis
  next
    case False
    then show ?thesis using 1 showNat_digits [of "n div 10"] by (simp add: showNat.simps [of n])
  qed
qed

lemma digitVal_zero: "isDigit c \<Longrightarrow> digitVal c = 0 \<Longrightarrow> c = CHR ''0''"
proof -
  have "digitChar 0 = CHR ''0''" by code_simp
  then show "isDigit c \<Longrightarrow> digitVal c = 0 \<Longrightarrow> c = CHR ''0''" using digitChar_val [of c] by simp
qed

section \<open>Properties\<close>

text \<open>The driver's numbers have one spelling: within 64 bits, \<open>decimal\<close> accepts exactly the
  decimal representation, without sign or leading zero, of a positive number in range.\<close>

lemma decimal_exact:
  assumes "bits \<le> 64"
  shows "decimal s bits = Some n \<longleftrightarrow> s = showNat n \<and> 0 < n \<and> n < 2 ^ bits"
proof
  assume l: "decimal s bits = Some n"
  then have s: "s \<noteq> []" "list_all isDigit s" "length s > 1 \<longrightarrow> hd s \<noteq> CHR ''0''" "numVal s = n" "0 < n" "n < 2 ^ bits"
    by (auto simp: decimal_def ParseUint_def split: if_splits option.splits)
  then have "length s > 1 \<longrightarrow> digitVal (hd s) \<noteq> 0"
    using digitVal_zero [of "hd s"] by (cases s) auto
  then show "s = showNat n \<and> 0 < n \<and> n < 2 ^ bits" using s showNat_numVal [of s] by auto
next
  assume r: "s = showNat n \<and> 0 < n \<and> n < 2 ^ bits"
  have "(2 :: nat) ^ bits \<le> 2 ^ 64" by (rule power_increasing) (use assms in auto)
  then have "n < 10 ^ 20" using r by (simp add: less_le_trans)
  then have "length s \<le> 20" using showNat_length [of n 20] r by simp
  then show "decimal s bits = Some n"
    using r showNat_digits [of n] showNat_hd [of n] by (simp add: decimal_def ParseUint_showNat)
qed

lemma readLoop_exact:
  "readLoop n b rs = (Some line, rest) \<longleftrightarrow>
   (\<exists>cs. line = b @ cs \<and> length cs < n \<and> list_all (\<lambda>c. printable c \<and> c \<noteq> newline) cs \<and>
      rs = map GotByte cs @ GotByte newline # rest)" (is "?L n b rs \<longleftrightarrow> ?R n b rs")
proof (induction n b rs rule: readLoop.induct)
  case (5 room b c rs)
  show ?case
  proof (cases "c = newline")
    case True
    then show ?thesis by (auto simp: neq_Nil_conv Cons_eq_append_conv Cons_eq_map_conv)
  next
    case False
    show ?thesis
    proof (cases "printable c")
      case True
      with False 5 have "?L (Suc room) b (GotByte c # rs) \<longleftrightarrow> ?R room (b @ [c]) rs" by simp
      also have "\<dots> \<longleftrightarrow> ?R (Suc room) b (GotByte c # rs)"
      proof
        assume "?R room (b @ [c]) rs"
        then obtain cs where "line = b @ c # cs" "length cs < room"
          "list_all (\<lambda>c. printable c \<and> c \<noteq> newline) cs" "rs = map GotByte cs @ GotByte newline # rest" by auto
        then show "?R (Suc room) b (GotByte c # rs)" using True False by (intro exI [of _ "c # cs"]) auto
      next
        assume "?R (Suc room) b (GotByte c # rs)"
        then obtain cs where cs: "line = b @ cs" "length cs < Suc room"
          "list_all (\<lambda>c. printable c \<and> c \<noteq> newline) cs" "GotByte c # rs = map GotByte cs @ GotByte newline # rest" by auto
        then show "?R room (b @ [c]) rs" using False by (cases cs) auto
      qed
      finally show ?thesis .
    next
      case np: False
      then show ?thesis using False by (auto simp: Cons_eq_append_conv Cons_eq_map_conv)
    qed
  qed
qed (auto simp: Cons_eq_append_conv Cons_eq_map_conv)

text \<open>\<open>readDriverLine\<close> consumes exactly one line: it returns the reply of at most 126 printable
  characters and leaves every byte after its newline unread; it returns nothing else.\<close>


lemma readDriverLine_exact:
  "readDriverLine rs = (Some line, rest) \<longleftrightarrow>
   length line \<le> 126 \<and> list_all (\<lambda>c. printable c \<and> c \<noteq> newline) line \<and>
   rs = map GotByte line @ GotByte newline # rest"
  by (auto simp: readDriverLine_def readLoop_exact)

text \<open>C31. Over any sequence of operations on a new connection, whatever the child answers: the
  captured tickets have strictly increasing capture times and the exact kernel window, the armed
  tickets are a subsequence of the captured ones, so that none is armed twice, and after the first
  uncertain operation nothing more is sent or succeeds.\<close>

theorem driver_gate_protocol:
  "let es = map fst (gateRun xs (newGate dual)) in
   sorted_wrt (\<lambda>a b. tkCaptured a < tkCaptured b) (capturedOf es) \<and>
   list_all (\<lambda>t. tkDeadline t = tkCaptured t + MaxKernelWindow) (capturedOf es) \<and>
   subseq (armedOf es) (capturedOf es) \<and> distinct (armedOf es) \<and>
   list_all (\<lambda>p. p = (EvUncertain, [])) (drop 1 (dropWhile (\<lambda>p. fst p \<noteq> EvUncertain) (gateRun xs (newGate dual))))"
proof -
  let ?es = "map fst (gateRun xs (newGate dual))"
  have c: "sorted_wrt (\<lambda>a b. tkCaptured a < tkCaptured b) (capturedOf ?es)"
    "list_all (\<lambda>t. tkDeadline t = tkCaptured t + MaxKernelWindow) (capturedOf ?es)"
    using gateRun_captured [of xs "newGate dual"] by (auto simp: list_all_iff)
  have a: "subseq (armedOf ?es) (capturedOf ?es)"
    using gateRun_armed [of xs "newGate dual"] by (simp add: held_def newGate_def)
  have "distinct (capturedOf ?es)"
    by (rule sorted_wrt_irrefl_distinct [OF c(1)]) auto
  then have "distinct (armedOf ?es)" by (rule subseq_distinct [OF a])
  moreover have "list_all (\<lambda>p. p = (EvUncertain, [])) (drop 1 (dropWhile (\<lambda>p. fst p \<noteq> EvUncertain) (gateRun xs g)))" for g
    by (rule gateRun_after)
  ultimately show ?thesis using c a by (simp add: Let_def)
qed

end
