(* ===== verification/Go_Num.thy ===== *)
theory Go_Num
  imports Go_Strings Complex_Main "HOL-Library.Log_Nat" "HOL-Library.Char_ord"
begin

text \<open>
  Identifiers, times and floating-point numbers as the Go sources use them: a UUID is its 128-bit
  value, a \<open>time.Time\<close> its nanoseconds since some epoch, a \<open>time.Duration\<close> a signed 64-bit number
  of nanoseconds with Go's saturating \<open>Time.Sub\<close> and wrapping product, and a \<open>float64\<close> the
  rational number it denotes, rounded to nearest even after every operation.
\<close>

type_synonym uuid = nat
type_synonym time = int
type_synonym duration = int

definition uuidNil :: uuid where "uuidNil = 0"

text \<open>Go's zero \<open>time.Time\<close>, relative to the Unix epoch.\<close>

definition zeroTime :: time where "zeroTime = - 62135596800 * 1000000000"

definition int64 :: "int \<Rightarrow> int" where
  "int64 n = (n + 2 ^ 63) mod 2 ^ 64 - 2 ^ 63"

definition Seconds :: "int \<Rightarrow> duration" where
  "Seconds n = int64 (int64 n * 1000000000)"

definition timeSub :: "time \<Rightarrow> time \<Rightarrow> duration" where
  "timeSub a b = max (- (2 ^ 63)) (min (2 ^ 63 - 1) (a - b))"

lemma int64_id: "- (2 ^ 63) \<le> n \<Longrightarrow> n < 2 ^ 63 \<Longrightarrow> int64 n = n"
  by (simp add: int64_def)

lemma Seconds_id: "0 \<le> n \<Longrightarrow> n \<le> 9000000000 \<Longrightarrow> Seconds n = n * 1000000000"
  by (simp add: Seconds_def int64_id)

lemma timeSub_gt: "d < 2 ^ 63 - 1 \<Longrightarrow> - (2 ^ 63) \<le> d \<Longrightarrow> d < timeSub a b \<longleftrightarrow> d < a - b"
  by (auto simp: timeSub_def)

lemma timeSub_lt: "d < 2 ^ 63 - 1 \<Longrightarrow> - (2 ^ 63) < d \<Longrightarrow> timeSub a b < d \<longleftrightarrow> a - b < d"
  by (auto simp: timeSub_def)

section \<open>float64\<close>

definition round_even :: "rat \<Rightarrow> int" where
  "round_even x = (let f = \<lfloor>x\<rfloor>; d = x - of_int f in
     if d < 1 / 2 then f else if d > 1 / 2 then f + 1 else if even f then f else f + 1)"

definition pow2 :: "int \<Rightarrow> rat" where
  "pow2 e = (if 0 \<le> e then 2 ^ nat e else 1 / 2 ^ nat (- e))"

definition rat_log2 :: "rat \<Rightarrow> int" where
  "rat_log2 x = (case quotient_of x of (p, q) \<Rightarrow>
     let k = bitlen p - bitlen q in if x < pow2 k then k - 1 else k)"

text \<open>Rounding of a number in the range of normal numbers.\<close>

definition fl :: "rat \<Rightarrow> rat" where
  "fl x = (if x = 0 then 0
     else let ulp = pow2 (rat_log2 (abs x) - 52) in of_int (round_even (x / ulp)) * ulp)"

text \<open>Integers up to \<open>2\<^sup>5\<^sup>3\<close> are exact.\<close>

definition fl_of_int :: "int \<Rightarrow> rat" where
  "fl_of_int n = (if abs n \<le> 9007199254740992 then of_int n else fl (of_int n))"

definition fl_mult :: "rat \<Rightarrow> rat \<Rightarrow> rat" where "fl_mult x y = fl (x * y)"

definition fl_div :: "rat \<Rightarrow> rat \<Rightarrow> rat" where "fl_div x y = fl (x / y)"

lemma round_even_of_int [simp]: "round_even (of_int n) = n"
  by (simp add: round_even_def)

lemma fl_zero [simp]: "fl 0 = 0"
  by (simp add: fl_def)

lemma fl_exact:
  "x = of_int m * pow2 (rat_log2 (abs x) - 52) \<Longrightarrow> fl x = x"
proof -
  assume x: "x = of_int m * pow2 (rat_log2 (abs x) - 52)"
  have "pow2 (rat_log2 (abs x) - 52) \<noteq> 0" by (simp add: pow2_def)
  then have "x / pow2 (rat_log2 (abs x) - 52) = of_int m" using x by (metis nonzero_mult_div_cancel_right)
  then show ?thesis using x by (auto simp: fl_def Let_def)
qed

end
