(* ===== verification/Failover_Eligibility.thy ===== *)
theory Failover_Eligibility
  imports Go_Num
begin

text \<open>
  Failover groups and the eligibility of their members (\<open>failover/groups.go\<close>, \<open>eligibility.go\<close>,
  \<open>status.go\<close>): validation of a desired group, the decision which of its two engines may serve, and
  the projection of a reported observation. The textual form of a UUID belongs to a library and is
  a parameter: \<open>utParse\<close> and \<open>utString\<close>.
\<close>

section \<open>Types\<close>

record uuid_text =
  utParse :: "string \<Rightarrow> uuid option"
  utString :: "uuid \<Rightarrow> string"

record fgroup =
  fgID :: uuid
  fgName :: string
  fgIP :: string
  fgA :: uuid
  fgB :: uuid
  fgGeneration :: int
  fgLifecycle :: string

datatype eligibility_reason = ReasonLifecycle | ReasonInvalidGroup | ReasonInvalidClock | ReasonExpectedMembers
  | ReasonInvalidBinding | ReasonBindingTime | ReasonFailureDomain | ReasonInventoryTime | ReasonRevoked
  | ReasonDeleted | ReasonPolicyMismatch | ReasonTargetMismatch | ReasonNotReady | ReasonManagement
  | ReasonDirectDNS | ReasonSnapshot | ReasonEmptyPool

record placement =
  plEngine :: uuid
  plPod :: string
  plNodeUID :: string
  plNodeName :: string
  plObserved :: time

record echeck =
  ckOK :: bool
  ckObserved :: time

record esnapshot =
  snVersion :: nat
  snDigest :: string

record evidence =
  evEngine :: uuid
  evPolicy :: uuid
  evSession :: uuid
  evContainer :: string
  evPod :: string
  evPlacement :: placement
  evObserved :: time
  evRevoked :: bool
  evDeleted :: bool
  evReady :: echeck
  evManagement :: echeck
  evDNS :: echeck
  evApplied :: esnapshot
  evTarget :: esnapshot
  evSnapshotObserved :: time
  evValidUntil :: time

record member_eligibility =
  meEngine :: uuid
  meEligible :: bool
  meReasons :: "eligibility_reason list"

record eligibility =
  elMembers :: "member_eligibility \<times> member_eligibility"
  elEligible :: "uuid list"
  elReasons :: "eligibility_reason list"

section \<open>Validation\<close>

definition nameChar :: "char \<Rightarrow> bool" where
  "nameChar c \<longleftrightarrow> isDigit c \<or> (let n = of_char c :: nat in 97 \<le> n \<and> n \<le> 122)"

text \<open>The regular expression \<open>nameRE\<close>: a name character, then at most 61 name characters or dashes
  and another name character.\<close>

definition nameRE :: "string \<Rightarrow> bool" where
  "nameRE s \<longleftrightarrow> s \<noteq> [] \<and> length s \<le> 63 \<and> nameChar (hd s) \<and> nameChar (last s) \<and>
     list_all (\<lambda>c. nameChar c \<or> c = CHR ''-'') s"

text \<open>\<open>netip.ParseAddr\<close> on dotted addresses.\<close>

definition parseOctet :: "string \<Rightarrow> nat option" where
  "parseOctet s =
     (if s = [] \<or> \<not> list_all isDigit s \<or> length s > 3 \<or> length s > 1 \<and> hd s = CHR ''0'' \<or> numVal s > 255
      then None else Some (numVal s))"

definition parseIPv4 :: "string \<Rightarrow> nat list option" where
  "parseIPv4 s = (case map parseOctet (split_at CHR ''.'' s) of
     [Some a, Some b, Some c, Some d] \<Rightarrow> Some [a, b, c, d] | _ \<Rightarrow> None)"

definition showIPv4 :: "nat list \<Rightarrow> string" where
  "showIPv4 a = join_with CHR ''.'' (map showNat a)"

definition IsGlobalUnicast :: "nat list \<Rightarrow> bool" where
  "IsGlobalUnicast a \<longleftrightarrow> a \<noteq> [0, 0, 0, 0] \<and> a \<noteq> [255, 255, 255, 255] \<and> a ! 0 \<noteq> 127 \<and>
     \<not> (224 \<le> a ! 0 \<and> a ! 0 \<le> 239) \<and> \<not> (a ! 0 = 169 \<and> a ! 1 = 254)"

definition Validate :: "fgroup \<Rightarrow> bool" where
  "Validate g \<longleftrightarrow>
     nameRE (fgName g) \<and>
     (case parseIPv4 (fgIP g) of
        None \<Rightarrow> False
      | Some a \<Rightarrow> showIPv4 a = fgIP g \<and> IsGlobalUnicast a \<and> a ! 0 \<noteq> 0 \<and> a ! 0 < 224) \<and>
     fgA g \<noteq> uuidNil \<and> fgB g \<noteq> uuidNil \<and> fgA g \<noteq> fgB g"

section \<open>Eligibility\<close>

definition freshEligibility :: "time \<Rightarrow> time \<Rightarrow> duration \<Rightarrow> bool" where
  "freshEligibility seen now maxAge \<longleftrightarrow> seen \<noteq> zeroTime \<and> \<not> seen > now \<and> timeSub now seen \<le> maxAge"

definition canonicalUID :: "uuid_text \<Rightarrow> string \<Rightarrow> bool" where
  "canonicalUID u s = (case utParse u s of None \<Rightarrow> False | Some i \<Rightarrow> i \<noteq> uuidNil \<and> utString u i = s)"

definition canonicalNodeName :: "string \<Rightarrow> bool" where
  "canonicalNodeName s \<longleftrightarrow> length s \<le> 253 \<and> list_all nameRE (split_at CHR ''.'' s)"

definition digestRE :: "string \<Rightarrow> bool" where
  "digestRE s \<longleftrightarrow> length s = 64 \<and> list_all isLowerHex s"

definition validEligibilitySnapshot :: "esnapshot \<Rightarrow> bool" where
  "validEligibilitySnapshot s \<longleftrightarrow> snVersion s > 0 \<and> digestRE (snDigest s)"

definition distinctNodes :: "placement \<Rightarrow> placement \<Rightarrow> bool" where
  "distinctNodes a b \<longleftrightarrow>
     (if plNodeUID a \<noteq> [] \<and> plNodeUID a = plNodeUID b \<or> plNodeName a \<noteq> [] \<and> plNodeName a = plNodeName b then False
      else plNodeUID a \<noteq> [] \<and> plNodeUID b \<noteq> [] \<or> plNodeName a \<noteq> [] \<and> plNodeName b \<noteq> [])"

text \<open>The evidence slots the switch fills, their counts, and whether anything unexpected came.\<close>

definition noEvidence :: evidence where
  "noEvidence = \<lparr>evEngine = 0, evPolicy = 0, evSession = 0, evContainer = [], evPod = [],
     evPlacement = \<lparr>plEngine = 0, plPod = [], plNodeUID = [], plNodeName = [], plObserved = zeroTime\<rparr>,
     evObserved = zeroTime, evRevoked = False, evDeleted = False,
     evReady = \<lparr>ckOK = False, ckObserved = zeroTime\<rparr>, evManagement = \<lparr>ckOK = False, ckObserved = zeroTime\<rparr>,
     evDNS = \<lparr>ckOK = False, ckObserved = zeroTime\<rparr>, evApplied = \<lparr>snVersion = 0, snDigest = []\<rparr>,
     evTarget = \<lparr>snVersion = 0, snDigest = []\<rparr>, evSnapshotObserved = zeroTime, evValidUntil = zeroTime\<rparr>"

record slots =
  slA :: evidence
  slB :: evidence
  slCountA :: nat
  slCountB :: nat
  slUnexpected :: bool

definition fillSlot :: "fgroup \<Rightarrow> evidence \<Rightarrow> slots \<Rightarrow> slots" where
  "fillSlot g e s =
     (if evEngine e = fgA g then s\<lparr>slA := e, slCountA := slCountA s + 1\<rparr>
      else if evEngine e = fgB g then s\<lparr>slB := e, slCountB := slCountB s + 1\<rparr>
      else s\<lparr>slUnexpected := True\<rparr>)"

definition fillSlots :: "fgroup \<Rightarrow> evidence list \<Rightarrow> slots" where
  "fillSlots g es = fold (fillSlot g) es
     \<lparr>slA = noEvidence, slB = noEvidence, slCountA = 0, slCountB = 0, slUnexpected = (length es \<noteq> 2)\<rparr>"

definition bindingBad :: "uuid_text \<Rightarrow> evidence \<Rightarrow> bool" where
  "bindingBad u e \<longleftrightarrow> (let p = evPlacement e in
     plEngine p \<noteq> evEngine e \<or> \<not> canonicalUID u (evPod e) \<or> plPod p \<noteq> evPod e \<or>
     plNodeUID p = [] \<and> plNodeName p = [] \<or>
     plNodeUID p \<noteq> [] \<and> \<not> canonicalUID u (plNodeUID p) \<or>
     plNodeName p \<noteq> [] \<and> \<not> canonicalNodeName (plNodeName p))"

definition checkBad :: "echeck \<Rightarrow> time \<Rightarrow> duration \<Rightarrow> bool" where
  "checkBad c now maxAge \<longleftrightarrow> \<not> ckOK c \<or> \<not> freshEligibility (ckObserved c) now maxAge"

definition reasonIf :: "bool \<Rightarrow> eligibility_reason \<Rightarrow> eligibility_reason list" where
  "reasonIf b r = (if b then [r] else [])"

definition memberReasons :: "uuid_text \<Rightarrow> evidence \<Rightarrow> time \<Rightarrow> duration \<Rightarrow> eligibility_reason list" where
  "memberReasons u e now maxAge =
     reasonIf (bindingBad u e) ReasonInvalidBinding @
     reasonIf (\<not> freshEligibility (plObserved (evPlacement e)) now maxAge) ReasonBindingTime @
     reasonIf (\<not> freshEligibility (evObserved e) now maxAge \<or> evValidUntil e \<noteq> zeroTime \<and> \<not> now < evValidUntil e)
       ReasonInventoryTime @
     reasonIf (evRevoked e) ReasonRevoked @
     reasonIf (evDeleted e) ReasonDeleted @
     reasonIf (checkBad (evReady e) now maxAge) ReasonNotReady @
     reasonIf (checkBad (evManagement e) now maxAge) ReasonManagement @
     reasonIf (checkBad (evDNS e) now maxAge) ReasonDirectDNS @
     reasonIf (\<not> validEligibilitySnapshot (evApplied e) \<or> \<not> validEligibilitySnapshot (evTarget e) \<or>
       evApplied e \<noteq> evTarget e \<or> \<not> freshEligibility (evSnapshotObserved e) now maxAge) ReasonSnapshot"

definition placementInvalid :: "uuid_text \<Rightarrow> evidence \<Rightarrow> time \<Rightarrow> duration \<Rightarrow> bool" where
  "placementInvalid u e now maxAge \<longleftrightarrow>
     bindingBad u e \<or> \<not> freshEligibility (plObserved (evPlacement e)) now maxAge"

definition pairReasons :: "uuid_text \<Rightarrow> evidence \<Rightarrow> evidence \<Rightarrow> time \<Rightarrow> duration \<Rightarrow> eligibility_reason list" where
  "pairReasons u a b now maxAge =
     reasonIf (placementInvalid u a now maxAge \<or> placementInvalid u b now maxAge \<or> evPod a = evPod b \<or>
       \<not> distinctNodes (evPlacement a) (evPlacement b)) ReasonFailureDomain @
     reasonIf (evPolicy a = uuidNil \<or> evPolicy a \<noteq> evPolicy b) ReasonPolicyMismatch @
     reasonIf (\<not> validEligibilitySnapshot (evTarget a) \<or> \<not> validEligibilitySnapshot (evTarget b) \<or>
       snDigest (evTarget a) \<noteq> snDigest (evTarget b)) ReasonTargetMismatch"

definition groupReasons :: "fgroup \<Rightarrow> slots \<Rightarrow> time \<Rightarrow> duration \<Rightarrow> eligibility_reason list" where
  "groupReasons g s now maxAge =
     reasonIf (fgLifecycle g \<noteq> [] \<and> fgLifecycle g \<noteq> ''active'') ReasonLifecycle @
     reasonIf (\<not> Validate g) ReasonInvalidGroup @
     reasonIf (now = zeroTime \<or> maxAge \<le> 0) ReasonInvalidClock @
     reasonIf (slUnexpected s \<or> (slCountA s, slCountB s) \<noteq> (1, 1)) ReasonExpectedMembers"

definition EvaluateEligibility ::
    "uuid_text \<Rightarrow> fgroup \<Rightarrow> evidence list \<Rightarrow> time \<Rightarrow> duration \<Rightarrow> eligibility" where
  "EvaluateEligibility u g es now maxAge =
     (let s = fillSlots g es;
          early = groupReasons g s now maxAge;
          (ra, rb, denied) = (if early = []
            then (memberReasons u (slA s) now maxAge, memberReasons u (slB s) now maxAge,
                  pairReasons u (slA s) (slB s) now maxAge)
            else ([], [], early));
          ma = ra @ denied; mb = rb @ denied;
          pool = (if ma = [] then [fgA g] else []) @ (if mb = [] then [fgB g] else [])
      in \<lparr>elMembers = (\<lparr>meEngine = fgA g, meEligible = (ma = []), meReasons = ma\<rparr>,
            \<lparr>meEngine = fgB g, meEligible = (mb = []), meReasons = mb\<rparr>),
          elEligible = pool,
          elReasons = denied @ reasonIf (pool = []) ReasonEmptyPool\<rparr>)"

section \<open>Status\<close>

record fobservation =
  foGeneration :: int
  foOwner :: string
  foState :: string
  foObserved :: time

definition Status :: "fgroup \<Rightarrow> fobservation option \<Rightarrow> time \<Rightarrow> string" where
  "Status g o1 now =
     (if fgLifecycle g \<noteq> [] \<and> fgLifecycle g \<noteq> ''active'' then ''pending''
      else case o1 of
        None \<Rightarrow> ''unknown''
      | Some ob \<Rightarrow>
          if foOwner ob = [] \<or> foObserved ob = zeroTime \<or> foObserved ob > now \<or>
            timeSub now (foObserved ob) > 30 * 1000000000 then ''unknown''
          else if fgGeneration g \<le> 0 \<or> foGeneration ob \<noteq> fgGeneration g then ''pending''
          else if foState ob \<in> {''healthy'', ''degraded'', ''unavailable''} then foState ob
          else ''unknown'')"

section \<open>Lemmas\<close>

lemma reasonIf_Nil [simp]: "reasonIf b r = [] \<longleftrightarrow> \<not> b"
  by (simp add: reasonIf_def)

text \<open>What is required of one member, and of the pair, stated positively.\<close>

definition trustedPlacement :: "uuid_text \<Rightarrow> evidence \<Rightarrow> time \<Rightarrow> duration \<Rightarrow> bool" where
  "trustedPlacement u e now maxAge \<longleftrightarrow>
     plEngine (evPlacement e) = evEngine e \<and> plPod (evPlacement e) = evPod e \<and> canonicalUID u (evPod e) \<and>
     (plNodeUID (evPlacement e) \<noteq> [] \<or> plNodeName (evPlacement e) \<noteq> []) \<and>
     (plNodeUID (evPlacement e) \<noteq> [] \<longrightarrow> canonicalUID u (plNodeUID (evPlacement e))) \<and>
     (plNodeName (evPlacement e) \<noteq> [] \<longrightarrow> canonicalNodeName (plNodeName (evPlacement e))) \<and>
     freshEligibility (plObserved (evPlacement e)) now maxAge"

definition healthyMember :: "evidence \<Rightarrow> time \<Rightarrow> duration \<Rightarrow> bool" where
  "healthyMember e now maxAge \<longleftrightarrow>
     \<not> evRevoked e \<and> \<not> evDeleted e \<and>
     freshEligibility (evObserved e) now maxAge \<and> (evValidUntil e = zeroTime \<or> now < evValidUntil e) \<and>
     (\<forall>c \<in> {evReady e, evManagement e, evDNS e}. ckOK c \<and> freshEligibility (ckObserved c) now maxAge) \<and>
     validEligibilitySnapshot (evTarget e) \<and> evApplied e = evTarget e \<and>
     freshEligibility (evSnapshotObserved e) now maxAge"

definition provenPair :: "uuid_text \<Rightarrow> fgroup \<Rightarrow> evidence \<Rightarrow> evidence \<Rightarrow> time \<Rightarrow> duration \<Rightarrow> bool" where
  "provenPair u g a b now maxAge \<longleftrightarrow>
     fgLifecycle g \<in> {[], ''active''} \<and> Validate g \<and> now \<noteq> zeroTime \<and> 0 < maxAge \<and>
     trustedPlacement u a now maxAge \<and> trustedPlacement u b now maxAge \<and> evPod a \<noteq> evPod b \<and>
     distinctNodes (evPlacement a) (evPlacement b) \<and>
     evPolicy a \<noteq> uuidNil \<and> evPolicy a = evPolicy b \<and>
     validEligibilitySnapshot (evTarget a) \<and> validEligibilitySnapshot (evTarget b) \<and>
     snDigest (evTarget a) = snDigest (evTarget b)"

lemma placementInvalid_iff: "placementInvalid u e now maxAge \<longleftrightarrow> \<not> trustedPlacement u e now maxAge"
  by (auto simp: placementInvalid_def bindingBad_def trustedPlacement_def Let_def)

lemma memberReasons_Nil:
  "memberReasons u e now maxAge = [] \<longleftrightarrow> trustedPlacement u e now maxAge \<and> healthyMember e now maxAge"
  using placementInvalid_iff [of u e now maxAge]
  unfolding memberReasons_def append_is_Nil_conv reasonIf_Nil
  by (auto simp: placementInvalid_def healthyMember_def checkBad_def)

lemma pairReasons_Nil:
  "groupReasons g s now maxAge = [] \<Longrightarrow>
   pairReasons u a b now maxAge = [] \<longleftrightarrow> provenPair u g a b now maxAge"
  by (auto simp: pairReasons_def groupReasons_def provenPair_def placementInvalid_iff)

lemma fillSlots_two:
  "fillSlots g [x, y] = fillSlot g y (fillSlot g x
     \<lparr>slA = noEvidence, slB = noEvidence, slCountA = 0, slCountB = 0, slUnexpected = False\<rparr>)"
  by (simp add: fillSlots_def)

lemma unexpected_mono: "slUnexpected s \<Longrightarrow> slUnexpected (fold (fillSlot g) es s)"
  by (induction es arbitrary: s) (auto simp: fillSlot_def)

text \<open>The slots are the two members' evidence exactly when each member has one entry and nothing
  else is there.\<close>

lemma fillSlots_expected:
  assumes "fgA g \<noteq> fgB g"
  shows "\<not> slUnexpected (fillSlots g es) \<and> (slCountA (fillSlots g es), slCountB (fillSlots g es)) = (1, 1) \<and>
      slA (fillSlots g es) = a \<and> slB (fillSlots g es) = b \<longleftrightarrow>
    evEngine a = fgA g \<and> evEngine b = fgB g \<and> (es = [a, b] \<or> es = [b, a])"
proof (cases "length es = 2")
  case True
  then obtain x y where "es = [x, y]" by (auto simp: numeral_2_eq_2 length_Suc_conv)
  then show ?thesis using assms by (auto simp: fillSlots_two fillSlot_def)
next
  case False
  then have "slUnexpected (fillSlots g es)" unfolding fillSlots_def by (intro unexpected_mono) simp
  then show ?thesis using False by auto
qed

lemma groupReasons_Nil:
  "groupReasons g s now maxAge = [] \<longleftrightarrow> fgLifecycle g \<in> {[], ''active''} \<and> Validate g \<and> now \<noteq> zeroTime \<and>
     0 < maxAge \<and> \<not> slUnexpected s \<and> (slCountA s, slCountB s) = (1, 1)"
  by (auto simp: groupReasons_def)

lemma elEligible_iff:
  "i \<in> set (elEligible (EvaluateEligibility u g es now maxAge)) \<longleftrightarrow>
   groupReasons g (fillSlots g es) now maxAge = [] \<and>
   pairReasons u (slA (fillSlots g es)) (slB (fillSlots g es)) now maxAge = [] \<and>
   (i = fgA g \<and> memberReasons u (slA (fillSlots g es)) now maxAge = [] \<or>
    i = fgB g \<and> memberReasons u (slB (fillSlots g es)) now maxAge = [])"
  by (auto simp: EvaluateEligibility_def Let_def)

text \<open>The decision against its specification.\<close>

lemma eligibility_spec:
  "i \<in> set (elEligible (EvaluateEligibility u g es now maxAge)) \<longleftrightarrow>
   (\<exists>a b. (es = [a, b] \<or> es = [b, a]) \<and> evEngine a = fgA g \<and> evEngine b = fgB g \<and>
      provenPair u g a b now maxAge \<and>
      (i = fgA g \<and> healthyMember a now maxAge \<or> i = fgB g \<and> healthyMember b now maxAge))" (is "?L \<longleftrightarrow> ?R")
proof
  assume l: ?L
  let ?a = "slA (fillSlots g es)" and ?b = "slB (fillSlots g es)"
  have gr: "groupReasons g (fillSlots g es) now maxAge = []" using l by (simp add: elEligible_iff)
  then have ne: "fgA g \<noteq> fgB g" by (simp add: groupReasons_Nil Validate_def)
  have "evEngine ?a = fgA g \<and> evEngine ?b = fgB g \<and> (es = [?a, ?b] \<or> es = [?b, ?a])"
    using fillSlots_expected [OF ne, of es ?a ?b] gr by (simp add: groupReasons_Nil)
  moreover have "provenPair u g ?a ?b now maxAge" using l pairReasons_Nil [OF gr] by (simp add: elEligible_iff)
  ultimately show ?R using l unfolding elEligible_iff memberReasons_Nil by blast
next
  assume ?R
  then obtain a b where ab: "es = [a, b] \<or> es = [b, a]" "evEngine a = fgA g" "evEngine b = fgB g"
    "provenPair u g a b now maxAge"
    "i = fgA g \<and> healthyMember a now maxAge \<or> i = fgB g \<and> healthyMember b now maxAge" by blast
  have ne: "fgA g \<noteq> fgB g" using ab(4) by (simp add: provenPair_def Validate_def)
  have s: "\<not> slUnexpected (fillSlots g es)" "(slCountA (fillSlots g es), slCountB (fillSlots g es)) = (1, 1)"
    "slA (fillSlots g es) = a" "slB (fillSlots g es) = b"
    using fillSlots_expected [OF ne, of es a b] ab(1-3) by blast+
  have gr: "groupReasons g (fillSlots g es) now maxAge = []"
    using ab(4) s(1,2) by (auto simp: groupReasons_Nil provenPair_def)
  then show ?L using ab(4,5) pairReasons_Nil [OF gr] unfolding elEligible_iff memberReasons_Nil s
    by (auto simp: provenPair_def)
qed

text \<open>Example: two engines on two nodes; UUIDs are spelled in decimal.\<close>

definition exUUID :: uuid_text where
  "exUUID = \<lparr>utParse = (\<lambda>s. ParseUint s 128), utString = showNat\<rparr>"

definition exFGroup :: fgroup where
  "exFGroup = \<lparr>fgID = 1, fgName = ''dns-a'', fgIP = ''192.0.2.53'', fgA = 11, fgB = 12, fgGeneration = 3,
     fgLifecycle = ''active''\<rparr>"

definition exSeen :: "uuid \<Rightarrow> string \<Rightarrow> string \<Rightarrow> bool \<Rightarrow> evidence" where
  "exSeen i pod node dns =
     (let ok = \<lparr>ckOK = True, ckObserved = 95\<rparr>; snap = \<lparr>snVersion = 4, snDigest = replicate 64 CHR ''a''\<rparr>
      in noEvidence\<lparr>evEngine := i, evPolicy := 7, evPod := pod,
        evPlacement := \<lparr>plEngine = i, plPod = pod, plNodeUID = node, plNodeName = [], plObserved = 95\<rparr>,
        evObserved := 95, evReady := ok, evManagement := ok, evDNS := ok\<lparr>ckOK := dns\<rparr>, evApplied := snap,
        evTarget := snap, evSnapshotObserved := 95\<rparr>)"

section \<open>Properties\<close>

text \<open>C8. \<open>EvaluateEligibility\<close> is exactly its specification: an engine is in the pool if and only if the
  evidence is one entry for each of the two members, the group is valid and active, both placements
  are trusted, fresh and on different nodes, both members share policy and target content, and the
  engine's own evidence is fresh, healthy and has applied its target. One member's failing health
  never removes the other; a doubtful placement or configuration of either removes both.\<close>

theorem eligibility_exact:
  "i \<in> set (elEligible (EvaluateEligibility u g es now maxAge)) \<longleftrightarrow>
   (\<exists>a b. (es = [a, b] \<or> es = [b, a]) \<and> evEngine a = fgA g \<and> evEngine b = fgB g \<and>
      provenPair u g a b now maxAge \<and>
      (i = fgA g \<and> healthyMember a now maxAge \<or> i = fgB g \<and> healthyMember b now maxAge))"
  by (rule eligibility_spec)

text \<open>A status other than \<open>pending\<close> and \<open>unknown\<close> is reported only for an active group on a report of
  its current generation, from a named owner, at most 30 seconds old and not from the future.\<close>

lemma Status_current:
  assumes "Status g ob now \<notin> {''pending'', ''unknown''}"
  shows "\<exists>r. ob = Some r \<and> foGeneration r = fgGeneration g \<and> 0 < fgGeneration g \<and> foOwner r \<noteq> [] \<and>
    foObserved r \<le> now \<and> now - foObserved r \<le> 30000000000 \<and> Status g ob now = foState r \<and>
    fgLifecycle g \<in> {[], ''active''}"
  using assms by (auto simp: Status_def timeSub_def split: option.splits if_splits)

text \<open>The decision runs: a member whose direct probe fails leaves its partner alone in the pool.\<close>

lemma eligibility_example:
  "elEligible (EvaluateEligibility exUUID exFGroup [exSeen 12 ''22'' ''32'' False, exSeen 11 ''21'' ''31'' True] 100 10) = [11]"
  by code_simp

end
