(* ===== verification/Failover_Groups.thy ===== *)
theory Failover_Groups
  imports Failover_Eligibility Nexora_Prelude
begin

text \<open>
  Failover groups in the database (\<open>failover/groups.go\<close>, \<open>failover/lifecycle.go\<close>): creation and
  update of a desired group, its lifecycle, the rotation and check of publisher tokens, and verified
  withdrawal. An operation maps the tables to an error, which rolls the transaction back, or to new
  tables. Reservations of frontend addresses and engines are kept by the triggers of the migration;
  the session's provisioned purposes, the verifier, SHA-256 and fresh identifiers are inputs.
\<close>

section \<open>Tables\<close>

record fengine =
  feID :: uuid
  feNode :: string
  fePolicy :: uuid
  feInactive :: bool

record publisher =
  pbEpoch :: int
  pbOwner :: uuid
  pbSession :: uuid
  pbGeneration :: int
  pbSequence :: int

record ptoken =
  ptGroup :: uuid
  ptGeneration :: int
  ptEpoch :: int
  ptOwner :: uuid
  ptSession :: uuid

record withdrawal =
  wdGroup :: uuid
  wdGeneration :: int
  wdEpoch :: int
  wdProof :: string

record failover_db =
  fdGroups :: "fgroup list"
  fdMembers :: "(uuid \<times> uuid \<times> nat) list"
  fdIPs :: "(string \<times> uuid) list"
  fdReserved :: "(uuid \<times> uuid) list"
  fdPublishers :: "uuid \<rightharpoonup> publisher"
  fdHistory :: "ptoken list"
  fdWithdrawals :: "withdrawal list"
  fdEngines :: "fengine list"

datatype failover_error = FInvalid | FConflict | FNotFound | FUnauthorized | FDatabase | FVerifier | FContext

text \<open>The trigger \<open>failover_reserve\<close>: a key is reserved for one group at a time.\<close>

definition reserveKey :: "'k \<Rightarrow> uuid \<Rightarrow> ('k \<times> uuid) list \<Rightarrow> failover_error + ('k \<times> uuid) list" where
  "reserveKey k g tbl = (case map_of tbl k of
     None \<Rightarrow> Inr ((k, g) # tbl)
   | Some h \<Rightarrow> if h = g then Inr tbl else Inl FDatabase)"

definition reserve :: "failover_db \<Rightarrow> fgroup \<Rightarrow> failover_error + failover_db" where
  "reserve db g =
     (if fgLifecycle g = ''deleted'' then Inr db
      else bindE (reserveKey (fgIP g) (fgID g) (fdIPs db)) (\<lambda>ips.
           bindE (reserveKey (fgA g) (fgID g) (fdReserved db)) (\<lambda>rs.
           bindE (reserveKey (fgB g) (fgID g) rs) (\<lambda>rs.
           Inr (db\<lparr>fdIPs := ips, fdReserved := rs\<rparr>)))))"

text \<open>The index on the names of groups that are not deleted.\<close>

definition nameTaken :: "fgroup list \<Rightarrow> fgroup \<Rightarrow> bool" where
  "nameTaken gs g \<longleftrightarrow> fgLifecycle g \<noteq> ''deleted'' \<and>
     list_ex (\<lambda>h. fgID h \<noteq> fgID g \<and> fgName h = fgName g \<and> fgLifecycle h \<noteq> ''deleted'') gs"

definition findGroup :: "failover_db \<Rightarrow> uuid \<Rightarrow> fgroup option" where
  "findGroup db i = find (\<lambda>g. fgID g = i) (fdGroups db)"

text \<open>An update keeps address and tombstones, as the trigger demands.\<close>

definition putGroup :: "failover_db \<Rightarrow> fgroup \<Rightarrow> failover_error + failover_db" where
  "putGroup db g =
     bindE (requireE (\<not> nameTaken (fdGroups db) g \<and>
         list_all (\<lambda>h. fgID h = fgID g \<longrightarrow> fgLifecycle h \<noteq> ''deleted'' \<and> fgIP h = fgIP g) (fdGroups db)) FDatabase) (\<lambda>_.
     reserve (db\<lparr>fdGroups := map (\<lambda>h. if fgID h = fgID g then g else h) (fdGroups db)\<rparr>) g)"

section \<open>Groups\<close>

definition GetGroup :: "failover_db \<Rightarrow> uuid \<Rightarrow> failover_error + fgroup" where
  "GetGroup db i = (case findGroup db i of None \<Rightarrow> Inl FNotFound | Some g \<Rightarrow> Inr g)"

definition ListGroups :: "failover_db \<Rightarrow> fgroup list" where
  "ListGroups db = sort_key fgName (filter (\<lambda>g. fgLifecycle g \<noteq> ''deleted'') (fdGroups db))"

definition lockGroup :: "failover_db \<Rightarrow> uuid \<Rightarrow> int \<Rightarrow> failover_error + fgroup" where
  "lockGroup db i expected =
     bindE (GetGroup db i) (\<lambda>g.
     bindE (requireE (\<not> (expected \<le> 0 \<or> fgGeneration g \<noteq> expected)) FConflict) (\<lambda>_. Inr g))"

definition validateMembers :: "failover_db \<Rightarrow> uuid \<Rightarrow> uuid \<Rightarrow> bool" where
  "validateMembers db a b =
     (let rows = sort_key feID (filter (\<lambda>e. feID e = a \<or> feID e = b) (fdEngines db)) in
      list_all (\<lambda>e. \<not> (feInactive e \<or> TrimSpace (feNode e) = [])) rows \<and>
      length rows = 2 \<and> feNode (rows ! 0) \<noteq> feNode (rows ! 1) \<and> fePolicy (rows ! 0) = fePolicy (rows ! 1))"

definition insertMembers :: "failover_db \<Rightarrow> fgroup \<Rightarrow> failover_db" where
  "insertMembers db g = db\<lparr>fdMembers := fdMembers db @ [(fgID g, fgA g, 1), (fgID g, fgB g, 2)]\<rparr>"

definition sameMembers :: "fgroup \<Rightarrow> fgroup \<Rightarrow> bool" where
  "sameMembers g h \<longleftrightarrow> (fgA g, fgB g) = (fgA h, fgB h) \<or> fgA g = fgB h \<and> fgB g = fgA h"

definition CreateGroup :: "failover_db \<Rightarrow> fgroup \<Rightarrow> uuid \<Rightarrow> failover_error + failover_db \<times> fgroup" where
  "CreateGroup db g newid =
     bindE (requireE (Validate g) FInvalid) (\<lambda>_.
     bindE (requireE (validateMembers db (fgA g) (fgB g)) FInvalid) (\<lambda>_.
     let row = g\<lparr>fgID := newid, fgGeneration := 1, fgLifecycle := ''active''\<rparr> in
     bindE (requireE (findGroup db newid = None \<and> \<not> nameTaken (fdGroups db) row) FDatabase) (\<lambda>_.
     bindE (reserve (db\<lparr>fdGroups := fdGroups db @ [row]\<rparr>) row) (\<lambda>db.
     let db = insertMembers db row in
     bindE (GetGroup db newid) (\<lambda>g'. Inr (db, g'))))))"

definition UpdateGroup :: "failover_db \<Rightarrow> fgroup \<Rightarrow> int \<Rightarrow> failover_error + failover_db \<times> fgroup" where
  "UpdateGroup db g expected =
     bindE (requireE (Validate g) FInvalid) (\<lambda>_.
     bindE (lockGroup db (fgID g) expected) (\<lambda>current.
     bindE (requireE (fgLifecycle current = ''active'' \<or> fgLifecycle current = ''withdrawn'') FInvalid) (\<lambda>_.
     bindE (requireE (fgIP current = fgIP g) FInvalid) (\<lambda>_.
     bindE (requireE (validateMembers db (fgA g) (fgB g)) FInvalid) (\<lambda>_.
     let nxt = (if sameMembers current g then fgLifecycle current else ''draining'');
         row = current\<lparr>fgName := fgName g, fgA := fgA g, fgB := fgB g, fgLifecycle := nxt,
           fgGeneration := fgGeneration current + 1\<rparr> in
     bindE (putGroup db row) (\<lambda>db.
     let db = insertMembers (db\<lparr>fdMembers := filter (\<lambda>m. fst m \<noteq> fgID g) (fdMembers db)\<rparr>) row in
     bindE (GetGroup db (fgID g)) (\<lambda>g'. Inr (db, g'))))))))"

section \<open>Lifecycle\<close>

definition transition :: "failover_db \<Rightarrow> uuid \<Rightarrow> int \<Rightarrow> string \<Rightarrow> failover_error + failover_db \<times> fgroup" where
  "transition db i expected nxt =
     bindE (lockGroup db i expected) (\<lambda>g.
     bindE (requireE (nxt = ''draining'' \<and> fgLifecycle g = ''active'' \<or>
         nxt = ''deleting'' \<and> (fgLifecycle g = ''active'' \<or> fgLifecycle g = ''draining'' \<or> fgLifecycle g = ''withdrawn'') \<or>
         nxt = ''active'' \<and> fgLifecycle g = ''withdrawn'') FInvalid) (\<lambda>_.
     bindE (putGroup db (g\<lparr>fgLifecycle := nxt, fgGeneration := fgGeneration g + 1\<rparr>)) (\<lambda>db.
     bindE (GetGroup db i) (\<lambda>g'. Inr (db, g')))))"

definition BeginDrain :: "failover_db \<Rightarrow> uuid \<Rightarrow> int \<Rightarrow> failover_error + failover_db \<times> fgroup" where
  "BeginDrain db i expected = transition db i expected ''draining''"

definition RequestDeletion :: "failover_db \<Rightarrow> uuid \<Rightarrow> int \<Rightarrow> failover_error + failover_db \<times> fgroup" where
  "RequestDeletion db i expected = transition db i expected ''deleting''"

definition Resume :: "failover_db \<Rightarrow> uuid \<Rightarrow> int \<Rightarrow> failover_error + failover_db \<times> fgroup" where
  "Resume db i expected = transition db i expected ''active''"

text \<open>The session's purposes: \<open>failover_sources\<close> joined with the catalog for \<open>session_user\<close>.\<close>

definition authorizeSource :: "(string \<Rightarrow> bool) \<Rightarrow> string \<Rightarrow> failover_error + unit" where
  "authorizeSource purposes purpose = requireE (purposes purpose) FUnauthorized"

definition RotatePublisher ::
    "(string \<Rightarrow> bool) \<Rightarrow> failover_db \<Rightarrow> uuid \<Rightarrow> int \<Rightarrow> int \<Rightarrow> uuid \<Rightarrow> uuid \<Rightarrow> failover_error + failover_db \<times> ptoken" where
  "RotatePublisher purposes db i generation expectedEpoch owner newsession =
     bindE (authorizeSource purposes ''controller'') (\<lambda>_.
     bindE (lockGroup db i generation) (\<lambda>g.
     bindE (requireE (\<not> (owner = uuidNil \<or> fgLifecycle g = ''deleted'' \<or> fgLifecycle g = ''withdrawn'')) FInvalid) (\<lambda>_.
     let epoch = (case fdPublishers db i of None \<Rightarrow> 0 | Some p \<Rightarrow> pbEpoch p) in
     bindE (requireE (epoch = expectedEpoch) FConflict) (\<lambda>_.
     let t = \<lparr>ptGroup = i, ptGeneration = generation, ptEpoch = epoch + 1, ptOwner = owner, ptSession = newsession\<rparr> in
     Inr (db\<lparr>fdPublishers := (fdPublishers db)(i \<mapsto> \<lparr>pbEpoch = ptEpoch t, pbOwner = owner,
              pbSession = newsession, pbGeneration = generation, pbSequence = 0\<rparr>),
            fdHistory := fdHistory db @ [t]\<rparr>, t)))))"

definition lockPublisher :: "failover_db \<Rightarrow> ptoken \<Rightarrow> failover_error + fgroup" where
  "lockPublisher db t =
     bindE (lockGroup db (ptGroup t) (ptGeneration t)) (\<lambda>g.
     case fdPublishers db (ptGroup t) of
       None \<Rightarrow> Inl FConflict
     | Some p \<Rightarrow>
         if pbGeneration p \<noteq> ptGeneration t \<or> pbEpoch p \<noteq> ptEpoch t \<or> pbOwner p \<noteq> ptOwner t \<or>
           pbSession p \<noteq> ptSession t \<or> pbSession p = uuidNil
         then Inl FConflict else Inr g)"

record wscope =
  wsGroup :: fgroup
  wsPublishers :: "ptoken list"
  wsReserved :: "uuid list"

definition withdrawalScope :: "failover_db \<Rightarrow> fgroup \<Rightarrow> wscope" where
  "withdrawalScope db g =
     \<lparr>wsGroup = g,
      wsPublishers = sort_key ptEpoch (filter (\<lambda>p. ptGroup p = fgID g) (fdHistory db)),
      wsReserved = sort (map fst (filter (\<lambda>r. snd r = fgID g) (fdReserved db)))\<rparr>"

text \<open>The trigger \<open>failover_release_guard\<close> on the deletion of a reservation.\<close>

definition releaseGuard :: "(string \<Rightarrow> bool) \<Rightarrow> failover_db \<Rightarrow> uuid \<Rightarrow> bool" where
  "releaseGuard purposes db i \<longleftrightarrow> purposes ''withdrawal'' \<and>
     list_ex (\<lambda>g. fgID g = i \<and> (fgLifecycle g = ''withdrawn'' \<or> fgLifecycle g = ''deleted'') \<and>
       list_ex (\<lambda>w. wdGroup w = i \<and> wdGeneration w = fgGeneration g - 1) (fdWithdrawals db)) (fdGroups db)"

definition releaseEngines :: "(string \<Rightarrow> bool) \<Rightarrow> failover_db \<Rightarrow> fgroup \<Rightarrow> bool \<Rightarrow> failover_error + failover_db" where
  "releaseEngines purposes db g all =
     (let gone = (\<lambda>r. snd r = fgID g \<and> (all \<or> fst r \<notin> {fgA g, fgB g})) in
      if list_ex gone (fdReserved db) \<and> \<not> releaseGuard purposes db (fgID g) then Inl FDatabase
      else Inr (db\<lparr>fdReserved := filter (\<lambda>r. \<not> gone r) (fdReserved db)\<rparr>))"

definition releaseIPs :: "(string \<Rightarrow> bool) \<Rightarrow> failover_db \<Rightarrow> fgroup \<Rightarrow> failover_error + failover_db" where
  "releaseIPs purposes db g =
     (if list_ex (\<lambda>r. snd r = fgID g) (fdIPs db) \<and> \<not> releaseGuard purposes db (fgID g) then Inl FDatabase
      else Inr (db\<lparr>fdIPs := filter (\<lambda>r. snd r \<noteq> fgID g) (fdIPs db)\<rparr>))"

text \<open>\<open>CompleteWithdrawal\<close>; the verifier is \<open>None\<close> when the dependency is missing, and \<open>live\<close> tells that
  the context has not ended when the verifier returns.\<close>

definition CompleteWithdrawal ::
    "(string \<Rightarrow> bool) \<Rightarrow> (byte list \<Rightarrow> string) \<Rightarrow> bool \<Rightarrow> failover_db \<Rightarrow> ptoken \<Rightarrow> byte list \<Rightarrow>
     (wscope \<Rightarrow> byte list \<Rightarrow> bool) option \<Rightarrow> failover_error + failover_db \<times> fgroup" where
  "CompleteWithdrawal purposes sha live db t pf v =
     (case v of
        None \<Rightarrow> Inl FInvalid
      | Some verify \<Rightarrow>
          bindE (requireE (\<not> (pf = [] \<or> length pf > 2 ^ 20)) FInvalid) (\<lambda>_.
          bindE (authorizeSource purposes ''withdrawal'') (\<lambda>_.
          bindE (lockPublisher db t) (\<lambda>g.
          bindE (requireE (fgLifecycle g = ''draining'' \<or> fgLifecycle g = ''deleting'') FInvalid) (\<lambda>_.
          bindE (requireE (verify (withdrawalScope db g) pf) FVerifier) (\<lambda>_.
          bindE (requireE live FContext) (\<lambda>_.
          bindE (requireE (\<not> list_ex (\<lambda>w. wdGroup w = fgID g \<and> wdGeneration w = fgGeneration g) (fdWithdrawals db) \<and>
                   length (sha pf) = 64) FDatabase) (\<lambda>_.
          let db = db\<lparr>fdWithdrawals := fdWithdrawals db @ [\<lparr>wdGroup = fgID g, wdGeneration = fgGeneration g,
                wdEpoch = ptEpoch t, wdProof = sha pf\<rparr>]\<rparr>;
              nxt = (if fgLifecycle g = ''deleting'' then ''deleted'' else ''withdrawn'') in
          bindE (putGroup db (g\<lparr>fgLifecycle := nxt, fgGeneration := fgGeneration g + 1\<rparr>)) (\<lambda>db.
          bindE (releaseEngines purposes db g (nxt = ''deleted'')) (\<lambda>db.
          bindE (if nxt = ''deleted'' then releaseIPs purposes db g else Inr db) (\<lambda>db.
          bindE (GetGroup db (fgID g)) (\<lambda>g'. Inr (db, g')))))))))))))"

section \<open>Histories\<close>

inductive fo_step :: "failover_db \<Rightarrow> failover_db \<Rightarrow> bool" where
  created: "CreateGroup db g i = Inr (db', g') \<Longrightarrow> fo_step db db'"
| updated: "UpdateGroup db g n = Inr (db', g') \<Longrightarrow> fo_step db db'"
| moved: "transition db i n nxt = Inr (db', g') \<Longrightarrow> fo_step db db'"
| rotated: "RotatePublisher purposes db i n e ow se = Inr (db', t) \<Longrightarrow> fo_step db db'"
| withdrawn: "CompleteWithdrawal purposes sha live db t pf v = Inr (db', g') \<Longrightarrow> fo_step db db'"
| engines: "fo_step db (db\<lparr>fdEngines := es\<rparr>)"
| sequenced: "fdPublishers db i = Some p \<Longrightarrow>
    fo_step db (db\<lparr>fdPublishers := (fdPublishers db)(i \<mapsto> p\<lparr>pbSequence := n\<rparr>)\<rparr>)"

inductive fo_reach :: "failover_db \<Rightarrow> bool" where
  start: "fdGroups db = [] \<Longrightarrow> fdIPs db = [] \<Longrightarrow> fdReserved db = [] \<Longrightarrow> fdPublishers db = Map.empty \<Longrightarrow>
    fdHistory db = [] \<Longrightarrow> fdWithdrawals db = [] \<Longrightarrow> fdMembers db = [] \<Longrightarrow> fo_reach db"
| step: "fo_reach db \<Longrightarrow> fo_step db db' \<Longrightarrow> fo_reach db'"

inductive_cases fo_stepE: "fo_step db db'"

section \<open>Reservations\<close>

text \<open>What a reservation table promises its clients.\<close>

locale reservations =
  fixes owner :: "'t \<Rightarrow> 'k \<Rightarrow> 'g option"
    and take_key :: "'k \<Rightarrow> 'g \<Rightarrow> 't \<Rightarrow> 'e + 't"
  assumes taken: "take_key k g t = Inr t' \<Longrightarrow> owner t' k = Some g"
    and kept: "take_key k g t = Inr t' \<Longrightarrow> owner t j = Some h \<Longrightarrow> owner t' j = Some h"
    and refused: "owner t k = Some h \<Longrightarrow> h \<noteq> g \<Longrightarrow> \<exists>e. take_key k g t = Inl e"
begin

lemma exclusive: "owner t k = Some g \<Longrightarrow> owner t k = Some h \<Longrightarrow> g = h"
  by simp

lemma take_two:
  assumes "take_key a g t = Inr t1" "take_key b g t1 = Inr t2"
  shows "owner t2 a = Some g" "owner t2 b = Some g" "owner t k = Some h \<Longrightarrow> owner t2 k = Some h"
  using taken [OF assms(1)] kept [OF assms(2)] taken [OF assms(2)] kept [OF assms(1)] by auto

lemma take_free: "take_key k g t = Inr t' \<Longrightarrow> owner t k = None \<or> owner t k = Some g"
  using refused by (cases "owner t k") force+

end

interpretation rt: reservations map_of reserveKey
  by unfold_locales (auto simp: reserveKey_def split: option.splits if_splits)

lemma reserveKey_table:
  "reserveKey k g t = Inr t' \<Longrightarrow> set t \<subseteq> set t' \<and> (distinct (map fst t) \<longrightarrow> distinct (map fst t'))"
  by (auto simp: reserveKey_def map_of_eq_None_iff split: option.splits if_splits)

definition holds :: "failover_db \<Rightarrow> fgroup \<Rightarrow> bool" where
  "holds db g \<longleftrightarrow> map_of (fdIPs db) (fgIP g) = Some (fgID g) \<and>
     map_of (fdReserved db) (fgA g) = Some (fgID g) \<and> map_of (fdReserved db) (fgB g) = Some (fgID g)"

definition tablesOk :: "failover_db \<Rightarrow> bool" where
  "tablesOk db \<longleftrightarrow> distinct (map fgID (fdGroups db)) \<and> distinct (map fst (fdIPs db)) \<and> distinct (map fst (fdReserved db))"

definition isLive :: "fgroup \<Rightarrow> bool" where
  "isLive g \<longleftrightarrow> fgLifecycle g \<noteq> ''deleted''"

definition resInv :: "failover_db \<Rightarrow> bool" where
  "resInv db \<longleftrightarrow> tablesOk db \<and> (\<forall>g \<in> set (fdGroups db). isLive g \<longrightarrow> holds db g)"

text \<open>The rows that the tables constrain.\<close>

definition rowOk :: "fgroup \<Rightarrow> bool" where
  "rowOk g \<longleftrightarrow> Validate g \<and> 0 < fgGeneration g \<and>
     fgLifecycle g \<in> {''active'', ''draining'', ''withdrawn'', ''deleting'', ''deleted''}"

lemma Validate_frame [simp]:
  "Validate (g\<lparr>fgID := i\<rparr>) = Validate g" "Validate (g\<lparr>fgGeneration := n\<rparr>) = Validate g"
  "Validate (g\<lparr>fgLifecycle := l\<rparr>) = Validate g"
  by (simp_all add: Validate_def cong: option.case_cong)

lemma Validate_edit:
  "Validate h \<Longrightarrow> fgIP g = fgIP h \<Longrightarrow>
   Validate (g\<lparr>fgName := fgName h, fgA := fgA h, fgB := fgB h, fgLifecycle := l, fgGeneration := n\<rparr>)"
  by (simp add: Validate_def split: option.splits)

definition rowsInv :: "failover_db \<Rightarrow> bool" where
  "rowsInv db \<longleftrightarrow> (\<forall>g \<in> set (fdGroups db). rowOk g)"

lemma reserve_Inr:
  assumes "reserve db g = Inr db'"
  shows "fdGroups db' = fdGroups db \<and> fdPublishers db' = fdPublishers db \<and> fdHistory db' = fdHistory db \<and>
    (isLive g \<longrightarrow> holds db' g) \<and> (holds db h \<longrightarrow> holds db' h) \<and> (tablesOk db \<longrightarrow> tablesOk db') \<and>
    set (fdReserved db) \<subseteq> set (fdReserved db') \<and> set (fdIPs db) \<subseteq> set (fdIPs db')"
proof (cases "fgLifecycle g = ''deleted''")
  case True
  then show ?thesis using assms by (simp add: reserve_def isLive_def)
next
  case False
  then obtain ips rs rs' where r: "reserveKey (fgIP g) (fgID g) (fdIPs db) = Inr ips"
    "reserveKey (fgA g) (fgID g) (fdReserved db) = Inr rs" "reserveKey (fgB g) (fgID g) rs = Inr rs'"
    "db' = db\<lparr>fdIPs := ips, fdReserved := rs'\<rparr>"
    using assms by (auto simp: reserve_def bindE_Inr_iff)
  show ?thesis
    using rt.taken [OF r(1)] rt.kept [OF r(1)] rt.take_two [OF r(2,3)]
      reserveKey_table [OF r(1)] reserveKey_table [OF r(2)] reserveKey_table [OF r(3)]
    by (auto simp: r(4) holds_def tablesOk_def)
qed

lemma putGroup_Inr:
  assumes "putGroup db g = Inr db'"
  shows "fdGroups db' = map (\<lambda>h. if fgID h = fgID g then g else h) (fdGroups db)"
    "fdPublishers db' = fdPublishers db" "fdHistory db' = fdHistory db" "isLive g \<Longrightarrow> holds db' g"
    "holds db h \<Longrightarrow> holds db' h" "distinct (map fst (fdIPs db)) \<and> distinct (map fst (fdReserved db)) \<Longrightarrow>
       distinct (map fst (fdIPs db')) \<and> distinct (map fst (fdReserved db'))"
    "set (fdReserved db) \<subseteq> set (fdReserved db')" "set (fdIPs db) \<subseteq> set (fdIPs db')"
    "h \<in> set (fdGroups db) \<Longrightarrow> fgID h = fgID g \<Longrightarrow> isLive h \<and> fgIP h = fgIP g"
proof -
  let ?db = "db\<lparr>fdGroups := map (\<lambda>h. if fgID h = fgID g then g else h) (fdGroups db)\<rparr>"
  let ?e = "db\<lparr>fdGroups := []\<rparr>"
  have r: "reserve ?db g = Inr db'" and l: "list_all (\<lambda>h. fgID h = fgID g \<longrightarrow> fgLifecycle h \<noteq> ''deleted'' \<and> fgIP h = fgIP g) (fdGroups db)"
    using assms by (auto simp: putGroup_def bindE_Inr_iff requireE_Inr_iff)
  note f = reserve_Inr [OF r]
  show "fdGroups db' = map (\<lambda>h. if fgID h = fgID g then g else h) (fdGroups db)"
    "fdPublishers db' = fdPublishers db" "fdHistory db' = fdHistory db" "isLive g \<Longrightarrow> holds db' g"
    "set (fdReserved db) \<subseteq> set (fdReserved db')" "set (fdIPs db) \<subseteq> set (fdIPs db')"
    using f by auto
  show "holds db h \<Longrightarrow> holds db' h" using f [of h] by (auto simp: holds_def)
  show "h \<in> set (fdGroups db) \<Longrightarrow> fgID h = fgID g \<Longrightarrow> isLive h \<and> fgIP h = fgIP g"
    using l by (auto simp: list_all_iff isLive_def)
  show "distinct (map fst (fdIPs db)) \<and> distinct (map fst (fdReserved db)) \<Longrightarrow>
       distinct (map fst (fdIPs db')) \<and> distinct (map fst (fdReserved db'))"
  proof -
    from r have "\<exists>x. reserve ?e g = Inr x \<and> fdIPs x = fdIPs db' \<and> fdReserved x = fdReserved db'"
      by (auto simp: reserve_def bindE_Inr_iff split: if_splits)
    then obtain x where x: "reserve ?e g = Inr x" "fdIPs x = fdIPs db'" "fdReserved x = fdReserved db'" by blast
    show "distinct (map fst (fdIPs db)) \<and> distinct (map fst (fdReserved db)) \<Longrightarrow> ?thesis"
      using reserve_Inr [OF x(1)] x(2,3) by (simp add: tablesOk_def)
  qed
qed

lemma replaced_ids: "map (fgID \<circ> (\<lambda>h. if fgID h = fgID g then g else h)) gs = map fgID gs"
  by auto

lemma putGroup_resInv:
  assumes "putGroup db g = Inr db'" "resInv db"
  shows "resInv db'"
proof -
  note f = putGroup_Inr [OF assms(1)]
  have "tablesOk db'" using f(6) assms(2) by (simp add: resInv_def tablesOk_def f(1) replaced_ids del: map_map map_eq_conv) (simp add: replaced_ids)
  moreover have "holds db' h" if "h \<in> set (fdGroups db')" "isLive h" for h
    using that f(4,5) assms(2) unfolding f(1) resInv_def by (auto split: if_splits)
  ultimately show ?thesis by (simp add: resInv_def)
qed

lemma putGroup_rowsInv: "putGroup db g = Inr db' \<Longrightarrow> rowsInv db \<Longrightarrow> rowOk g \<Longrightarrow> rowsInv db'"
  using putGroup_Inr(1) [of db g db'] by (auto simp: rowsInv_def)

lemma GetGroup_Inr: "GetGroup db i = Inr g \<Longrightarrow> g \<in> set (fdGroups db) \<and> fgID g = i"
  by (auto simp: GetGroup_def findGroup_def find_Some_iff split: option.splits)

lemma lockGroup_Inr: "lockGroup db i n = Inr g \<Longrightarrow> g \<in> set (fdGroups db) \<and> fgID g = i \<and> fgGeneration g = n \<and> 0 < n"
  by (auto simp: lockGroup_def bindE_Inr_iff requireE_Inr_iff dest!: GetGroup_Inr)

lemma lockPublisher_Inr:
  "lockPublisher db t = Inr g \<Longrightarrow> lockGroup db (ptGroup t) (ptGeneration t) = Inr g \<and>
   (\<exists>p. fdPublishers db (ptGroup t) = Some p \<and> pbGeneration p = ptGeneration t \<and> pbEpoch p = ptEpoch t \<and>
     pbOwner p = ptOwner t \<and> pbSession p = ptSession t \<and> ptSession t \<noteq> uuidNil)"
  by (auto simp: lockPublisher_def bindE_Inr_iff split: option.splits if_splits)

text \<open>The updates of one group, reduced to \<open>putGroup\<close>.\<close>

lemma CreateGroup_Inr:
  assumes "CreateGroup db g i = Inr (db', g')"
  obtains db1 where "Validate g" "i \<notin> fgID ` set (fdGroups db)"
    "reserve (db\<lparr>fdGroups := fdGroups db @ [g\<lparr>fgID := i, fgGeneration := 1, fgLifecycle := ''active''\<rparr>]\<rparr>)
       (g\<lparr>fgID := i, fgGeneration := 1, fgLifecycle := ''active''\<rparr>) = Inr db1"
    "db' = insertMembers db1 (g\<lparr>fgID := i, fgGeneration := 1, fgLifecycle := ''active''\<rparr>)"
  using assms
  by (auto simp: CreateGroup_def Let_def bindE_Inr_iff requireE_Inr_iff findGroup_def find_None_iff image_iff)

lemma UpdateGroup_Inr:
  assumes "UpdateGroup db g n = Inr (db', g')"
  obtains cur row db1 where "Validate g" "cur \<in> set (fdGroups db)" "fgGeneration cur = n" "0 < n"
    "fgLifecycle cur = ''active'' \<or> fgLifecycle cur = ''withdrawn''" "fgIP cur = fgIP g"
    "row = cur\<lparr>fgName := fgName g, fgA := fgA g, fgB := fgB g,
       fgLifecycle := (if sameMembers cur g then fgLifecycle cur else ''draining''), fgGeneration := n + 1\<rparr>"
    "putGroup db row = Inr db1"
    "db' = insertMembers (db1\<lparr>fdMembers := filter (\<lambda>m. fst m \<noteq> fgID g) (fdMembers db1)\<rparr>) row"
  using assms
  by (auto simp: UpdateGroup_def Let_def bindE_Inr_iff requireE_Inr_iff dest!: lockGroup_Inr)

lemma transition_Inr:
  assumes "transition db i n nxt = Inr (db', g')"
  obtains g where "g \<in> set (fdGroups db)" "fgGeneration g = n" "0 < n" "isLive g"
    "nxt \<in> {''draining'', ''deleting'', ''active''}"
    "putGroup db (g\<lparr>fgLifecycle := nxt, fgGeneration := n + 1\<rparr>) = Inr db'"
  using assms
  by (auto simp: transition_def bindE_Inr_iff requireE_Inr_iff isLive_def dest!: lockGroup_Inr)

lemma RotatePublisher_Inr:
  assumes "RotatePublisher purposes db i n e ow se = Inr (db', t)"
  obtains g where "lockGroup db i n = Inr g"
    "e = (case fdPublishers db i of None \<Rightarrow> 0 | Some p \<Rightarrow> pbEpoch p)"
    "t = \<lparr>ptGroup = i, ptGeneration = n, ptEpoch = e + 1, ptOwner = ow, ptSession = se\<rparr>"
    "db' = db\<lparr>fdPublishers := (fdPublishers db)(i \<mapsto> \<lparr>pbEpoch = e + 1, pbOwner = ow, pbSession = se,
       pbGeneration = n, pbSequence = 0\<rparr>), fdHistory := fdHistory db @ [t]\<rparr>"
  using assms
  by (auto simp: RotatePublisher_def Let_def bindE_Inr_iff requireE_Inr_iff)

lemma CompleteWithdrawal_Inr:
  assumes "CompleteWithdrawal purposes sha live db t pf v = Inr (db', g')"
  obtains verify g nxt db1 db2 where "v = Some verify" "lockPublisher db t = Inr g"
    "fgLifecycle g = ''draining'' \<or> fgLifecycle g = ''deleting''" "verify (withdrawalScope db g) pf"
    "nxt = (if fgLifecycle g = ''deleting'' then ''deleted'' else ''withdrawn'')"
    "putGroup (db\<lparr>fdWithdrawals := fdWithdrawals db @ [\<lparr>wdGroup = fgID g, wdGeneration = fgGeneration g,
        wdEpoch = ptEpoch t, wdProof = sha pf\<rparr>]\<rparr>) (g\<lparr>fgLifecycle := nxt, fgGeneration := fgGeneration g + 1\<rparr>) = Inr db1"
    "releaseEngines purposes db1 g (nxt = ''deleted'') = Inr db2"
    "(if nxt = ''deleted'' then releaseIPs purposes db2 g else Inr db2) = Inr db'"
  using assms
  by (auto simp: CompleteWithdrawal_def Let_def bindE_Inr_iff requireE_Inr_iff split: option.splits)

section \<open>Preservation\<close>

lemma insertMembers_frame [simp]:
  "resInv (insertMembers db g) = resInv db" "rowsInv (insertMembers db g) = rowsInv db"
  "fdGroups (insertMembers db g) = fdGroups db" "fdReserved (insertMembers db g) = fdReserved db"
  "fdIPs (insertMembers db g) = fdIPs db" "fdPublishers (insertMembers db g) = fdPublishers db"
  "fdHistory (insertMembers db g) = fdHistory db"
  by (simp_all add: insertMembers_def resInv_def tablesOk_def holds_def rowsInv_def)

lemma resInv_frame [simp]:
  "resInv (db\<lparr>fdMembers := ms\<rparr>) = resInv db" "resInv (db\<lparr>fdEngines := es\<rparr>) = resInv db"
  "resInv (db\<lparr>fdPublishers := ps, fdHistory := hs\<rparr>) = resInv db" "resInv (db\<lparr>fdPublishers := ps\<rparr>) = resInv db"
  "resInv (db\<lparr>fdWithdrawals := ws\<rparr>) = resInv db"
  by (simp_all add: resInv_def tablesOk_def holds_def)

lemma map_of_filter_keep:
  assumes "distinct (map fst t)" "map_of t k = Some v" "P (k, v)"
  shows "map_of (filter P t) k = Some v"
proof -
  have "distinct (map fst (filter P t))" using assms(1) by (rule distinct_map_filter)
  then show ?thesis using assms map_of_SomeD [OF assms(2)] by (simp add: map_of_eq_Some_iff)
qed

lemma release_resInv:
  assumes "resInv db" "fdGroups db' = fdGroups db"
    "fdReserved db' = filter P (fdReserved db)" "fdIPs db' = filter Q (fdIPs db)"
    "\<And>h. h \<in> set (fdGroups db) \<Longrightarrow> isLive h \<Longrightarrow> P (fgA h, fgID h) \<and> P (fgB h, fgID h) \<and> Q (fgIP h, fgID h)"
  shows "resInv db'"
proof -
  have t: "distinct (map fst (fdIPs db))" "distinct (map fst (fdReserved db))" "distinct (map fgID (fdGroups db))"
    using assms(1) by (simp_all add: resInv_def tablesOk_def)
  have "tablesOk db'" using t by (simp add: tablesOk_def assms(2-4) distinct_map_filter)
  moreover have "holds db' h" if "h \<in> set (fdGroups db')" "isLive h" for h
  proof -
    have "h \<in> set (fdGroups db)" using that assms(2) by simp
    moreover from this have "holds db h" using that assms(1) by (simp add: resInv_def)
    ultimately show ?thesis using assms(5) [of h] that(2) t unfolding holds_def assms(3,4)
      by (intro conjI map_of_filter_keep) auto
  qed
  ultimately show ?thesis by (simp add: resInv_def)
qed

lemma releases:
  assumes "releaseEngines purposes db1 g (nxt = ''deleted'') = Inr db2"
    "(if nxt = ''deleted'' then releaseIPs purposes db2 g else Inr db2) = Inr db'"
  shows "fdGroups db' = fdGroups db1" "fdPublishers db' = fdPublishers db1" "fdHistory db' = fdHistory db1"
    "fdReserved db' = filter (\<lambda>r. \<not> (snd r = fgID g \<and> (nxt = ''deleted'' \<or> fst r \<notin> {fgA g, fgB g}))) (fdReserved db1)"
    "fdIPs db' = filter (\<lambda>r. \<not> (nxt = ''deleted'' \<and> snd r = fgID g)) (fdIPs db1)"
  using assms by (auto simp: releaseEngines_def releaseIPs_def Let_def split: if_splits)

lemma withdraw_resInv:
  assumes "CompleteWithdrawal purposes sha live db t pf v = Inr (db', g')" "resInv db"
  shows "resInv db'"
proof (rule CompleteWithdrawal_Inr [OF assms(1)])
  fix g :: fgroup and nxt db1 db2
  let ?db = "db\<lparr>fdWithdrawals := fdWithdrawals db @ [\<lparr>wdGroup = fgID g, wdGeneration = fgGeneration g, wdEpoch = ptEpoch t, wdProof = sha pf\<rparr>]\<rparr>"
  let ?row = "g\<lparr>fgLifecycle := nxt, fgGeneration := fgGeneration g + 1\<rparr>"
  assume p: "putGroup ?db ?row = Inr db1" and r: "releaseEngines purposes db1 g (nxt = ''deleted'') = Inr db2"
    "(if nxt = ''deleted'' then releaseIPs purposes db2 g else Inr db2) = Inr db'"
  have inv: "resInv db1" by (rule putGroup_resInv [OF p]) (simp add: assms(2))
  note f = releases [OF r]
  have row: "h = ?row" if "h \<in> set (fdGroups db1)" "fgID h = fgID g" for h
    using that unfolding putGroup_Inr(1) [OF p] by (auto split: if_splits)
  have "\<not> (fgID h = fgID g \<and> nxt = ''deleted'')" if "h \<in> set (fdGroups db1)" "isLive h" for h
    using row [OF that(1)] that(2) by (auto simp: isLive_def)
  then show ?thesis
    by (intro release_resInv [OF inv f(1) f(4) f(5)]) (use row in force)
qed

lemma create_resInv:
  assumes "CreateGroup db g i = Inr (db', g')" "resInv db"
  shows "resInv db'"
proof (rule CreateGroup_Inr [OF assms(1)])
  fix db1
  let ?row = "g\<lparr>fgID := i, fgGeneration := 1, fgLifecycle := ''active''\<rparr>"
  assume n: "i \<notin> fgID ` set (fdGroups db)" and r: "reserve (db\<lparr>fdGroups := fdGroups db @ [?row]\<rparr>) ?row = Inr db1"
    and d: "db' = insertMembers db1 ?row"
  have "tablesOk (db\<lparr>fdGroups := fdGroups db @ [?row]\<rparr>)" using assms(2) n by (auto simp: resInv_def tablesOk_def)
  moreover have "holds db1 h" if "holds db h" for h
    using reserve_Inr [OF r, of h] that by (simp add: holds_def)
  ultimately show ?thesis using reserve_Inr [OF r] assms(2) unfolding d insertMembers_frame
    by (auto simp: resInv_def isLive_def)
qed

lemma fo_step_resInv: "fo_step db db' \<Longrightarrow> resInv db \<Longrightarrow> resInv db'"
proof (induction rule: fo_step.induct)
  case (created db g i db' g')
  then show ?case by (rule create_resInv)
next
  case (updated db g n db' g')
  from updated(1) show ?case
    by (rule UpdateGroup_Inr) (use updated(2) putGroup_resInv in auto)
next
  case (moved db i n nxt db' g')
  from moved(1) show ?case by (rule transition_Inr) (use moved(2) putGroup_resInv in blast)
next
  case (rotated purposes db i n e ow se db' t)
  from rotated(1) show ?case by (rule RotatePublisher_Inr) (use rotated(2) in simp)
next
  case (withdrawn purposes sha live db t pf v db' g')
  then show ?case by (rule withdraw_resInv)
qed simp_all

lemma fo_step_rowsInv: "fo_step db db' \<Longrightarrow> rowsInv db \<Longrightarrow> rowsInv db'"
proof (induction rule: fo_step.induct)
  case (created db g i db' g')
  from created(1) show ?case
  proof (rule CreateGroup_Inr)
    fix db1
    let ?row = "g\<lparr>fgID := i, fgGeneration := 1, fgLifecycle := ''active''\<rparr>"
    assume c: "Validate g" "reserve (db\<lparr>fdGroups := fdGroups db @ [?row]\<rparr>) ?row = Inr db1" "db' = insertMembers db1 ?row"
    have "rowOk ?row" using c(1) by (simp add: rowOk_def)
    then show ?case using reserve_Inr [OF c(2)] created(2) unfolding c(3) insertMembers_frame by (auto simp: rowsInv_def)
  qed
next
  case (updated db g n db' g')
  from updated(1) show ?case
  proof (rule UpdateGroup_Inr)
    fix cur row :: fgroup and db1
    assume u: "Validate g" "cur \<in> set (fdGroups db)" "fgGeneration cur = n" "0 < n"
      "fgLifecycle cur = ''active'' \<or> fgLifecycle cur = ''withdrawn''" "fgIP cur = fgIP g"
      "row = cur\<lparr>fgName := fgName g, fgA := fgA g, fgB := fgB g,
         fgLifecycle := (if sameMembers cur g then fgLifecycle cur else ''draining''), fgGeneration := n + 1\<rparr>"
      "putGroup db row = Inr db1"
      "db' = insertMembers (db1\<lparr>fdMembers := filter (\<lambda>m. fst m \<noteq> fgID g) (fdMembers db1)\<rparr>) row"
    have "rowOk row" using u(1-7) Validate_edit [of g cur] by (auto simp: rowOk_def)
    then have "rowsInv db1" by (rule putGroup_rowsInv [OF u(8) updated(2)])
    then show ?case unfolding u(9) insertMembers_frame by (simp add: rowsInv_def)
  qed
next
  case (moved db i n nxt db' g')
  from moved(1) show ?case
  proof (rule transition_Inr)
    fix g :: fgroup assume g: "g \<in> set (fdGroups db)" "fgGeneration g = n" "0 < n" "nxt \<in> {''draining'', ''deleting'', ''active''}"
      "putGroup db (g\<lparr>fgLifecycle := nxt, fgGeneration := n + 1\<rparr>) = Inr db'"
    have "rowOk (g\<lparr>fgLifecycle := nxt, fgGeneration := n + 1\<rparr>)"
      using g moved(2) by (auto simp: rowsInv_def rowOk_def)
    then show ?case by (rule putGroup_rowsInv [OF g(5) moved(2)])
  qed
next
  case (rotated purposes db i n e ow se db' t)
  from rotated(1) show ?case by (rule RotatePublisher_Inr) (use rotated(2) in \<open>simp add: rowsInv_def\<close>)
next
  case (withdrawn purposes sha live db t pf v db' g')
  from withdrawn(1) show ?case
  proof (rule CompleteWithdrawal_Inr)
    fix g :: fgroup and nxt db1 db2
    let ?db = "db\<lparr>fdWithdrawals := fdWithdrawals db @ [\<lparr>wdGroup = fgID g, wdGeneration = fgGeneration g, wdEpoch = ptEpoch t, wdProof = sha pf\<rparr>]\<rparr>"
    assume w: "lockPublisher db t = Inr g" "nxt = (if fgLifecycle g = ''deleting'' then ''deleted'' else ''withdrawn'')"
      "putGroup ?db (g\<lparr>fgLifecycle := nxt, fgGeneration := fgGeneration g + 1\<rparr>) = Inr db1"
      "releaseEngines purposes db1 g (nxt = ''deleted'') = Inr db2"
      "(if nxt = ''deleted'' then releaseIPs purposes db2 g else Inr db2) = Inr db'"
    have g: "g \<in> set (fdGroups db)" using lockPublisher_Inr [OF w(1)] lockGroup_Inr by blast
    have "rowOk (g\<lparr>fgLifecycle := nxt, fgGeneration := fgGeneration g + 1\<rparr>)"
      using g withdrawn(2) w(2) by (auto simp: rowsInv_def rowOk_def)
    moreover have db: "rowsInv ?db" using withdrawn(2) by (simp add: rowsInv_def)
    ultimately have "rowsInv db1" using putGroup_rowsInv [OF w(3) db] by simp
    then show ?case using releases(1) [OF w(4,5)] by (simp add: rowsInv_def)
  qed
qed (simp_all add: rowsInv_def)

text \<open>What the operations on a group leave of the other tables.\<close>

definition keeps :: "failover_db \<Rightarrow> failover_db \<Rightarrow> bool" where
  "keeps db db' \<longleftrightarrow> fdHistory db' = fdHistory db \<and> fdPublishers db' = fdPublishers db \<and>
     set (fdReserved db) \<subseteq> set (fdReserved db')"

lemma putGroup_keeps: "putGroup db g = Inr db' \<Longrightarrow> keeps db db'"
  using putGroup_Inr(2,3,7) by (simp add: keeps_def)

lemma group_ops_keep:
  "CreateGroup db g i = Inr (db', g') \<Longrightarrow> keeps db db'"
  "UpdateGroup db g n = Inr (db', g') \<Longrightarrow> keeps db db'"
  "transition db i n nxt = Inr (db', g') \<Longrightarrow> keeps db db'"
proof -
  show "CreateGroup db g i = Inr (db', g') \<Longrightarrow> keeps db db'"
    by (erule CreateGroup_Inr) (use reserve_Inr in \<open>fastforce simp: keeps_def\<close>)
  show "UpdateGroup db g n = Inr (db', g') \<Longrightarrow> keeps db db'"
  proof (erule UpdateGroup_Inr)
    fix row db1 assume u: "putGroup db row = Inr db1"
      "db' = insertMembers (db1\<lparr>fdMembers := filter (\<lambda>m. fst m \<noteq> fgID g) (fdMembers db1)\<rparr>) row"
    show ?thesis using putGroup_keeps [OF u(1)] by (simp add: keeps_def u(2))
  qed
  show "transition db i n nxt = Inr (db', g') \<Longrightarrow> keeps db db'"
    by (erule transition_Inr) (rule putGroup_keeps)
qed

lemma withdrawal_history:
  assumes "CompleteWithdrawal purposes sha live db t pf v = Inr (db', g')"
  shows "fdHistory db' = fdHistory db" "fdPublishers db' = fdPublishers db"
proof -
  have "fdHistory db' = fdHistory db \<and> fdPublishers db' = fdPublishers db"
  proof (rule CompleteWithdrawal_Inr [OF assms])
    fix g :: fgroup and nxt db1 db2
    let ?db = "db\<lparr>fdWithdrawals := fdWithdrawals db @ [\<lparr>wdGroup = fgID g, wdGeneration = fgGeneration g, wdEpoch = ptEpoch t, wdProof = sha pf\<rparr>]\<rparr>"
    assume w: "putGroup ?db (g\<lparr>fgLifecycle := nxt, fgGeneration := fgGeneration g + 1\<rparr>) = Inr db1"
      "releaseEngines purposes db1 g (nxt = ''deleted'') = Inr db2"
      "(if nxt = ''deleted'' then releaseIPs purposes db2 g else Inr db2) = Inr db'"
    show ?thesis using putGroup_Inr(2,3) [OF w(1)] releases(2,3) [OF w(2,3)] by simp
  qed
  then show "fdHistory db' = fdHistory db" "fdPublishers db' = fdPublishers db" by blast+
qed

lemma fo_history_grows: "fo_step db db' \<Longrightarrow> set (fdHistory db) \<subseteq> set (fdHistory db')"
proof (induction rule: fo_step.induct)
  case (rotated purposes db i n e ow se db' t)
  from rotated show ?case by (rule RotatePublisher_Inr) auto
qed (auto simp: keeps_def withdrawal_history dest!: group_ops_keep)

section \<open>Publishers\<close>

definition tokenOf :: "uuid \<Rightarrow> publisher \<Rightarrow> ptoken" where
  "tokenOf i p = \<lparr>ptGroup = i, ptGeneration = pbGeneration p, ptEpoch = pbEpoch p, ptOwner = pbOwner p, ptSession = pbSession p\<rparr>"

text \<open>The publisher row is the newest entry of the history.\<close>

definition pubOk :: "ptoken list \<Rightarrow> uuid \<Rightarrow> publisher option \<Rightarrow> bool" where
  "pubOk hist i p = (case p of
     None \<Rightarrow> \<forall>t \<in> set hist. ptGroup t \<noteq> i
   | Some p \<Rightarrow> tokenOf i p \<in> set hist \<and> 0 < pbEpoch p \<and>
       (\<forall>t \<in> set hist. ptGroup t = i \<longrightarrow> ptEpoch t < pbEpoch p \<or> t = tokenOf i p))"

lemma pubOk_le:
  assumes "pubOk hist i (Some p)" "t \<in> set hist" "ptGroup t = i"
  shows "ptEpoch t \<le> pbEpoch p"
proof -
  have "ptEpoch t < pbEpoch p \<or> t = tokenOf i p" using assms by (simp add: pubOk_def)
  then show ?thesis by (auto simp: tokenOf_def)
qed

definition pubInv :: "failover_db \<Rightarrow> bool" where
  "pubInv db \<longleftrightarrow> (\<forall>i. pubOk (fdHistory db) i (fdPublishers db i))"

lemma pubInv_frame: "fdHistory db' = fdHistory db \<Longrightarrow> fdPublishers db' = fdPublishers db \<Longrightarrow> pubInv db \<Longrightarrow> pubInv db'"
  by (simp add: pubInv_def)

lemma rotate_pubInv:
  assumes "RotatePublisher purposes db i n e ow se = Inr (db', t)" "pubInv db"
  shows "pubInv db'"
proof (rule RotatePublisher_Inr [OF assms(1)])
  let ?p = "\<lparr>pbEpoch = e + 1, pbOwner = ow, pbSession = se, pbGeneration = n, pbSequence = 0\<rparr>"
  assume e: "e = (case fdPublishers db i of None \<Rightarrow> 0 | Some p \<Rightarrow> pbEpoch p)"
    and t: "t = \<lparr>ptGroup = i, ptGeneration = n, ptEpoch = e + 1, ptOwner = ow, ptSession = se\<rparr>"
    and d: "db' = db\<lparr>fdPublishers := (fdPublishers db)(i \<mapsto> ?p), fdHistory := fdHistory db @ [t]\<rparr>"
  have old: "pubOk (fdHistory db) j (fdPublishers db j)" for j using assms(2) by (simp add: pubInv_def)
  have tk: "tokenOf i ?p = t" by (simp add: tokenOf_def t)
  have le: "ptEpoch u \<le> e" if "u \<in> set (fdHistory db)" "ptGroup u = i" for u
    using old [of i] that e pubOk_le [of "fdHistory db" i _ u]
    by (cases "fdPublishers db i") (auto simp: pubOk_def [of _ _ None])
  have "0 \<le> e" using old [of i] e by (auto simp: pubOk_def split: option.splits)
  then have "pubOk (fdHistory db @ [t]) i (Some ?p)" using le tk by (force simp: pubOk_def)
  moreover have "pubOk (fdHistory db @ [t]) j (fdPublishers db j)" if "j \<noteq> i" for j
    using old [of j] that t by (auto simp: pubOk_def split: option.splits)
  ultimately show ?thesis by (simp add: pubInv_def d)
qed

lemma fo_step_pubInv: "fo_step db db' \<Longrightarrow> pubInv db \<Longrightarrow> pubInv db'"
proof (induction rule: fo_step.induct)
  case (created db g i db' g')
  from group_ops_keep(1) [OF created(1)] show ?case by (intro pubInv_frame [OF _ _ created(2)]) (simp_all add: keeps_def)
next
  case (updated db g n db' g')
  from group_ops_keep(2) [OF updated(1)] show ?case by (intro pubInv_frame [OF _ _ updated(2)]) (simp_all add: keeps_def)
next
  case (moved db i n nxt db' g')
  from group_ops_keep(3) [OF moved(1)] show ?case by (intro pubInv_frame [OF _ _ moved(2)]) (simp_all add: keeps_def)
next
  case (rotated purposes db i n e ow se db' t)
  then show ?case by (rule rotate_pubInv)
next
  case (withdrawn purposes sha live db t pf v db' g')
  show ?case by (rule pubInv_frame [OF withdrawal_history [OF withdrawn(1)] withdrawn(2)])
next
  case (engines db es)
  then show ?case by (simp add: pubInv_def)
next
  case (sequenced db i p n)
  have "pubOk (fdHistory db) i (Some (p\<lparr>pbSequence := n\<rparr>)) = pubOk (fdHistory db) i (Some p)"
    by (simp add: pubOk_def tokenOf_def)
  then show ?case using sequenced by (simp add: pubInv_def) metis
qed

definition foInv :: "failover_db \<Rightarrow> bool" where
  "foInv db \<longleftrightarrow> resInv db \<and> rowsInv db \<and> pubInv db"

lemma fo_reach_inv: "fo_reach db \<Longrightarrow> foInv db"
proof (induction rule: fo_reach.induct)
  case (start db)
  then show ?case by (simp add: foInv_def resInv_def tablesOk_def rowsInv_def pubInv_def pubOk_def)
next
  case (step db db')
  then show ?case by (auto simp: foInv_def intro: fo_step_resInv fo_step_rowsInv fo_step_pubInv)
qed

section \<open>Example\<close>

text \<open>A group is created, drained, its publisher rotated twice, and its withdrawal verified.\<close>

definition okFo :: "failover_error + failover_db \<times> 'a \<Rightarrow> failover_db \<Rightarrow> failover_db" where
  "okFo r d = (case r of Inl _ \<Rightarrow> d | Inr (db, _) \<Rightarrow> db)"

definition exFo0 :: failover_db where
  "exFo0 = \<lparr>fdGroups = [], fdMembers = [], fdIPs = [], fdReserved = [], fdPublishers = Map.empty, fdHistory = [],
     fdWithdrawals = [], fdEngines = [\<lparr>feID = 11, feNode = ''n1'', fePolicy = 7, feInactive = False\<rparr>,
       \<lparr>feID = 12, feNode = ''n2'', fePolicy = 7, feInactive = False\<rparr>]\<rparr>"

definition exFo1 :: failover_db where "exFo1 = okFo (CreateGroup exFo0 exFGroup 1) exFo0"
definition exFo2 :: failover_db where "exFo2 = okFo (transition exFo1 1 1 ''draining'') exFo1"
definition exFo3 :: failover_db where "exFo3 = okFo (RotatePublisher (\<lambda>_. True) exFo2 1 2 0 5 61) exFo2"
definition exFo4 :: failover_db where "exFo4 = okFo (RotatePublisher (\<lambda>_. True) exFo3 1 2 1 5 62) exFo3"

definition exToken :: "int \<Rightarrow> uuid \<Rightarrow> ptoken" where
  "exToken e se = \<lparr>ptGroup = 1, ptGeneration = 2, ptEpoch = e, ptOwner = 5, ptSession = se\<rparr>"

definition exWithdraw :: "failover_error + failover_db \<times> fgroup" where
  "exWithdraw = CompleteWithdrawal (\<lambda>_. True) (\<lambda>_. replicate 64 CHR ''0'') True exFo4 (exToken 2 62) [1] (Some (\<lambda>_ _. True))"

definition exFo5 :: failover_db where "exFo5 = okFo exWithdraw exFo4"

lemma okFo_Inr: "\<not> isl r \<Longrightarrow> \<exists>x. r = Inr (okFo r d, x)"
  by (cases r) (auto simp: okFo_def)

lemma exFo_steps:
  "fo_step exFo0 exFo1" "fo_step exFo1 exFo2" "fo_step exFo2 exFo3" "fo_step exFo3 exFo4" "fo_step exFo4 exFo5"
proof -
  have "\<not> isl (CreateGroup exFo0 exFGroup 1)" by code_simp
  from okFo_Inr [OF this, of exFo0] show "fo_step exFo0 exFo1"
    unfolding exFo1_def [symmetric] by (blast intro: fo_step.created)
  have "\<not> isl (transition exFo1 1 1 ''draining'')" by code_simp
  from okFo_Inr [OF this, of exFo1] show "fo_step exFo1 exFo2"
    unfolding exFo2_def [symmetric] by (blast intro: fo_step.moved)
  have "\<not> isl (RotatePublisher (\<lambda>_. True) exFo2 1 2 0 5 61)" by code_simp
  from okFo_Inr [OF this, of exFo2] show "fo_step exFo2 exFo3"
    unfolding exFo3_def [symmetric] by (blast intro: fo_step.rotated)
  have "\<not> isl (RotatePublisher (\<lambda>_. True) exFo3 1 2 1 5 62)" by code_simp
  from okFo_Inr [OF this, of exFo3] show "fo_step exFo3 exFo4"
    unfolding exFo4_def [symmetric] by (blast intro: fo_step.rotated)
  have "\<not> isl exWithdraw" by code_simp
  from okFo_Inr [OF this, of exFo4] show "fo_step exFo4 exFo5"
    unfolding exFo5_def [symmetric] unfolding exWithdraw_def by (blast intro: fo_step.withdrawn)
qed

lemma exFo_reach: "fo_reach exFo1" "fo_reach exFo4"
proof -
  have "fo_reach exFo0" by (rule fo_reach.start) (simp_all add: exFo0_def)
  then show r: "fo_reach exFo1" using exFo_steps(1) by (rule fo_reach.step)
  show "fo_reach exFo4" by (rule fo_reach.step [OF fo_reach.step [OF fo_reach.step [OF r]]]) (rule exFo_steps)+
qed

text \<open>The same group asked to be deleted before the withdrawal.\<close>

definition exDel1 :: failover_db where "exDel1 = okFo (transition exFo4 1 2 ''deleting'') exFo4"
definition exDeleting :: failover_db where "exDeleting = okFo (RotatePublisher (\<lambda>_. True) exDel1 1 3 2 5 63) exDel1"

definition exDelete :: "failover_error + failover_db \<times> fgroup" where
  "exDelete = CompleteWithdrawal (\<lambda>_. True) (\<lambda>_. replicate 64 CHR ''0'') True exDeleting
     \<lparr>ptGroup = 1, ptGeneration = 3, ptEpoch = 3, ptOwner = 5, ptSession = 63\<rparr> [1] (Some (\<lambda>_ _. True))"

definition exDeleted :: failover_db where "exDeleted = okFo exDelete exDeleting"

lemma exDeleted_step: "fo_step exDeleting exDeleted"
proof -
  have "\<not> isl exDelete" by code_simp
  from okFo_Inr [OF this, of exDeleting] show ?thesis
    unfolding exDeleted_def [symmetric] unfolding exDelete_def by (blast intro: fo_step.withdrawn)
qed

section \<open>Properties\<close>

text \<open>C19. In every history, two different groups that are not deleted share neither frontend address
  nor engine, whatever state of draining or withdrawal they are in.\<close>

theorem failover_exclusive:
  assumes "fo_reach db" "g \<in> set (fdGroups db)" "h \<in> set (fdGroups db)" "g \<noteq> h" "isLive g" "isLive h"
  shows "fgID g \<noteq> fgID h \<and> fgIP g \<noteq> fgIP h \<and> {fgA g, fgB g} \<inter> {fgA h, fgB h} = {}"
proof -
  have inv: "resInv db" using fo_reach_inv [OF assms(1)] by (simp add: foInv_def)
  then have "holds db g" "holds db h" using assms by (simp_all add: resInv_def)
  moreover have ne: "fgID g \<noteq> fgID h"
    using inv assms(2-4) by (auto simp: resInv_def tablesOk_def distinct_map inj_on_def)
  ultimately show ?thesis by (auto simp: holds_def)
qed

text \<open>Two groups on four engines.\<close>

definition exTwo :: failover_db where
  "exTwo = okFo (CreateGroup (exFo1\<lparr>fdEngines := [\<lparr>feID = 13, feNode = ''n3'', fePolicy = 7, feInactive = False\<rparr>,
       \<lparr>feID = 14, feNode = ''n4'', fePolicy = 7, feInactive = False\<rparr>]\<rparr>)
     (exFGroup\<lparr>fgName := ''dns-b'', fgIP := ''192.0.2.54'', fgA := 13, fgB := 14\<rparr>) 2) exFo1"

lemma exTwo_reach: "fo_reach exTwo"
proof -
  let ?db = "exFo1\<lparr>fdEngines := [\<lparr>feID = 13, feNode = ''n3'', fePolicy = 7, feInactive = False\<rparr>,
       \<lparr>feID = 14, feNode = ''n4'', fePolicy = 7, feInactive = False\<rparr>]\<rparr>"
  let ?c = "CreateGroup ?db (exFGroup\<lparr>fgName := ''dns-b'', fgIP := ''192.0.2.54'', fgA := 13, fgB := 14\<rparr>) 2"
  have "fo_reach ?db" by (rule fo_reach.step [OF exFo_reach(1)]) (rule fo_step.engines)
  moreover have "\<not> isl ?c" by code_simp
  from okFo_Inr [OF this, of exFo1] have "fo_step ?db exTwo"
    unfolding exTwo_def [symmetric] by (blast intro: fo_step.created)
  ultimately show ?thesis by (rule fo_reach.step)
qed

theorem failover_exclusive_witness:
  "fgIP (fdGroups exTwo ! 0) \<noteq> fgIP (fdGroups exTwo ! 1)"
proof -
  have l: "length (fdGroups exTwo) = 2" by code_simp
  have "fdGroups exTwo ! 0 \<noteq> fdGroups exTwo ! 1" "isLive (fdGroups exTwo ! 0)" "isLive (fdGroups exTwo ! 1)"
    by code_simp+
  then show ?thesis using failover_exclusive [OF exTwo_reach, of "fdGroups exTwo ! 0" "fdGroups exTwo ! 1"] l
    by (simp add: nth_mem)
qed





text \<open>C34. Every stored group is well-formed: its name, address and members pass \<open>Validate\<close>, its
  generation is positive and its lifecycle is one of the five the schema allows; ids are unique.\<close>

theorem failover_rows_typed:
  assumes "fo_reach db" "g \<in> set (fdGroups db)"
  shows "Validate g \<and> 0 < fgGeneration g \<and>
    fgLifecycle g \<in> {''active'', ''draining'', ''withdrawn'', ''deleting'', ''deleted''} \<and>
    distinct (map fgID (fdGroups db))"
  using fo_reach_inv [OF assms(1)] assms(2) by (simp add: foInv_def rowsInv_def rowOk_def resInv_def tablesOk_def)

theorem failover_rows_typed_witness:
  "Validate (hd (fdGroups exFo4)) \<and> 0 < fgGeneration (hd (fdGroups exFo4))"
proof -
  have "fdGroups exFo4 \<noteq> []" by code_simp
  then show ?thesis using failover_rows_typed [OF exFo_reach(2), of "hd (fdGroups exFo4)"] by simp
qed

end
