(* ===== verification/Rollout.thy ===== *)
theory Rollout
  imports Go_Num
begin

text \<open>
  The staged-rollout state machine (\<open>mgmt/internal/rollout/rollout.go\<close>): one step of a rollout on an
  observation of its engine group, canary selection, and the version an engine is offered. The
  halt reason is kept as a value; the code formats it into a sentence.
\<close>

section \<open>Types\<close>

datatype rollout_state = Pending | Canary | Verifying | Rolling | Completed | Halted | RolledBack | Superseded

definition Terminal :: "rollout_state \<Rightarrow> bool" where
  "Terminal s \<longleftrightarrow> s = Completed \<or> s = RolledBack \<or> s = Superseded"

datatype strategy = AllAtOnce | CanaryStrategy

datatype rollout_kind = KindChange | KindRollback | KindRepublish

definition CanaryLabel :: string where "CanaryLabel = ''nexora.io/canary''"

record rollout_params =
  rpStrategy :: strategy
  rpCanaryCount :: int
  rpCanaryPercent :: int
  rpAckTimeoutSeconds :: int
  rpHealthWindowSeconds :: int
  rpMaxServfailRatio :: rat
  rpMinHealthQueries :: nat

datatype halt_reason =
    Rejected string nat string
  | NotApplied string nat int
  | StoppedReporting string
  | ServfailRatio string rat rat nat

record rollout =
  roID :: uuid
  roGroup :: uuid
  roVersion :: nat
  roKind :: rollout_kind
  roState :: rollout_state
  roCanaries :: "uuid list"
  roPhase :: time
  roHalt :: "halt_reason option"
  roParams :: rollout_params

record health =
  heSamples :: nat
  heQueries :: nat
  heServfail :: nat

record engine =
  enID :: uuid
  enName :: string
  enLabels :: "string \<rightharpoonup> string"
  enConnected :: bool
  enApplied :: nat
  enRejected :: nat
  enReason :: string
  enHealth :: health

record observation =
  obNow :: time
  obPaused :: bool
  obEngines :: "engine list"

section \<open>Step\<close>

definition enter :: "rollout \<Rightarrow> rollout_state \<Rightarrow> time \<Rightarrow> rollout" where
  "enter r s now = r\<lparr>roState := s, roPhase := now\<rparr>"

definition halt :: "rollout \<Rightarrow> time \<Rightarrow> halt_reason \<Rightarrow> rollout" where
  "halt r now reason = (enter r Halted now)\<lparr>roHalt := Some reason\<rparr>"

definition pick :: "engine list \<Rightarrow> uuid list \<Rightarrow> engine list" where
  "pick es ids = filter (\<lambda>e. enID e \<in> set ids) es"

fun rejection :: "rollout \<Rightarrow> engine list \<Rightarrow> halt_reason option" where
  "rejection r [] = None"
| "rejection r (e # es) =
     (if enRejected e = roVersion r then Some (Rejected (enName e) (roVersion r) (enReason e))
      else rejection r es)"

fun firstUnapplied :: "rollout \<Rightarrow> engine list \<Rightarrow> bool \<Rightarrow> engine option" where
  "firstUnapplied r [] connectedOnly = None"
| "firstUnapplied r (e # es) connectedOnly =
     (if connectedOnly \<and> \<not> enConnected e then firstUnapplied r es connectedOnly
      else if enApplied e < roVersion r then Some e
      else firstUnapplied r es connectedOnly)"

text \<open>The health loop of the verifying phase.\<close>

fun unhealthy :: "rollout_params \<Rightarrow> engine list \<Rightarrow> halt_reason option" where
  "unhealthy p [] = None"
| "unhealthy p (e # es) =
     (let h = enHealth e in
      if heSamples h < 2 then Some (StoppedReporting (enName e))
      else if heQueries h < rpMinHealthQueries p \<or> heQueries h = 0 then unhealthy p es
      else let ratio = fl_div (fl_of_int (int (heServfail h))) (fl_of_int (int (heQueries h))) in
      if ratio > rpMaxServfailRatio p
      then Some (ServfailRatio (enName e) ratio (rpMaxServfailRatio p) (heQueries h))
      else unhealthy p es)"

definition isLabelled :: "engine \<Rightarrow> bool" where
  "isLabelled e \<longleftrightarrow> enLabels e CanaryLabel = Some ''true''"

definition SelectCanaries :: "rollout_params \<Rightarrow> engine list \<Rightarrow> uuid list" where
  "SelectCanaries p engines =
     (let connected = filter enConnected engines; n = int (length connected) in
      if n = 0 then []
      else let want = max (max (rpCanaryCount p)
             \<lceil>fl_div (fl_mult (fl_of_int n) (fl_of_int (rpCanaryPercent p))) 100\<rceil>) 1;
           want = (if 2 \<le> n then min want (n - 1) else want);
           want = min want n;
           ordered = sort_key (\<lambda>e. (\<not> isLabelled e, enName e)) connected
      in map enID (take (nat want) ordered))"

definition stepRollout :: "rollout \<Rightarrow> observation \<Rightarrow> rollout \<times> bool" where
  "stepRollout r obs =
     (if Terminal (roState r) \<or> roState r = Halted then (r, False)
      else let ackTimeout = Seconds (rpAckTimeoutSeconds (roParams r));
               late = timeSub (obNow obs) (roPhase r) > ackTimeout;
               missed = (\<lambda>e. NotApplied (enName e) (roVersion r) (rpAckTimeoutSeconds (roParams r)))
      in case roState r of
        Pending \<Rightarrow>
          if obPaused obs \<and> roKind r = KindChange then (r, False)
          else if roKind r \<noteq> KindChange \<or> rpStrategy (roParams r) = AllAtOnce
          then (enter r Rolling (obNow obs), True)
          else (enter (r\<lparr>roCanaries := SelectCanaries (roParams r) (obEngines obs)\<rparr>) Canary (obNow obs), True)
      | Canary \<Rightarrow>
          let canaries = pick (obEngines obs) (roCanaries r) in
          (case rejection r canaries of
             Some reason \<Rightarrow> (halt r (obNow obs) reason, True)
           | None \<Rightarrow>
               (case firstUnapplied r canaries False of
                  None \<Rightarrow> (enter r Verifying (obNow obs), True)
                | Some e \<Rightarrow> if late then (halt r (obNow obs) (missed e), True) else (r, False)))
      | Verifying \<Rightarrow>
          let canaries = pick (obEngines obs) (roCanaries r) in
          (case rejection r canaries of
             Some reason \<Rightarrow> (halt r (obNow obs) reason, True)
           | None \<Rightarrow>
               if timeSub (obNow obs) (roPhase r) < Seconds (rpHealthWindowSeconds (roParams r)) then (r, False)
               else (case unhealthy (roParams r) canaries of
                 Some reason \<Rightarrow> (halt r (obNow obs) reason, True)
               | None \<Rightarrow> (enter r Rolling (obNow obs), True)))
      | Rolling \<Rightarrow>
          (case rejection r (obEngines obs) of
             Some reason \<Rightarrow> (halt r (obNow obs) reason, True)
           | None \<Rightarrow>
               (case firstUnapplied r (obEngines obs) True of
                  None \<Rightarrow> (r\<lparr>roState := Completed\<rparr>, True)
                | Some e \<Rightarrow> if late then (halt r (obNow obs) (missed e), True) else (r, False)))
      | _ \<Rightarrow> (r, False))"

text \<open>The version an engine is offered, given its group's newest rollout that is not superseded.\<close>

definition Target :: "uuid \<Rightarrow> nat \<Rightarrow> nat \<Rightarrow> rollout option \<Rightarrow> nat" where
  "Target e applied stableVersion latest =
     (case latest of
        None \<Rightarrow> stableVersion
      | Some l \<Rightarrow>
          (if roState l \<in> {Rolling, Completed, RolledBack} then roVersion l
           else if roState l \<in> {Canary, Verifying} \<and> e \<in> set (roCanaries l) then roVersion l
           else if roState l = Halted \<and> applied = roVersion l then roVersion l
           else stableVersion))"

text \<open>A run: the rollout before each observation, and at the end.\<close>

fun rolloutRun :: "rollout \<Rightarrow> observation list \<Rightarrow> rollout list" where
  "rolloutRun r [] = [r]"
| "rolloutRun r (o1 # os) = r # rolloutRun (fst (stepRollout r o1)) os"

section \<open>Lemmas\<close>

lemma rejection_None: "rejection r es = None \<longleftrightarrow> (\<forall>e \<in> set es. enRejected e \<noteq> roVersion r)"
  by (induction es) auto

lemma firstUnapplied_None:
  "firstUnapplied r es b = None \<longleftrightarrow> (\<forall>e \<in> set es. (b \<longrightarrow> enConnected e) \<longrightarrow> roVersion r \<le> enApplied e)"
  by (induction es) auto

definition healthy :: "rollout_params \<Rightarrow> health \<Rightarrow> bool" where
  "healthy p h \<longleftrightarrow> 2 \<le> heSamples h \<and>
     (heQueries h \<ge> rpMinHealthQueries p \<and> heQueries h \<noteq> 0 \<longrightarrow>
        fl_div (fl_of_int (int (heServfail h))) (fl_of_int (int (heQueries h))) \<le> rpMaxServfailRatio p)"

lemma unhealthy_None: "unhealthy p es = None \<longleftrightarrow> (\<forall>e \<in> set es. healthy p (enHealth e))"
  by (induction es) (auto simp: healthy_def Let_def not_less not_le)

text \<open>A state's distance to the end: every change makes it smaller.\<close>

fun rank :: "rollout_state \<Rightarrow> nat" where
  "rank Pending = 4"
| "rank Canary = 3"
| "rank Verifying = 2"
| "rank Rolling = 1"
| "rank _ = 0"

text \<open>The step of each state.\<close>

lemma step_closed: "Terminal (roState r) \<or> roState r = Halted \<Longrightarrow> stepRollout r obs = (r, False)"
  by (simp add: stepRollout_def)

lemma step_Pending:
  "roState r = Pending \<Longrightarrow> stepRollout r obs =
     (if obPaused obs \<and> roKind r = KindChange then (r, False)
      else if roKind r \<noteq> KindChange \<or> rpStrategy (roParams r) = AllAtOnce
      then (enter r Rolling (obNow obs), True)
      else (enter (r\<lparr>roCanaries := SelectCanaries (roParams r) (obEngines obs)\<rparr>) Canary (obNow obs), True))"
  by (simp add: stepRollout_def Terminal_def)

definition ackLate :: "rollout \<Rightarrow> observation \<Rightarrow> bool" where
  "ackLate r obs \<longleftrightarrow> Seconds (rpAckTimeoutSeconds (roParams r)) < timeSub (obNow obs) (roPhase r)"

definition inWindow :: "rollout \<Rightarrow> observation \<Rightarrow> bool" where
  "inWindow r obs \<longleftrightarrow> timeSub (obNow obs) (roPhase r) < Seconds (rpHealthWindowSeconds (roParams r))"

lemma step_Canary:
  "roState r = Canary \<Longrightarrow> stepRollout r obs =
     (case rejection r (pick (obEngines obs) (roCanaries r)) of
        Some reason \<Rightarrow> (halt r (obNow obs) reason, True)
      | None \<Rightarrow> (case firstUnapplied r (pick (obEngines obs) (roCanaries r)) False of
          None \<Rightarrow> (enter r Verifying (obNow obs), True)
        | Some e \<Rightarrow> if ackLate r obs
            then (halt r (obNow obs) (NotApplied (enName e) (roVersion r) (rpAckTimeoutSeconds (roParams r))), True)
            else (r, False)))"
  by (simp add: stepRollout_def Terminal_def ackLate_def Let_def split: option.split)

lemma step_Verifying:
  "roState r = Verifying \<Longrightarrow> stepRollout r obs =
     (case rejection r (pick (obEngines obs) (roCanaries r)) of
        Some reason \<Rightarrow> (halt r (obNow obs) reason, True)
      | None \<Rightarrow> if inWindow r obs then (r, False)
          else (case unhealthy (roParams r) (pick (obEngines obs) (roCanaries r)) of
             Some reason \<Rightarrow> (halt r (obNow obs) reason, True)
           | None \<Rightarrow> (enter r Rolling (obNow obs), True)))"
  by (simp add: stepRollout_def Terminal_def inWindow_def Let_def split: option.split)

lemma step_Rolling:
  "roState r = Rolling \<Longrightarrow> stepRollout r obs =
     (case rejection r (obEngines obs) of
        Some reason \<Rightarrow> (halt r (obNow obs) reason, True)
      | None \<Rightarrow> (case firstUnapplied r (obEngines obs) True of
          None \<Rightarrow> (r\<lparr>roState := Completed\<rparr>, True)
        | Some e \<Rightarrow> if ackLate r obs
            then (halt r (obNow obs) (NotApplied (enName e) (roVersion r) (rpAckTimeoutSeconds (roParams r))), True)
            else (r, False)))"
  by (simp add: stepRollout_def Terminal_def ackLate_def Let_def split: option.split)

lemma rollout_sel [simp]:
  "roState (enter r s now) = s" "roPhase (enter r s now) = now" "roID (enter r s now) = roID r"
  "roGroup (enter r s now) = roGroup r" "roVersion (enter r s now) = roVersion r" "roKind (enter r s now) = roKind r"
  "roParams (enter r s now) = roParams r" "roCanaries (enter r s now) = roCanaries r"
  "roState (halt r now x) = Halted" "roPhase (halt r now x) = now" "roID (halt r now x) = roID r"
  "roGroup (halt r now x) = roGroup r" "roVersion (halt r now x) = roVersion r" "roKind (halt r now x) = roKind r"
  "roParams (halt r now x) = roParams r" "roCanaries (halt r now x) = roCanaries r"
  by (simp_all add: enter_def halt_def)

lemmas step_simps = step_closed step_Pending step_Canary step_Verifying step_Rolling

lemma step_fixed:
  "roID (fst (stepRollout r obs)) = roID r" "roGroup (fst (stepRollout r obs)) = roGroup r"
  "roVersion (fst (stepRollout r obs)) = roVersion r" "roKind (fst (stepRollout r obs)) = roKind r"
  "roParams (fst (stepRollout r obs)) = roParams r"
  by (cases "roState r"; auto simp: step_simps Terminal_def split: option.splits)+

lemma step_unchanged: "\<not> snd (stepRollout r obs) \<Longrightarrow> fst (stepRollout r obs) = r"
  by (cases "roState r") (auto simp: step_simps Terminal_def split: option.splits if_splits)

lemma step_rank: "snd (stepRollout r obs) \<Longrightarrow> rank (roState (fst (stepRollout r obs))) < rank (roState r)"
  by (cases "roState r") (auto simp: step_simps Terminal_def split: option.splits if_splits)

lemma step_phase:
  "snd (stepRollout r obs) \<Longrightarrow> roState (fst (stepRollout r obs)) \<noteq> Completed \<Longrightarrow> roPhase (fst (stepRollout r obs)) = obNow obs"
  by (cases "roState r") (auto simp: step_simps Terminal_def split: option.splits if_splits)

lemma step_canaries:
  "roState r \<noteq> Pending \<Longrightarrow> roCanaries (fst (stepRollout r obs)) = roCanaries r"
  by (cases "roState r") (auto simp: step_simps Terminal_def split: option.splits if_splits)

lemma step_to_rolling:
  assumes "roState (fst (stepRollout r obs)) = Rolling" "roState r \<noteq> Rolling"
    "roKind r = KindChange" "rpStrategy (roParams r) = CanaryStrategy"
  shows "roState r = Verifying \<and> \<not> inWindow r obs \<and>
    (\<forall>e \<in> set (obEngines obs). enID e \<in> set (roCanaries r) \<longrightarrow>
       enRejected e \<noteq> roVersion r \<and> healthy (roParams r) (enHealth e))"
  using assms
  by (cases "roState r")
    (auto simp: step_simps Terminal_def pick_def rejection_None unhealthy_None split: option.splits if_splits)

lemma step_to_verifying:
  assumes "roState (fst (stepRollout r obs)) = Verifying" "roState r \<noteq> Verifying"
  shows "roState r = Canary \<and> (\<forall>e \<in> set (obEngines obs). enID e \<in> set (roCanaries r) \<longrightarrow>
       enRejected e \<noteq> roVersion r \<and> roVersion r \<le> enApplied e)"
  using assms
  by (cases "roState r")
    (auto simp: step_simps Terminal_def pick_def rejection_None firstUnapplied_None split: option.splits if_splits)

lemma step_states:
  "roState (fst (stepRollout r obs)) = Canary \<Longrightarrow> roState r = Canary \<or> roState r = Pending"
  "roState (fst (stepRollout r obs)) = Completed \<Longrightarrow> roState r = Completed \<or> roState r = Rolling"
  "roState (fst (stepRollout r obs)) = RolledBack \<Longrightarrow> roState r = RolledBack"
  "roState (fst (stepRollout r obs)) = Superseded \<Longrightarrow> roState r = Superseded"
  "roState (fst (stepRollout r obs)) = Pending \<Longrightarrow> roState r = Pending"
  by (cases "roState r"; auto simp: step_simps Terminal_def split: option.splits if_splits)+

lemma step_to_completed:
  assumes "roState (fst (stepRollout r obs)) = Completed" "roState r \<noteq> Completed"
  shows "roState r = Rolling \<and> (\<forall>e \<in> set (obEngines obs). enRejected e \<noteq> roVersion r \<and>
    (enConnected e \<longrightarrow> roVersion r \<le> enApplied e))"
  using assms
  by (cases "roState r")
    (auto simp: step_simps Terminal_def rejection_None firstUnapplied_None split: option.splits if_splits)

lemma SelectCanaries_take:
  assumes "\<exists>e \<in> set engines. enConnected e"
  obtains w where
    "SelectCanaries p engines = map enID (take w (sort_key (\<lambda>e. (\<not> isLabelled e, enName e)) (filter enConnected engines)))"
    "1 \<le> w" "w \<le> length (filter enConnected engines)"
    "2 \<le> length (filter enConnected engines) \<Longrightarrow> w < length (filter enConnected engines)"
proof -
  let ?c = "filter enConnected engines"
  let ?s = "sort_key (\<lambda>e. (\<not> isLabelled e, enName e)) ?c"
  have pos: "0 < length ?c" using assms by (auto simp: filter_empty_conv)
  define n where "n = int (length ?c)"
  define v where "v = max (max (rpCanaryCount p)
    \<lceil>fl_div (fl_mult (fl_of_int n) (fl_of_int (rpCanaryPercent p))) 100\<rceil>) 1"
  define w where "w = min (if 2 \<le> n then min v (n - 1) else v) n"
  have v: "1 \<le> v" by (simp add: v_def)
  have n: "1 \<le> n" using pos unfolding n_def by linarith
  have "SelectCanaries p engines = map enID (take (nat w) ?s)"
    using n unfolding SelectCanaries_def Let_def w_def v_def n_def by simp
  moreover have "1 \<le> w" "w \<le> int (length ?c)" "2 \<le> length ?c \<Longrightarrow> w < int (length ?c)"
    using v n by (auto simp: w_def n_def)
  ultimately show thesis by (intro that [of "nat w"]) linarith+
qed

text \<open>Runs.\<close>

lemma length_rolloutRun [simp]: "length (rolloutRun r os) = Suc (length os)"
  by (induction os arbitrary: r) auto

lemma rolloutRun_0 [simp]: "rolloutRun r os ! 0 = r"
  by (cases os) auto

lemma rolloutRun_Suc: "k < length os \<Longrightarrow> rolloutRun r os ! Suc k = fst (stepRollout (rolloutRun r os ! k) (os ! k))"
proof (induction os arbitrary: r k)
  case (Cons ob os)
  then show ?case by (cases k) auto
qed simp

lemma run_fixed:
  "k \<le> length os \<Longrightarrow> roVersion (rolloutRun r os ! k) = roVersion r \<and> roKind (rolloutRun r os ! k) = roKind r \<and>
   roParams (rolloutRun r os ! k) = roParams r"
  by (induction k) (simp_all add: rolloutRun_Suc step_fixed)

lemma run_not_rolled_back:
  "k \<le> length os \<Longrightarrow> roState r = Pending \<Longrightarrow> roState (rolloutRun r os ! k) \<noteq> RolledBack"
proof (induction k)
  case (Suc k)
  then show ?case using step_states(3) [of "rolloutRun r os ! k" "os ! k"] by (auto simp: rolloutRun_Suc)
qed simp

lemma run_verified:
  assumes "roState r = Pending" "roKind r = KindChange" "rpStrategy (roParams r) = CanaryStrategy"
  shows "k \<le> length os \<Longrightarrow> roState (rolloutRun r os ! k) \<in> {Rolling, Completed} \<Longrightarrow>
    \<exists>j < k. roState (rolloutRun r os ! j) = Verifying \<and> \<not> inWindow (rolloutRun r os ! j) (os ! j) \<and>
      roCanaries (rolloutRun r os ! j) = roCanaries (rolloutRun r os ! k) \<and>
      (\<forall>e \<in> set (obEngines (os ! j)). enID e \<in> set (roCanaries (rolloutRun r os ! j)) \<longrightarrow>
         enRejected e \<noteq> roVersion r \<and> healthy (roParams r) (enHealth e))"
proof (induction k)
  case (Suc k)
  let ?r = "rolloutRun r os ! k"
  have nx: "rolloutRun r os ! Suc k = fst (stepRollout ?r (os ! k))" using Suc.prems by (simp add: rolloutRun_Suc)
  have f: "roVersion ?r = roVersion r" "roKind ?r = KindChange" "roParams ?r = roParams r"
    using run_fixed [of k os r] Suc.prems assms by auto
  show ?case
  proof (cases "roState ?r \<in> {Rolling, Completed}")
    case True
    then have "roCanaries (rolloutRun r os ! Suc k) = roCanaries ?r" unfolding nx by (intro step_canaries) auto
    moreover from True Suc.IH Suc.prems obtain j where "j < k" "roState (rolloutRun r os ! j) = Verifying"
      "\<not> inWindow (rolloutRun r os ! j) (os ! j)" "roCanaries (rolloutRun r os ! j) = roCanaries ?r"
      "\<forall>e \<in> set (obEngines (os ! j)). enID e \<in> set (roCanaries (rolloutRun r os ! j)) \<longrightarrow>
         enRejected e \<noteq> roVersion r \<and> healthy (roParams r) (enHealth e)" by auto
    ultimately show ?thesis by (intro exI [of _ j]) auto
  next
    case False
    then have "roState (fst (stepRollout ?r (os ! k))) = Rolling"
      using Suc.prems(2) step_states(2) [of ?r "os ! k"] unfolding nx by auto
    then have "roState ?r = Verifying \<and> \<not> inWindow ?r (os ! k) \<and>
      (\<forall>e \<in> set (obEngines (os ! k)). enID e \<in> set (roCanaries ?r) \<longrightarrow>
         enRejected e \<noteq> roVersion ?r \<and> healthy (roParams ?r) (enHealth e))"
      using False f assms(3) by (intro step_to_rolling) auto
    moreover from this have "roCanaries (rolloutRun r os ! Suc k) = roCanaries ?r"
      unfolding nx by (intro step_canaries) auto
    ultimately show ?thesis using f by (intro exI [of _ k]) auto
  qed
qed (use assms in simp)

text \<open>Observations that come later than every timeout of the rollout, in an unpaused group.\<close>

fun spaced :: "duration \<Rightarrow> time \<Rightarrow> observation list \<Rightarrow> bool" where
  "spaced b t [] \<longleftrightarrow> True"
| "spaced b t (ob # os) \<longleftrightarrow> t + b < obNow ob \<and> \<not> obPaused ob \<and> spaced b (obNow ob) os"

definition phaseBound :: "rollout_params \<Rightarrow> duration" where
  "phaseBound p = 1000000000 * max (rpAckTimeoutSeconds p) (rpHealthWindowSeconds p)"

definition timeoutsOk :: "rollout_params \<Rightarrow> bool" where
  "timeoutsOk p \<longleftrightarrow> 0 \<le> rpAckTimeoutSeconds p \<and> rpAckTimeoutSeconds p \<le> 9000000000 \<and>
     0 \<le> rpHealthWindowSeconds p \<and> rpHealthWindowSeconds p \<le> 9000000000"

lemma step_late_changes:
  assumes "timeoutsOk (roParams r)" "roPhase r + phaseBound (roParams r) < obNow ob" "\<not> obPaused ob"
    "0 < rank (roState r)"
  shows "snd (stepRollout r ob)"
proof -
  have s: "Seconds (rpAckTimeoutSeconds (roParams r)) = rpAckTimeoutSeconds (roParams r) * 1000000000"
    "Seconds (rpHealthWindowSeconds (roParams r)) = rpHealthWindowSeconds (roParams r) * 1000000000"
    using assms(1) by (simp_all add: timeoutsOk_def Seconds_id)
  have "rpAckTimeoutSeconds (roParams r) * 1000000000 < obNow ob - roPhase r"
    "rpHealthWindowSeconds (roParams r) * 1000000000 < obNow ob - roPhase r"
    using assms(2) by (auto simp: phaseBound_def)
  then have "ackLate r ob" "\<not> inWindow r ob"
    using assms(1) unfolding ackLate_def inWindow_def s timeoutsOk_def by (auto simp: timeSub_def)
  then show ?thesis using assms(3,4)
    by (cases "roState r") (auto simp: step_simps Terminal_def split: option.splits)
qed

lemma closed_run: "rank (roState r) = 0 \<Longrightarrow> last (rolloutRun r os) = r"
proof (induction os)
  case (Cons ob os)
  have "stepRollout r ob = (r, False)"
    using Cons.prems by (cases "roState r") (auto simp: step_closed Terminal_def)
  then show ?case using Cons by (cases os) auto
qed simp

lemma spaced_closes:
  assumes "rank (roState r) \<le> length os" "timeoutsOk (roParams r)"
    "spaced (phaseBound (roParams r)) (roPhase r) os"
  shows "rank (roState (last (rolloutRun r os))) = 0"
  using assms
proof (induction os arbitrary: r)
  case (Cons ob os)
  let ?r = "fst (stepRollout r ob)"
  have l: "last (rolloutRun r (ob # os)) = last (rolloutRun ?r os)" by (cases os) auto
  show ?case
  proof (cases "rank (roState r) = 0")
    case False
    then have ch: "snd (stepRollout r ob)" using Cons.prems by (intro step_late_changes) auto
    have rk: "rank (roState ?r) \<le> length os" using step_rank [OF ch] Cons.prems(1) by simp
    show ?thesis
    proof (cases "roState ?r = Completed")
      case True
      then show ?thesis unfolding l by (simp add: closed_run)
    next
      case False
      then show ?thesis using Cons.IH [of ?r] Cons.prems step_phase [OF ch] rk unfolding l
        by (simp add: step_fixed)
    qed
  qed (simp add: closed_run del: rolloutRun.simps)
qed simp

text \<open>Example: two engines, the first labelled as canary.\<close>

definition exParams :: rollout_params where
  "exParams = \<lparr>rpStrategy = CanaryStrategy, rpCanaryCount = 1, rpCanaryPercent = 0, rpAckTimeoutSeconds = 60,
     rpHealthWindowSeconds = 30, rpMaxServfailRatio = 1 / 20, rpMinHealthQueries = 100\<rparr>"

definition exRollout :: rollout where
  "exRollout = \<lparr>roID = 1, roGroup = 1, roVersion = 7, roKind = KindChange, roState = Pending, roCanaries = [],
     roPhase = 0, roHalt = None, roParams = exParams\<rparr>"

definition exEngine :: "uuid \<Rightarrow> bool \<Rightarrow> nat \<Rightarrow> nat \<Rightarrow> engine" where
  "exEngine i canary applied servfail = \<lparr>enID = i, enName = ''e'',
     enLabels = (if canary then [CanaryLabel \<mapsto> ''true''] else Map.empty), enConnected = True,
     enApplied = applied, enRejected = 0, enReason = [],
     enHealth = \<lparr>heSamples = 3, heQueries = 1000, heServfail = servfail\<rparr>\<rparr>"

definition exObs :: "int \<Rightarrow> nat \<Rightarrow> observation" where
  "exObs seconds applied = \<lparr>obNow = seconds * 1000000000, obPaused = False,
     obEngines = [exEngine 2 False 6 0, exEngine 1 True applied 0]\<rparr>"

definition exRun :: "observation list" where
  "exRun = [exObs 100 6, exObs 200 7, exObs 300 7, exObs 400 7]"

section \<open>Properties\<close>

text \<open>C6. A canary change reaches the rest of the fleet only after verification: in every run from
  \<open>pending\<close>, if an engine outside the canaries that has not already applied the version is offered
  it in place of the stable one, then at an earlier step the rollout was verifying, the health
  window had passed, and every observed canary had not rejected the version and was healthy.\<close>

theorem rollout_reaches_fleet_verified:
  assumes "roState r = Pending" "roKind r = KindChange" "rpStrategy (roParams r) = CanaryStrategy"
    "k \<le> length os" "e \<notin> set (roCanaries (rolloutRun r os ! k))" "applied \<noteq> roVersion r"
    "Target e applied stableVersion (Some (rolloutRun r os ! k)) = roVersion r" "stableVersion \<noteq> roVersion r"
  shows "\<exists>j < k. roState (rolloutRun r os ! j) = Verifying \<and> \<not> inWindow (rolloutRun r os ! j) (os ! j) \<and>
      roCanaries (rolloutRun r os ! j) = roCanaries (rolloutRun r os ! k) \<and>
      (\<forall>x \<in> set (obEngines (os ! j)). enID x \<in> set (roCanaries (rolloutRun r os ! j)) \<longrightarrow>
         enRejected x \<noteq> roVersion r \<and> healthy (roParams r) (enHealth x))"
proof (rule run_verified [OF assms(1-4)])
  show "roState (rolloutRun r os ! k) \<in> {Rolling, Completed}"
    using assms(5-8) run_not_rolled_back [OF assms(4,1)] run_fixed [OF assms(4), of r]
    by (auto simp: Target_def split: if_splits)
qed

theorem rollout_reaches_fleet_verified_witness:
  "\<exists>j < 3. roState (rolloutRun exRollout exRun ! j) = Verifying"
proof -
  have "roState exRollout = Pending" "roKind exRollout = KindChange"
    "rpStrategy (roParams exRollout) = CanaryStrategy" "3 \<le> length exRun"
    "2 \<notin> set (roCanaries (rolloutRun exRollout exRun ! 3))" "(6 :: nat) \<noteq> roVersion exRollout"
    "Target 2 6 6 (Some (rolloutRun exRollout exRun ! 3)) = roVersion exRollout" "(6 :: nat) \<noteq> roVersion exRollout"
    by code_simp+
  from rollout_reaches_fleet_verified [OF this] show ?thesis by blast
qed

text \<open>C16. Every rollout closes: from any state, in a group that is not paused, four observations that
  are each later than the longer of the two timeouts after the one before bring the rollout to
  \<open>completed\<close>, \<open>halted\<close> or another closed state, whatever the engines report.\<close>

theorem rollout_closes:
  assumes "4 \<le> length os" "timeoutsOk (roParams r)" "spaced (phaseBound (roParams r)) (roPhase r) os"
  shows "Terminal (roState (last (rolloutRun r os))) \<or> roState (last (rolloutRun r os)) = Halted"
proof -
  have "rank (roState r) \<le> 4" by (cases "roState r") auto
  then have "rank (roState (last (rolloutRun r os))) = 0" using assms by (intro spaced_closes) auto
  then show ?thesis by (cases "roState (last (rolloutRun r os))") (auto simp: Terminal_def)
qed

theorem rollout_closes_witness:
  "Terminal (roState (last (rolloutRun exRollout exRun))) \<or> roState (last (rolloutRun exRollout exRun)) = Halted"
  by (rule rollout_closes) code_simp+

text \<open>C36. Canary selection: when some engine is connected, the canaries are connected engines, at
  least one, all but one at most when two or more are connected, and every labelled engine comes
  before every unlabelled one.\<close>

theorem SelectCanaries_correct:
  assumes "\<exists>e \<in> set engines. enConnected e"
  shows "\<exists>cs rest. SelectCanaries p engines = map enID cs \<and> mset (cs @ rest) = mset (filter enConnected engines) \<and>
    cs \<noteq> [] \<and> (2 \<le> length (cs @ rest) \<longrightarrow> rest \<noteq> []) \<and>
    (\<forall>x \<in> set cs. \<forall>y \<in> set rest. (\<not> isLabelled x, enName x) \<le> (\<not> isLabelled y, enName y))"
proof -
  let ?key = "\<lambda>e. (\<not> isLabelled e, enName e)"
  let ?s = "sort_key ?key (filter enConnected engines)"
  obtain w where w: "SelectCanaries p engines = map enID (take w ?s)" "1 \<le> w"
    "w \<le> length (filter enConnected engines)"
    "2 \<le> length (filter enConnected engines) \<Longrightarrow> w < length (filter enConnected engines)"
    using SelectCanaries_take [OF assms] by blast
  have len: "length ?s = length (filter enConnected engines)" by simp
  have "sorted_wrt (\<lambda>x y. ?key x \<le> ?key y) (take w ?s @ drop w ?s)"
    using sorted_sort_key [of ?key] by (simp add: sorted_map)
  then have "\<forall>x \<in> set (take w ?s). \<forall>y \<in> set (drop w ?s). ?key x \<le> ?key y"
    unfolding sorted_wrt_append by blast
  moreover have "mset (take w ?s @ drop w ?s) = mset (filter enConnected engines)" by simp
  moreover have "take w ?s \<noteq> []" using w(2,3) len by (metis le_zero_eq length_0_conv length_take min.absorb2 not_one_le_zero)
  moreover have "2 \<le> length (take w ?s @ drop w ?s) \<longrightarrow> drop w ?s \<noteq> []" using w(4) by (simp add: not_le)
  ultimately show ?thesis using w(1) by blast
qed

theorem SelectCanaries_correct_witness:
  "\<exists>cs :: engine list. SelectCanaries exParams (obEngines (exObs 1 6)) = map enID cs \<and> cs \<noteq> []"
proof -
  have "\<exists>e \<in> set (obEngines (exObs 1 6)). enConnected e" by code_simp
  from SelectCanaries_correct [OF this, where p = exParams] show ?thesis
    by (elim exE conjE) (rule exI, rule conjI, assumption+)
qed

end
