(* ===== verification/Rollout_Store.thy ===== *)
theory Rollout_Store
  imports Rollout
begin

text \<open>
  Rollouts in the database (\<open>rollout/create.go\<close>, \<open>rollout/controller.go\<close>, the target of
  \<open>fleet/engines.go\<close>): creation of a rollout, the controller's drive of one rollout and of all open
  ones, the health query, and the version each engine is offered. A transaction is a function from
  the tables to an error, which leaves them as they were, or to the new tables. The table
  \<open>rollouts\<close> has the partial unique index of its migration: at most one row per engine group in
  \<open>canary\<close>, \<open>verifying\<close> or \<open>rolling\<close>. Advisory lock and transaction time are inputs.
\<close>

section \<open>Tables\<close>

record rollout_row =
  rwRollout :: rollout
  rwPhase :: "time option"
  rwCreated :: time
  rwFinished :: "time option"
  rwFrom :: "nat option"

record group_row =
  grParams :: rollout_params
  grPaused :: bool
  grStable :: "nat option"

record engine_row =
  erID :: uuid
  erGroup :: uuid
  erName :: string
  erLabels :: "string \<rightharpoonup> string"
  erInstance :: "uuid option"
  erApplied :: nat
  erRejected :: "nat option"
  erReason :: string
  erEnrolled :: time
  erRevoked :: bool
  erDeleted :: bool

text \<open>A sample of \<open>engine_stats\<close>; \<open>None\<close> is a message that does not decode.\<close>

record stats_row =
  srEngine :: uuid
  srAt :: time
  srTotals :: "(nat \<times> nat) option"

record rollout_db =
  dbRollouts :: "rollout_row list"
  dbGroups :: "uuid \<rightharpoonup> group_row"
  dbEngines :: "engine_row list"
  dbHeartbeats :: "uuid \<rightharpoonup> time"
  dbStats :: "stats_row list"

datatype rollout_error = NoGroup | ActiveExists | DuplicateID

definition isActive :: "rollout_state \<Rightarrow> bool" where
  "isActive s \<longleftrightarrow> s \<in> {Canary, Verifying, Rolling}"

abbreviation rwID :: "rollout_row \<Rightarrow> uuid" where "rwID w \<equiv> roID (rwRollout w)"
abbreviation rwGroup :: "rollout_row \<Rightarrow> uuid" where "rwGroup w \<equiv> roGroup (rwRollout w)"
abbreviation rwState :: "rollout_row \<Rightarrow> rollout_state" where "rwState w \<equiv> roState (rwRollout w)"

text \<open>The index \<open>rollouts_one_active_per_group\<close>.\<close>

definition activeClash :: "rollout_row list \<Rightarrow> rollout_row \<Rightarrow> bool" where
  "activeClash ws w \<longleftrightarrow> isActive (rwState w) \<and>
     list_ex (\<lambda>v. rwID v \<noteq> rwID w \<and> rwGroup v = rwGroup w \<and> isActive (rwState v)) ws"

definition setState :: "rollout_state \<Rightarrow> time \<Rightarrow> rollout_row \<Rightarrow> rollout_row" where
  "setState s now w = w\<lparr>rwRollout := (rwRollout w)\<lparr>roState := s\<rparr>, rwFinished := Some now\<rparr>"

section \<open>Create\<close>

record create_params =
  cpGroup :: uuid
  cpVersion :: nat
  cpFrom :: "nat option"
  cpKind :: rollout_kind
  cpImmediate :: bool

definition createState :: "create_params \<Rightarrow> group_row \<Rightarrow> bool \<times> strategy \<times> rollout_state" where
  "createState p g =
     (let held = (cpKind p = KindChange \<and> \<not> cpImmediate p \<and> grPaused g);
          strat = (if cpKind p \<noteq> KindChange \<or> cpImmediate p then AllAtOnce else rpStrategy (grParams g))
      in (held, strat, if strat = AllAtOnce \<and> \<not> held then Rolling else Pending))"

definition supersedeRows :: "create_params \<Rightarrow> bool \<Rightarrow> time \<Rightarrow> rollout_row list \<Rightarrow> rollout_row list" where
  "supersedeRows p held now ws =
     (let ofGroup = (\<lambda>states w. rwGroup w = cpGroup p \<and> rwState w \<in> states);
          ws = (if \<not> held \<and> cpKind p = KindRollback
                then map (\<lambda>w. if ofGroup {Halted} w then setState RolledBack now w else w) ws else ws);
          open_states = (if held then {Pending}
                else if cpKind p = KindRollback then {Pending, Canary, Verifying, Rolling}
                else {Pending, Canary, Verifying, Rolling, Halted})
      in map (\<lambda>w. if ofGroup open_states w then setState Superseded now w else w) ws)"

definition newRow :: "create_params \<Rightarrow> group_row \<Rightarrow> strategy \<Rightarrow> rollout_state \<Rightarrow> uuid \<Rightarrow> time \<Rightarrow> rollout_row" where
  "newRow p g strat state newid now =
     \<lparr>rwRollout = \<lparr>roID = newid, roGroup = cpGroup p, roVersion = cpVersion p, roKind = cpKind p,
        roState = state, roCanaries = [], roPhase = 0, roHalt = None,
        roParams = (grParams g)\<lparr>rpStrategy := strat\<rparr>\<rparr>,
      rwPhase = (if state = Rolling then Some now else None), rwCreated = now,
      rwFinished = None, rwFrom = cpFrom p\<rparr>"

definition Create ::
    "rollout_db \<Rightarrow> create_params \<Rightarrow> uuid \<Rightarrow> time \<Rightarrow> rollout_error + rollout_db \<times> uuid \<times> rollout_state" where
  "Create db p newid now =
     (case dbGroups db (cpGroup p) of
        None \<Rightarrow> Inl NoGroup
      | Some g \<Rightarrow>
          let (held, strat, state) = createState p g;
              groups = (if \<not> held \<and> cpKind p = KindRollback
                then (dbGroups db)(cpGroup p \<mapsto> g\<lparr>grPaused := True\<rparr>) else dbGroups db);
              ws = supersedeRows p held now (dbRollouts db);
              w = newRow p g strat state newid now
          in if list_ex (\<lambda>v. rwID v = newid) ws then Inl DuplicateID
             else if activeClash ws w then Inl ActiveExists
             else Inr (db\<lparr>dbRollouts := ws @ [w], dbGroups := groups\<rparr>, newid, state))"

section \<open>The controller\<close>

definition second :: duration where "second = 1000000000"

definition connectedNow :: "rollout_db \<Rightarrow> time \<Rightarrow> engine_row \<Rightarrow> bool" where
  "connectedNow db now e = (case erInstance e of
     None \<Rightarrow> False
   | Some i \<Rightarrow> (case dbHeartbeats db i of None \<Rightarrow> False | Some beat \<Rightarrow> beat > now - 15 * second))"

definition noHealth :: health where "noHealth = \<lparr>heSamples = 0, heQueries = 0, heServfail = 0\<rparr>"

definition loadEngines :: "rollout_db \<Rightarrow> uuid \<Rightarrow> time \<Rightarrow> engine list" where
  "loadEngines db grp now =
     map (\<lambda>e. \<lparr>enID = erID e, enName = erName e, enLabels = erLabels e, enConnected = connectedNow db now e,
        enApplied = erApplied e, enRejected = (case erRejected e of None \<Rightarrow> 0 | Some v \<Rightarrow> v),
        enReason = erReason e, enHealth = noHealth\<rparr>)
      (sort_key (\<lambda>e. (erName e, erEnrolled e))
        (filter (\<lambda>e. erGroup e = grp \<and> \<not> erRevoked e \<and> \<not> erDeleted e) (dbEngines db)))"

text \<open>The rows of the health query: the newest sample of the minute up to \<open>since\<close>, then the later
  ones, in time order.\<close>

definition healthRows :: "stats_row list \<Rightarrow> uuid \<Rightarrow> time \<Rightarrow> stats_row list" where
  "healthRows tbl e since =
     (let mine = filter (\<lambda>s. srEngine s = e) tbl;
          base = take 1 (sort_key (\<lambda>s. - srAt s) (filter (\<lambda>s. srAt s \<le> since \<and> srAt s > since - 60 * second) mine))
      in sort_key srAt (base @ filter (\<lambda>s. srAt s > since) mine))"

definition HealthSince :: "rollout_db \<Rightarrow> uuid \<Rightarrow> time \<Rightarrow> health" where
  "HealthSince db e since =
     (let samples = List.map_filter srTotals (healthRows (dbStats db) e since) in
      if length samples < 2 then noHealth\<lparr>heSamples := length samples\<rparr>
      else case (hd samples, last samples) of ((q0, f0), (q1, f1)) \<Rightarrow>
        let (q0, f0) = (if q1 < q0 \<or> f1 < f0 then (0, 0) else (q0, f0))
        in \<lparr>heSamples = length samples, heQueries = q1 - q0, heServfail = f1 - f0\<rparr>)"

text \<open>A null \<open>phase_started_at\<close> leaves the zero time in place.\<close>

definition observeGroup :: "rollout_db \<Rightarrow> group_row \<Rightarrow> rollout \<Rightarrow> time \<Rightarrow> observation" where
  "observeGroup db g r now =
     \<lparr>obNow = now, obPaused = grPaused g,
      obEngines = map (\<lambda>e. if roState r = Verifying \<and> enID e \<in> set (roCanaries r)
          then e\<lparr>enHealth := HealthSince db (enID e) (roPhase r)\<rparr> else e) (loadEngines db (roGroup r) now)\<rparr>"

definition updateRow :: "rollout_row list \<Rightarrow> rollout_row \<Rightarrow> rollout_error + rollout_row list" where
  "updateRow ws w =
     (if activeClash ws w then Inl ActiveExists
      else Inr (map (\<lambda>v. if rwID v = rwID w then w else v) ws))"

definition driveOne :: "rollout_db \<Rightarrow> bool \<Rightarrow> time \<Rightarrow> uuid \<Rightarrow> rollout_error + rollout_db \<times> bool" where
  "driveOne db locked now i =
     (if \<not> locked then Inr (db, False)
      else case find (\<lambda>w. rwID w = i) (dbRollouts db) of
        None \<Rightarrow> Inr (db, False)
      | Some w \<Rightarrow>
          (case dbGroups db (rwGroup w) of
             None \<Rightarrow> Inr (db, False)
           | Some g \<Rightarrow>
               if Terminal (rwState w) \<or> rwState w = Halted then Inr (db, False)
               else
                 let r = (rwRollout w)\<lparr>roPhase := (case rwPhase w of None \<Rightarrow> zeroTime | Some t \<Rightarrow> t)\<rparr>;
                     (nxt, changed) = stepRollout r (observeGroup db g r now)
                 in if \<not> changed then Inr (db, False)
                    else bindE (updateRow (dbRollouts db)
                        (w\<lparr>rwRollout := nxt, rwPhase := Some (roPhase nxt),
                           rwFinished := (if roState nxt = Completed then Some now else rwFinished w)\<rparr>))
                      (\<lambda>ws. Inr (db\<lparr>dbRollouts := ws,
                         dbGroups := (if roState nxt = Completed
                           then (dbGroups db)(roGroup nxt \<mapsto> g\<lparr>grStable :=
                              Some (max (case grStable g of None \<Rightarrow> 0 | Some v \<Rightarrow> v) (roVersion nxt))\<rparr>)
                           else dbGroups db)\<rparr>, True))))"

text \<open>One tick of the controller: every open rollout in order of creation; an error of one does
  not stop the others. Result: the tables, how many changed, and the errors.\<close>

definition openIDs :: "rollout_db \<Rightarrow> uuid list" where
  "openIDs db = map rwID (sort_key rwCreated
     (filter (\<lambda>w. rwState w \<in> {Pending, Canary, Verifying, Rolling}) (dbRollouts db)))"

definition driveEach ::
    "(uuid \<Rightarrow> bool) \<Rightarrow> (uuid \<Rightarrow> time) \<Rightarrow> uuid \<Rightarrow> rollout_db \<times> nat \<times> rollout_error list \<Rightarrow>
     rollout_db \<times> nat \<times> rollout_error list" where
  "driveEach locked now i acc = (case acc of (db, n, errs) \<Rightarrow>
     (case driveOne db (locked i) (now i) i of
        Inl e \<Rightarrow> (db, n, errs @ [e])
      | Inr (db', ok) \<Rightarrow> (db', if ok then n + 1 else n, errs)))"

definition controllerStep ::
    "(uuid \<Rightarrow> bool) \<Rightarrow> (uuid \<Rightarrow> time) \<Rightarrow> rollout_db \<Rightarrow> rollout_db \<times> nat \<times> rollout_error list" where
  "controllerStep locked now db = fold (driveEach locked now) (openIDs db) (db, 0, [])"

section \<open>What an engine is offered\<close>

definition latestRollout :: "rollout_db \<Rightarrow> uuid \<Rightarrow> rollout option" where
  "latestRollout db g =
     (case sort_key (\<lambda>r. - int (roVersion r))
        (filter (\<lambda>r. roGroup r = g \<and> roState r \<noteq> Superseded) (map rwRollout (dbRollouts db))) of
        [] \<Rightarrow> None | r # _ \<Rightarrow> Some r)"

definition TargetVersion :: "rollout_db \<Rightarrow> engine_row \<Rightarrow> nat" where
  "TargetVersion db e =
     Target (erID e) (erApplied e)
       (case dbGroups db (erGroup e) of None \<Rightarrow> 0 | Some g \<Rightarrow> (case grStable g of None \<Rightarrow> 0 | Some v \<Rightarrow> v))
       (latestRollout db (erGroup e))"

datatype engine_status = StatusRevoked | StatusAhead | StatusDisconnected | StatusRejected | StatusCurrent | StatusBehind

definition engineStatus :: "rollout_db \<Rightarrow> time \<Rightarrow> bool \<Rightarrow> engine_row \<Rightarrow> engine_status" where
  "engineStatus db now versionAhead e =
     (let target = TargetVersion db e in
      if erRevoked e then StatusRevoked
      else if versionAhead \<or> target > 0 \<and> erApplied e > target then StatusAhead
      else if \<not> connectedNow db now e then StatusDisconnected
      else if (case erRejected e of None \<Rightarrow> False | Some v \<Rightarrow> v > erApplied e) then StatusRejected
      else if erApplied e = target then StatusCurrent
      else StatusBehind)"

section \<open>Histories\<close>

text \<open>What happens to the tables: creations and drives, and outside them any change of engines,
  heartbeats, samples and of a group's pause flag.\<close>

inductive fleet_step :: "rollout_db \<Rightarrow> rollout_db \<Rightarrow> bool" where
  created: "Create db p i now = Inr (db', i, s) \<Longrightarrow> fleet_step db db'"
| driven: "driveOne db locked now i = Inr (db', b) \<Longrightarrow> fleet_step db db'"
| reported: "fleet_step db (db\<lparr>dbEngines := es, dbHeartbeats := hs, dbStats := ss\<rparr>)"
| paused: "dbGroups db g = Some row \<Longrightarrow> fleet_step db (db\<lparr>dbGroups := (dbGroups db)(g \<mapsto> row\<lparr>grPaused := b\<rparr>)\<rparr>)"
| added: "dbGroups db g = None \<Longrightarrow> grStable row = None \<Longrightarrow> fleet_step db (db\<lparr>dbGroups := (dbGroups db)(g \<mapsto> row)\<rparr>)"

inductive fleet_reach :: "rollout_db \<Rightarrow> bool" where
  start: "dbRollouts db = [] \<Longrightarrow> fleet_reach db"
| step: "fleet_reach db \<Longrightarrow> fleet_step db db' \<Longrightarrow> fleet_reach db'"

inductive_cases fleet_stepE: "fleet_step db db'"

section \<open>Lemmas\<close>

definition atMostOne :: "(rollout_state \<Rightarrow> bool) \<Rightarrow> rollout_row list \<Rightarrow> bool" where
  "atMostOne P ws \<longleftrightarrow> (\<forall>v \<in> set ws. \<forall>w \<in> set ws. rwGroup v = rwGroup w \<and> P (rwState v) \<and> P (rwState w) \<longrightarrow> rwID v = rwID w)"

definition rowsOk :: "rollout_row list \<Rightarrow> bool" where
  "rowsOk ws \<longleftrightarrow> distinct (map rwID ws) \<and> atMostOne isActive ws \<and> atMostOne (\<lambda>s. s = Pending) ws"

lemma atMostOne_map:
  assumes "atMostOne P ws" "\<And>w. w \<in> set ws \<Longrightarrow> rwID (f w) = rwID w \<and> rwGroup (f w) = rwGroup w"
    "\<And>v w. v \<in> set ws \<Longrightarrow> w \<in> set ws \<Longrightarrow> rwGroup v = rwGroup w \<Longrightarrow> P (rwState (f v)) \<Longrightarrow> P (rwState (f w)) \<Longrightarrow> rwID v \<noteq> rwID w \<Longrightarrow>
       P (rwState v) \<and> P (rwState w)"
  shows "atMostOne P (map f ws)"
  unfolding atMostOne_def
proof (intro ballI impI)
  fix v w assume "v \<in> set (map f ws)" "w \<in> set (map f ws)" and g: "rwGroup v = rwGroup w \<and> P (rwState v) \<and> P (rwState w)"
  then obtain v0 w0 where vw: "v = f v0" "w = f w0" "v0 \<in> set ws" "w0 \<in> set ws" by auto
  have "rwID v0 = rwID w0" using g assms(3) [OF vw(3,4)] assms(1) assms(2) [OF vw(3)] assms(2) [OF vw(4)] vw
    unfolding atMostOne_def by metis
  then show "rwID v = rwID w" using assms(2) vw by simp
qed

lemma atMostOneD:
  "atMostOne P ws \<Longrightarrow> v \<in> set ws \<Longrightarrow> w \<in> set ws \<Longrightarrow> rwGroup v = rwGroup w \<Longrightarrow> P (rwState v) \<Longrightarrow> P (rwState w) \<Longrightarrow> rwID v = rwID w"
  unfolding atMostOne_def by blast

lemma atMostOne_snoc:
  assumes "atMostOne P ws" "P (rwState w) \<Longrightarrow> \<forall>v \<in> set ws. rwGroup v = rwGroup w \<longrightarrow> \<not> P (rwState v)"
  shows "atMostOne P (ws @ [w])"
  unfolding atMostOne_def
proof (intro ballI impI)
  fix u v assume uv: "u \<in> set (ws @ [w])" "v \<in> set (ws @ [w])"
    and g: "rwGroup u = rwGroup v \<and> P (rwState u) \<and> P (rwState v)"
  show "rwID u = rwID v"
  proof (cases "u = w \<or> v = w")
    case True
    with uv g assms(2) have "u = v" by (metis Un_iff empty_set insertE list.simps(15) set_append empty_iff)
    then show ?thesis by simp
  next
    case False
    with uv have "u \<in> set ws" "v \<in> set ws" by simp_all
    then show ?thesis using g by (intro atMostOneD [OF assms(1)]) simp_all
  qed
qed

definition isOpen :: "rollout_state \<Rightarrow> bool" where
  "isOpen s \<longleftrightarrow> s \<in> {Pending, Canary, Verifying, Rolling}"

text \<open>A row update that keeps identity and only closes.\<close>

definition closes :: "(rollout_row \<Rightarrow> rollout_row) \<Rightarrow> bool" where
  "closes f \<longleftrightarrow> (\<forall>w. rwID (f w) = rwID w \<and> rwGroup (f w) = rwGroup w \<and>
     (f w = w \<or> \<not> Terminal (rwState w) \<and> Terminal (rwState (f w))))"

lemma closes_comp: "closes f \<Longrightarrow> closes h \<Longrightarrow> closes (h \<circ> f)"
  unfolding closes_def by (metis comp_apply)

lemma closes_setState: "s \<in> {Superseded, RolledBack} \<Longrightarrow> (\<And>w. P w \<Longrightarrow> \<not> Terminal (rwState w)) \<Longrightarrow>
  closes (\<lambda>w. if P w then setState s now w else w)"
  by (auto simp: closes_def setState_def Terminal_def)

lemma supersede_closes: "\<exists>f. supersedeRows p held now = map f \<and> closes f"
proof -
  let ?f = "\<lambda>w. if rwGroup w = cpGroup p \<and> rwState w = Halted then setState RolledBack now w else w"
  let ?h = "\<lambda>S w. if rwGroup w = cpGroup p \<and> rwState w \<in> S then setState Superseded now w else w"
  have f: "closes ?f" by (rule closes_setState) (auto simp: Terminal_def)
  have h: "closes (?h S)" if "S \<subseteq> {Pending, Canary, Verifying, Rolling, Halted}" for S
    using that by (intro closes_setState) (auto simp: Terminal_def)
  consider "held" | "\<not> held" "cpKind p = KindRollback" | "\<not> held" "cpKind p \<noteq> KindRollback" by blast
  then show ?thesis
  proof cases
    case 1
    then have "supersedeRows p held now = map (?h {Pending})" by (simp add: supersedeRows_def Let_def fun_eq_iff)
    then show ?thesis using h by blast
  next
    case 2
    let ?k = "?h {Pending, Canary, Verifying, Rolling} \<circ> ?f"
    have "supersedeRows p held now = map ?k" using 2 by (simp add: supersedeRows_def Let_def fun_eq_iff)
    moreover have "closes ?k" by (rule closes_comp [OF f h]) simp
    ultimately show ?thesis by (intro exI [of _ ?k] conjI)
  next
    case 3
    let ?k = "?h {Pending, Canary, Verifying, Rolling, Halted}"
    have "supersedeRows p held now = map ?k" using 3 by (simp add: supersedeRows_def Let_def fun_eq_iff)
    moreover have "closes ?k" by (rule h) simp
    ultimately show ?thesis by (intro exI [of _ ?k] conjI)
  qed
qed

lemma supersede_cleared:
  assumes "w \<in> set (supersedeRows p held now ws)" "rwGroup w = cpGroup p"
  shows "rwState w \<noteq> Pending \<and> (held \<or> \<not> isActive (rwState w))"
  using assms by (auto simp: supersedeRows_def Let_def setState_def isActive_def split: if_splits)

lemma closesD:
  assumes "closes f"
  shows "rwID (f w) = rwID w" "rwGroup (f w) = rwGroup w" "isActive (rwState (f w)) \<Longrightarrow> isActive (rwState w)"
    "rwState (f w) = Pending \<Longrightarrow> rwState w = Pending" "Terminal (rwState w) \<Longrightarrow> f w = w"
proof -
  have c: "rwID (f w) = rwID w" "rwGroup (f w) = rwGroup w"
    "f w = w \<or> \<not> Terminal (rwState w) \<and> Terminal (rwState (f w))"
    using assms by (auto simp: closes_def)
  then show "rwID (f w) = rwID w" "rwGroup (f w) = rwGroup w" by auto
  show "isActive (rwState (f w)) \<Longrightarrow> isActive (rwState w)" "rwState (f w) = Pending \<Longrightarrow> rwState w = Pending"
    "Terminal (rwState w) \<Longrightarrow> f w = w"
    using c(3) by (auto simp: isActive_def Terminal_def)
qed

lemma rowsOk_closes:
  assumes "rowsOk ws" "closes f"
  shows "rowsOk (map f ws)"
proof -
  note f = closesD [OF assms(2)]
  have "map (rwID \<circ> f) ws = map rwID ws" by (simp add: f(1,2))
  moreover have "atMostOne isActive (map f ws)"
    by (rule atMostOne_map) (use assms(1) f in \<open>unfold rowsOk_def, blast+\<close>)
  moreover have "atMostOne (\<lambda>s. s = Pending) (map f ws)"
    by (rule atMostOne_map) (use assms(1) f in \<open>unfold rowsOk_def, blast+\<close>)
  ultimately show ?thesis using assms(1) unfolding rowsOk_def map_map by metis
qed

lemma rowsOk_snoc:
  assumes "rowsOk ws" "rwID w \<notin> rwID ` set ws"
    "isActive (rwState w) \<Longrightarrow> \<forall>v \<in> set ws. rwGroup v = rwGroup w \<longrightarrow> \<not> isActive (rwState v)"
    "rwState w = Pending \<Longrightarrow> \<forall>v \<in> set ws. rwGroup v = rwGroup w \<longrightarrow> rwState v \<noteq> Pending"
  shows "rowsOk (ws @ [w])"
  unfolding rowsOk_def
  by (intro conjI atMostOne_snoc) (use assms in \<open>auto simp: rowsOk_def\<close>)

lemma rowsOk_update:
  assumes "rowsOk ws" "w \<in> set ws" "updateRow ws w' = Inr ws'" "rwID w' = rwID w" "rwGroup w' = rwGroup w"
    "rwState w' \<noteq> Pending"
  shows "rowsOk ws'"
proof -
  let ?f = "\<lambda>v. if rwID v = rwID w' then w' else v"
  have ws': "ws' = map ?f ws" and nc: "\<not> activeClash ws w'"
    using assms(3) by (auto simp: updateRow_def split: if_splits)
  have ids: "map (rwID \<circ> ?f) ws = map rwID ws" by (simp add: assms)
  have w: "v = w" if "v \<in> set ws" "rwID v = rwID w" for v
    using that assms(1,2) unfolding rowsOk_def distinct_map inj_on_def by blast
  have fr: "rwID (?f v) = rwID v \<and> rwGroup (?f v) = rwGroup v" if "v \<in> set ws" for v
    using that w [OF that] assms(4,5) by auto
  have "atMostOne isActive (map ?f ws)"
  proof (rule atMostOne_map)
    show "atMostOne isActive ws" using assms(1) by (simp add: rowsOk_def)
    show "isActive (rwState v) \<and> isActive (rwState u)"
      if "v \<in> set ws" "u \<in> set ws" "rwGroup v = rwGroup u" "isActive (rwState (?f v))" "isActive (rwState (?f u))"
        "rwID v \<noteq> rwID u" for v u
      using that nc fr [OF that(1)] fr [OF that(2)] unfolding activeClash_def list_ex_iff
      by (cases "rwID v = rwID w'"; cases "rwID u = rwID w'") auto
  qed (rule fr)
  moreover have "atMostOne (\<lambda>s. s = Pending) (map ?f ws)"
    by (rule atMostOne_map) (use assms(1,6) fr in \<open>auto simp: rowsOk_def split: if_splits\<close>)
  ultimately show ?thesis using assms(1) ids unfolding rowsOk_def ws' map_map by metis
qed

lemma newRow_sel [simp]:
  "rwID (newRow p g strat st i now) = i" "rwGroup (newRow p g strat st i now) = cpGroup p"
  "rwState (newRow p g strat st i now) = st" "roKind (rwRollout (newRow p g strat st i now)) = cpKind p"
  by (simp_all add: newRow_def)

lemma Create_Inr:
  assumes "Create db p i now = Inr (db', j, st)"
  obtains g held strat where "dbGroups db (cpGroup p) = Some g" "createState p g = (held, strat, st)" "j = i"
    "i \<notin> rwID ` set (supersedeRows p held now (dbRollouts db))"
    "dbRollouts db' = supersedeRows p held now (dbRollouts db) @ [newRow p g strat st i now]"
    "dbGroups db' = (if \<not> held \<and> cpKind p = KindRollback then (dbGroups db)(cpGroup p \<mapsto> g\<lparr>grPaused := True\<rparr>) else dbGroups db)"
proof -
  from assms obtain g where g: "dbGroups db (cpGroup p) = Some g" by (auto simp: Create_def split: option.splits)
  obtain held strat st' where c: "createState p g = (held, strat, st')" by (cases "createState p g")
  from assms have "st' = st" "j = i" "i \<notin> rwID ` set (supersedeRows p held now (dbRollouts db))"
    "db' = db\<lparr>dbRollouts := supersedeRows p held now (dbRollouts db) @ [newRow p g strat st i now], dbGroups :=
      (if \<not> held \<and> cpKind p = KindRollback then (dbGroups db)(cpGroup p \<mapsto> g\<lparr>grPaused := True\<rparr>) else dbGroups db)\<rparr>"
    by (auto simp: Create_def g c Let_def list_ex_iff split: if_splits)
  then show thesis using that [OF g] c by simp
qed

lemma createState_active: "createState p g = (held, strat, st) \<Longrightarrow> (isActive st \<longrightarrow> \<not> held) \<and> (st = Pending \<or> st = Rolling)"
  by (auto simp: createState_def Let_def isActive_def split: if_splits)

lemma Create_rowsOk:
  assumes "Create db p i now = Inr (db', j, st)" "rowsOk (dbRollouts db)"
  shows "rowsOk (dbRollouts db')"
proof (rule Create_Inr [OF assms(1)])
  fix g held strat
  let ?ws = "supersedeRows p held now (dbRollouts db)"
  assume w: "createState p g = (held, strat, st)" "i \<notin> rwID ` set ?ws"
    "dbRollouts db' = ?ws @ [newRow p g strat st i now]"
  obtain f where f: "supersedeRows p held now = map f" "closes f" using supersede_closes by blast
  have ok: "rowsOk ?ws" unfolding f(1) by (rule rowsOk_closes [OF assms(2) f(2)])
  have cl: "\<forall>v \<in> set ?ws. rwGroup v = cpGroup p \<longrightarrow> rwState v \<noteq> Pending \<and> (held \<or> \<not> isActive (rwState v))"
    using supersede_cleared by blast
  show ?thesis unfolding w(3)
    by (rule rowsOk_snoc [OF ok]) (use w(2) cl createState_active [OF w(1)] in auto)
qed

lemma driveOne_Inr:
  assumes "driveOne db locked now i = Inr (db', b)"
  shows "db' = db \<or> (\<exists>w g w' ws. w \<in> set (dbRollouts db) \<and> dbGroups db (rwGroup w) = Some g \<and>
     \<not> Terminal (rwState w) \<and> updateRow (dbRollouts db) w' = Inr ws \<and> rwID w' = rwID w \<and> rwGroup w' = rwGroup w \<and>
     rank (rwState w') < rank (rwState w) \<and> dbRollouts db' = ws \<and>
     (dbGroups db' = dbGroups db \<or> rwState w' = Completed \<and> dbGroups db' = (dbGroups db)(rwGroup w \<mapsto> g\<lparr>grStable :=
        Some (max (case grStable g of None \<Rightarrow> 0 | Some v \<Rightarrow> v) (roVersion (rwRollout w')))\<rparr>)))"
proof (cases "db' = db")
  case False
  then obtain w g where w: "find (\<lambda>w. rwID w = i) (dbRollouts db) = Some w" "dbGroups db (rwGroup w) = Some g"
    "\<not> Terminal (rwState w)"
    using assms by (auto simp: driveOne_def split: if_splits option.splits)
  let ?r = "(rwRollout w)\<lparr>roPhase := (case rwPhase w of None \<Rightarrow> zeroTime | Some t \<Rightarrow> t)\<rparr>"
  obtain nxt changed where s: "stepRollout ?r (observeGroup db g ?r now) = (nxt, changed)" by force
  let ?w = "w\<lparr>rwRollout := nxt, rwPhase := Some (roPhase nxt),
    rwFinished := (if roState nxt = Completed then Some now else rwFinished w)\<rparr>"
  from False assms w s obtain ws where u: "changed" "updateRow (dbRollouts db) ?w = Inr ws" "dbRollouts db' = ws"
    "dbGroups db' = (if roState nxt = Completed then (dbGroups db)(roGroup nxt \<mapsto> g\<lparr>grStable :=
       Some (max (case grStable g of None \<Rightarrow> 0 | Some v \<Rightarrow> v) (roVersion nxt))\<rparr>) else dbGroups db)"
    by (auto simp: driveOne_def Let_def bindE_Inr_iff split: if_splits option.splits)
  have "roID nxt = rwID w" "roGroup nxt = rwGroup w" "rank (roState nxt) < rank (rwState w)"
    using step_fixed [of ?r "observeGroup db g ?r now"] step_rank [of ?r "observeGroup db g ?r now"] s u(1) by auto
  moreover have "w \<in> set (dbRollouts db)" using w(1) by (metis find_Some_iff nth_mem)
  ultimately show ?thesis using w u by (intro disjI2 exI [of _ w] exI [of _ g] exI [of _ ?w] exI [of _ ws]) auto
qed simp

lemma driveOne_rowsOk:
  assumes "driveOne db locked now i = Inr (db', b)" "rowsOk (dbRollouts db)"
  shows "rowsOk (dbRollouts db')"
proof (cases "db' = db")
  case False
  then obtain w w' where u: "w \<in> set (dbRollouts db)" "updateRow (dbRollouts db) w' = Inr (dbRollouts db')"
    "rwID w' = rwID w" "rwGroup w' = rwGroup w" "rank (rwState w') < rank (rwState w)"
    using driveOne_Inr [OF assms(1)] by blast
  have "rank (rwState w) \<le> rank Pending" by (cases "rwState w") auto
  then have "rwState w' \<noteq> Pending" using u(5) by auto
  then show ?thesis by (rule rowsOk_update [OF assms(2) u(1-4)])
qed (use assms in simp)

lemma fleet_step_rowsOk: "fleet_step db db' \<Longrightarrow> rowsOk (dbRollouts db) \<Longrightarrow> rowsOk (dbRollouts db')"
  by (induction rule: fleet_step.induct) (auto intro: Create_rowsOk driveOne_rowsOk)

lemma fleet_reach_rowsOk: "fleet_reach db \<Longrightarrow> rowsOk (dbRollouts db)"
proof (induction rule: fleet_reach.induct)
  case (start db)
  then show ?case by (simp add: rowsOk_def atMostOne_def)
qed (rule fleet_step_rowsOk)

definition stableOf :: "rollout_db \<Rightarrow> uuid \<Rightarrow> nat" where
  "stableOf db g = (case dbGroups db g of None \<Rightarrow> 0 | Some row \<Rightarrow> (case grStable row of None \<Rightarrow> 0 | Some v \<Rightarrow> v))"

lemma Create_mono:
  assumes "Create db p i now = Inr (db', j, st)"
  shows "stableOf db g \<le> stableOf db' g"
    "w \<in> set (dbRollouts db) \<Longrightarrow> Terminal (rwState w) \<Longrightarrow> w \<in> set (dbRollouts db')"
proof -
  from Create_Inr [OF assms] obtain row held w' where c: "dbGroups db (cpGroup p) = Some row"
    "dbRollouts db' = supersedeRows p held now (dbRollouts db) @ [w']"
    "dbGroups db' = (if \<not> held \<and> cpKind p = KindRollback then (dbGroups db)(cpGroup p \<mapsto> row\<lparr>grPaused := True\<rparr>) else dbGroups db)"
    by metis
  show "stableOf db g \<le> stableOf db' g" using c(1,3) by (simp add: stableOf_def)
  obtain f where f: "supersedeRows p held now = map f" "closes f" using supersede_closes by blast
  show "w \<in> set (dbRollouts db) \<Longrightarrow> Terminal (rwState w) \<Longrightarrow> w \<in> set (dbRollouts db')"
    unfolding c(2) f(1) using closesD(5) [OF f(2), of w] by (auto intro: rev_image_eqI)
qed

lemma driveOne_mono:
  assumes "driveOne db locked now i = Inr (db', b)" "distinct (map rwID (dbRollouts db))"
  shows "stableOf db g \<le> stableOf db' g"
    "v \<in> set (dbRollouts db) \<Longrightarrow> Terminal (rwState v) \<Longrightarrow> v \<in> set (dbRollouts db')"
proof -
  consider "dbGroups db' = dbGroups db"
    | w row n where "dbGroups db (rwGroup w) = Some row" "dbGroups db' = (dbGroups db)(rwGroup w \<mapsto> row\<lparr>grStable :=
        Some (max (case grStable row of None \<Rightarrow> 0 | Some v \<Rightarrow> v) n)\<rparr>)"
    using driveOne_Inr [OF assms(1)] by metis
  then show "stableOf db g \<le> stableOf db' g"
  proof cases
    case 2
    then show ?thesis by (cases "g = rwGroup w") (simp_all add: stableOf_def)
  qed (simp add: stableOf_def)
  assume v: "v \<in> set (dbRollouts db)" "Terminal (rwState v)"
  show "v \<in> set (dbRollouts db')"
  proof (cases "db' = db")
    case False
    then obtain w w' where u: "w \<in> set (dbRollouts db)" "\<not> Terminal (rwState w)"
      "updateRow (dbRollouts db) w' = Inr (dbRollouts db')" "rwID w' = rwID w"
      using driveOne_Inr [OF assms(1)] by blast
    have "rwID v \<noteq> rwID w" using u(1,2) v assms(2) by (auto simp: distinct_map inj_on_def)
    moreover have "dbRollouts db' = map (\<lambda>v. if rwID v = rwID w then w' else v) (dbRollouts db)"
      using u(3,4) by (simp add: updateRow_def split: if_splits)
    ultimately show ?thesis using v by (auto intro: rev_image_eqI)
  qed (use v in simp)
qed

lemma supersede_ids: "rwID ` set (supersedeRows p held now ws) = rwID ` set ws"
proof -
  obtain f where "supersedeRows p held now = map f" "closes f" using supersede_closes by blast
  then show ?thesis using closesD(1) [of f] by (auto simp: image_image)
qed

text \<open>Example: a canary group whose rollback is rolling when a change is published.\<close>

definition exGroup :: group_row where
  "exGroup = \<lparr>grParams = exParams, grPaused = False, grStable = None\<rparr>"

definition exDB :: rollout_db where
  "exDB = \<lparr>dbRollouts = [], dbGroups = [1 \<mapsto> exGroup\<lparr>grStable := Some 5\<rparr>],
     dbEngines = [\<lparr>erID = 2, erGroup = 1, erName = ''e'', erLabels = Map.empty, erInstance = Some 9, erApplied = 6,
        erRejected = None, erReason = [], erEnrolled = 0, erRevoked = False, erDeleted = False\<rparr>],
     dbHeartbeats = [9 \<mapsto> 100 * second], dbStats = []\<rparr>"

definition exRollback :: create_params where
  "exRollback = \<lparr>cpGroup = 1, cpVersion = 7, cpFrom = Some 6, cpKind = KindRollback, cpImmediate = False\<rparr>"

definition exChange :: create_params where
  "exChange = \<lparr>cpGroup = 1, cpVersion = 8, cpFrom = Some 7, cpKind = KindChange, cpImmediate = False\<rparr>"

definition okDB :: "rollout_error + rollout_db \<times> 'a \<Rightarrow> rollout_db \<Rightarrow> rollout_db" where
  "okDB r d = (case r of Inl _ \<Rightarrow> d | Inr (db, _) \<Rightarrow> db)"

definition exDB1 :: rollout_db where
  "exDB1 = okDB (Create exDB exRollback 11 (100 * second)) exDB"

definition exDB2 :: rollout_db where
  "exDB2 = okDB (Create exDB1 exChange 12 (101 * second)) exDB1"

lemma okDB_Inr: "\<not> isl r \<Longrightarrow> \<exists>x. r = Inr (okDB r d, x)"
  by (cases r) (auto simp: okDB_def)

lemma exDB1_create: "\<exists>st. Create exDB exRollback 11 (100 * second) = Inr (exDB1, 11, st)"
proof -
  have "\<not> isl (Create exDB exRollback 11 (100 * second))" by code_simp
  from okDB_Inr [OF this, of exDB] obtain x where x: "Create exDB exRollback 11 (100 * second) = Inr (exDB1, x)"
    unfolding exDB1_def by blast
  then show ?thesis by (cases x) (auto elim: Create_Inr)
qed

lemma exDB2_create: "\<exists>st. Create exDB1 exChange 12 (101 * second) = Inr (exDB2, 12, st)"
proof -
  have "\<not> isl (Create exDB1 exChange 12 (101 * second))" by code_simp
  from okDB_Inr [OF this, of exDB1] obtain x where x: "Create exDB1 exChange 12 (101 * second) = Inr (exDB2, x)"
    unfolding exDB2_def by blast
  then show ?thesis by (cases x) (auto elim: Create_Inr)
qed

lemma exReachDB: "fleet_reach exDB1" "fleet_reach exDB2"
proof -
  have "fleet_reach exDB" by (rule fleet_reach.start) (simp add: exDB_def)
  then show 1: "fleet_reach exDB1" using exDB1_create by (blast intro: fleet_reach.step fleet_step.created)
  show "fleet_reach exDB2" using 1 exDB2_create by (blast intro: fleet_reach.step fleet_step.created)
qed

section \<open>Properties\<close>

text \<open>C13. In every history of creations, drives, reports and pauses an engine group has at most one
  rollout in \<open>canary\<close>, \<open>verifying\<close> or \<open>rolling\<close> and at most one \<open>pending\<close>, and rollout ids are unique.\<close>

theorem rollout_one_active:
  assumes "fleet_reach db"
  shows "distinct (map rwID (dbRollouts db)) \<and>
    card {rwID w | w. w \<in> set (dbRollouts db) \<and> rwGroup w = g \<and> isActive (rwState w)} \<le> 1 \<and>
    card {rwID w | w. w \<in> set (dbRollouts db) \<and> rwGroup w = g \<and> rwState w = Pending} \<le> 1"
proof -
  have ok: "rowsOk (dbRollouts db)" by (rule fleet_reach_rowsOk [OF assms])
  have one: "card {rwID w | w. w \<in> set (dbRollouts db) \<and> rwGroup w = g \<and> P (rwState w)} \<le> 1"
    if "atMostOne P (dbRollouts db)" for P
  proof -
    let ?S = "{rwID w | w. w \<in> set (dbRollouts db) \<and> rwGroup w = g \<and> P (rwState w)}"
    have "x = y" if xy: "x \<in> ?S" "y \<in> ?S" for x y
    proof -
      from xy obtain v w where "x = rwID v" "y = rwID w" "v \<in> set (dbRollouts db)" "w \<in> set (dbRollouts db)"
        "rwGroup v = g" "rwGroup w = g" "P (rwState v)" "P (rwState w)" by blast
      then show ?thesis using atMostOneD [OF \<open>atMostOne P (dbRollouts db)\<close>, of v w] by simp
    qed
    moreover have "finite ?S" by (rule finite_surj [of "set (dbRollouts db)" _ rwID]) auto
    ultimately show ?thesis unfolding One_nat_def by (subst card_le_Suc0_iff_eq) blast+
  qed
  show ?thesis using ok one unfolding rowsOk_def by blast
qed

theorem rollout_one_active_witness:
  "card {rwID w | w. w \<in> set (dbRollouts exDB2) \<and> rwGroup w = 1 \<and> isActive (rwState w)} \<le> 1"
  using rollout_one_active [OF exReachDB(2), of 1] by blast

text \<open>C33. Creation never trips over the index of active rollouts: in every history, for an existing
  group and an unused id, \<open>Create\<close> succeeds, the new rollout is pending or rolling, and unless the
  change is held by a pause no other rollout of the group is left open.\<close>

theorem create_succeeds:
  assumes "fleet_reach db" "dbGroups db (cpGroup p) = Some g" "i \<notin> rwID ` set (dbRollouts db)"
  shows "\<exists>db' st. Create db p i now = Inr (db', i, st) \<and> st \<in> {Pending, Rolling} \<and>
    (\<not> (cpKind p = KindChange \<and> \<not> cpImmediate p \<and> grPaused g) \<longrightarrow>
      (\<forall>w \<in> set (dbRollouts db'). rwGroup w = cpGroup p \<and> isOpen (rwState w) \<longrightarrow> rwID w = i))"
proof -
  obtain held strat st where c: "createState p g = (held, strat, st)" by (cases "createState p g")
  have held: "held = (cpKind p = KindChange \<and> \<not> cpImmediate p \<and> grPaused g)"
    using c by (auto simp: createState_def Let_def)
  let ?ws = "supersedeRows p held now (dbRollouts db)"
  have cl: "rwState v \<noteq> Pending \<and> (held \<or> \<not> isActive (rwState v))" if "v \<in> set ?ws" "rwGroup v = cpGroup p" for v
    using supersede_cleared that by blast
  have fresh: "i \<notin> rwID ` set ?ws" using assms(3) by (simp add: supersede_ids)
  have "\<not> activeClash ?ws (newRow p g strat st i now)"
    using cl createState_active [OF c] by (auto simp: activeClash_def list_ex_iff)
  then have "Create db p i now = Inr (db\<lparr>dbRollouts := ?ws @ [newRow p g strat st i now], dbGroups :=
      (if \<not> held \<and> cpKind p = KindRollback then (dbGroups db)(cpGroup p \<mapsto> g\<lparr>grPaused := True\<rparr>) else dbGroups db)\<rparr>, i, st)"
    using fresh by (auto simp: Create_def assms(2) c Let_def list_ex_iff)
  moreover have "rwID w = i" if "\<not> held" "w \<in> set (?ws @ [newRow p g strat st i now])" "rwGroup w = cpGroup p" "isOpen (rwState w)" for w
    using that cl by (auto simp: isOpen_def isActive_def)
  ultimately show ?thesis using createState_active [OF c] unfolding held by auto
qed

theorem create_succeeds_witness:
  "\<exists>db' st. Create exDB1 exChange 12 0 = Inr (db', 12, st) \<and> st \<in> {Pending, Rolling}"
proof -
  have "dbGroups exDB1 (cpGroup exChange) = Some (exGroup\<lparr>grStable := Some 5, grPaused := True\<rparr>)"
    "12 \<notin> rwID ` set (dbRollouts exDB1)" by (code_simp, code_simp)
  from create_succeeds [OF exReachDB(1) this, of 0] show ?thesis by blast
qed

text \<open>Nothing is undone: no step of a history lowers a group's stable version or changes a
  completed, rolled-back or superseded rollout.\<close>

lemma rollout_history_monotone:
  assumes "fleet_reach db" "fleet_step db db'"
  shows "stableOf db g \<le> stableOf db' g \<and>
    {w \<in> set (dbRollouts db). Terminal (rwState w)} \<subseteq> set (dbRollouts db')"
  using assms(2)
proof cases
  case (created p i now s)
  then show ?thesis using Create_mono [OF created] by blast
next
  case (driven locked now i b)
  have "distinct (map rwID (dbRollouts db))" using fleet_reach_rowsOk [OF assms(1)] by (simp add: rowsOk_def)
  then show ?thesis using driveOne_mono [OF driven] by blast
qed (auto simp: stableOf_def split: option.splits)


end
