(* ===== verification/Failover_Publication.thy ===== *)
theory Failover_Publication
  imports Failover_Groups Rollout_Store
begin

text \<open>
  Publication of eligibility (\<open>failover/publication.go\<close>): the two transactions of a collector, which
  first withdraws the previous publication and later stores the new evidence, the check of evidence
  against the current inventory, and the reader, which repeats that check. Engine rows and targets
  are those of the rollout tables. Clock readings, the session's collector incarnation, collected
  evidence and what other sessions do between the two transactions are inputs; the digest of a
  snapshot's content is a parameter.
\<close>

section \<open>Tables\<close>

record pub_row =
  prGeneration :: int
  prSource :: uuid
  prMaxAge :: int
  prEpoch :: int
  prSequence :: int
  prEvidence :: "evidence list"
  prCollected :: time
  prExpires :: time

record certificate =
  ceRevoked :: bool
  ceNotBefore :: time
  ceNotAfter :: time

text \<open>The columns of an engine that rollouts do not read: its connection session, whether its last
  apply left an error or is ahead, when it was last seen, and its certificate.\<close>

record engine_extra =
  eeSession :: "uuid option"
  eeBadApply :: bool
  eeLastSeen :: "time option"
  eeCert :: "certificate option"

text \<open>A group snapshot: the message, \<open>None\<close> when it does not decode, and its stored digest.\<close>

record 'snap pub_db =
  pdFailover :: failover_db
  pdFleet :: rollout_db
  pdExtra :: "uuid \<Rightarrow> engine_extra"
  pdSnapshots :: "uuid \<Rightarrow> nat \<Rightarrow> ('snap option \<times> string) option"
  pdCollectors :: "uuid list"
  pdPublications :: "uuid \<rightharpoonup> pub_row"

section \<open>The target of an engine\<close>

datatype 'snap target_result = TargetNotFound | TargetError | TargetIs nat "'snap option"

definition engineRow :: "'snap pub_db \<Rightarrow> uuid \<Rightarrow> engine_row option" where
  "engineRow db i = find (\<lambda>e. erID e = i) (dbEngines (pdFleet db))"

definition TargetFor :: "'snap pub_db \<Rightarrow> uuid \<Rightarrow> 'snap target_result" where
  "TargetFor db i =
     (case engineRow db i of
        None \<Rightarrow> TargetNotFound
      | Some e \<Rightarrow>
          if erDeleted e then TargetNotFound
          else let v = TargetVersion (pdFleet db) e in
          if v = 0 then TargetIs 0 None
          else (case pdSnapshots db (erGroup e) v of
             None \<Rightarrow> TargetNotFound
           | Some (None, _) \<Rightarrow> TargetError
           | Some (Some s, _) \<Rightarrow> TargetIs v (Some s)))"

section \<open>Inventory\<close>

definition noSnapshot :: esnapshot where "noSnapshot = \<lparr>snVersion = 0, snDigest = []\<rparr>"

text \<open>The certificate part of the check.\<close>

definition inspectCert :: "certificate option \<Rightarrow> time \<Rightarrow> evidence \<Rightarrow> evidence" where
  "inspectCert c now e =
     (case c of
        None \<Rightarrow> e\<lparr>evRevoked := True\<rparr>
      | Some c \<Rightarrow>
          let ok = (\<not> ceRevoked c \<and> ceNotBefore c \<le> now \<and> ceNotAfter c > now);
              e = (if ok then e else e\<lparr>evRevoked := True\<rparr>)
          in if ceNotAfter c \<noteq> zeroTime \<and> ceNotAfter c < evValidUntil e
             then e\<lparr>evValidUntil := ceNotAfter c\<rparr> else e)"

text \<open>The target and applied snapshots.\<close>

definition inspectTarget ::
    "('snap \<Rightarrow> string option) \<Rightarrow> 'snap pub_db \<Rightarrow> engine_row \<Rightarrow> time \<Rightarrow> evidence \<Rightarrow> failover_error + evidence option" where
  "inspectTarget digest db row now e =
     (case TargetFor db (evEngine e) of
        TargetNotFound \<Rightarrow> Inr (Some (e\<lparr>evDeleted := True\<rparr>))
      | TargetError \<Rightarrow> Inl FDatabase
      | TargetIs v None \<Rightarrow> Inr (Some (e\<lparr>evTarget := noSnapshot\<rparr>))
      | TargetIs v (Some s) \<Rightarrow>
          (case digest s of
             None \<Rightarrow> Inl FDatabase
           | Some d \<Rightarrow>
               let e = (if snVersion (evTarget e) \<noteq> v \<or> snDigest (evTarget e) \<noteq> d then e\<lparr>evTarget := noSnapshot\<rparr> else e);
                   e = (case pdSnapshots db (erGroup row) (erApplied row) of
                      None \<Rightarrow> e\<lparr>evApplied := noSnapshot\<rparr>
                    | Some (_, sha) \<Rightarrow> if snDigest (evApplied e) \<noteq> sha then e\<lparr>evApplied := noSnapshot\<rparr> else e)
               in Inr (Some (inspectCert (eeCert (pdExtra db (evEngine e))) now e))))"

definition inspectEngine ::
    "('snap \<Rightarrow> string option) \<Rightarrow> 'snap pub_db \<Rightarrow> engine_row \<Rightarrow> time \<Rightarrow> duration \<Rightarrow> evidence \<Rightarrow> failover_error + evidence option" where
  "inspectEngine digest db row now maxAge e =
     (let x = pdExtra db (evEngine e);
          e = e\<lparr>evRevoked := evRevoked e \<or> erRevoked row, evDeleted := evDeleted e \<or> erDeleted row\<rparr> in
      if erGroup row \<noteq> evPolicy e then Inr None
      else
        let e = (case eeLastSeen x of None \<Rightarrow> e | Some t \<Rightarrow> e\<lparr>evValidUntil := t + maxAge\<rparr>);
            seen = (case eeLastSeen x of None \<Rightarrow> False | Some t \<Rightarrow> freshEligibility t now maxAge);
            e = (if erInstance row = None \<or> \<not> seen then e\<lparr>evManagement := (evManagement e)\<lparr>ckOK := False\<rparr>\<rparr> else e);
            e = (if eeBadApply x \<or> erRejected row \<noteq> None \<or> erApplied row = 0 \<or> erApplied row \<noteq> snVersion (evApplied e)
                 then e\<lparr>evApplied := noSnapshot\<rparr> else e)
        in if dbGroups (pdFleet db) (erGroup row) = None then Inl FDatabase
           else inspectTarget digest db row now e)"

definition inspectMember ::
    "uuid_text \<Rightarrow> ('snap \<Rightarrow> string option) \<Rightarrow> 'snap pub_db \<Rightarrow> fgroup \<Rightarrow> time \<Rightarrow> duration \<Rightarrow> evidence \<Rightarrow>
     failover_error + evidence option" where
  "inspectMember u digest db g now maxAge e =
     (let e = e\<lparr>evValidUntil := now\<rparr> in
      if evEngine e \<noteq> fgA g \<and> evEngine e \<noteq> fgB g then Inr None
      else if evSession e = uuidNil \<or> evContainer e = [] \<or> \<not> canonicalUID u (plNodeUID (evPlacement e)) then Inr None
      else case engineRow db (evEngine e) of
        None \<Rightarrow> Inr None
      | Some row \<Rightarrow>
          if eeSession (pdExtra db (evEngine e)) \<noteq> Some (evSession e) then Inr None
          else inspectEngine digest db row now maxAge e)"

fun inspectAll :: "(evidence \<Rightarrow> failover_error + evidence option) \<Rightarrow> evidence list \<Rightarrow> failover_error + evidence list option" where
  "inspectAll f [] = Inr (Some [])"
| "inspectAll f (e # es) = bindE (f e) (\<lambda>r. case r of
     None \<Rightarrow> Inr None
   | Some e' \<Rightarrow> bindE (inspectAll f es) (\<lambda>rs. Inr (map_option (\<lambda>es'. e' # es') rs)))"

definition validateInventory ::
    "uuid_text \<Rightarrow> ('snap \<Rightarrow> string option) \<Rightarrow> 'snap pub_db \<Rightarrow> fgroup \<Rightarrow> evidence list \<Rightarrow> time \<Rightarrow> duration \<Rightarrow>
     failover_error + evidence list" where
  "validateInventory u digest db g input now maxAge =
     (if length input \<noteq> 2 then Inr []
      else bindE (inspectAll (inspectMember u digest db g now maxAge) input)
        (\<lambda>r. Inr (case r of None \<Rightarrow> [] | Some es \<Rightarrow> es)))"

section \<open>The collector's transactions\<close>

definition setSequence :: "failover_db \<Rightarrow> uuid \<Rightarrow> int \<Rightarrow> failover_db" where
  "setSequence f i n = (case fdPublishers f i of
     None \<Rightarrow> f | Some p \<Rightarrow> f\<lparr>fdPublishers := (fdPublishers f)(i \<mapsto> p\<lparr>pbSequence := n\<rparr>)\<rparr>)"

text \<open>First transaction: claim the sequence number and drop the previous publication. \<open>collector\<close> is
  the incarnation of the session's collector role.\<close>

definition beginPublish ::
    "'snap pub_db \<Rightarrow> uuid option \<Rightarrow> ptoken \<Rightarrow> int \<Rightarrow> failover_error + 'snap pub_db \<times> uuid \<times> fgroup" where
  "beginPublish db collector t sequence =
     (case collector of
        None \<Rightarrow> Inl FUnauthorized
      | Some source \<Rightarrow>
          bindE (lockPublisher (pdFailover db) t) (\<lambda>g.
          bindE (requireE (case fdPublishers (pdFailover db) (fgID g) of
              None \<Rightarrow> False | Some p \<Rightarrow> pbSequence p < sequence) FConflict) (\<lambda>_.
          Inr (db\<lparr>pdFailover := setSequence (pdFailover db) (fgID g) sequence,
                 pdPublications := (pdPublications db)(fgID g := None)\<rparr>, source, g))))"

text \<open>A timestamp column keeps microseconds; an interval column keeps whole milliseconds.\<close>

definition micros :: "time \<Rightarrow> time" where "micros t = t div 1000 * 1000"

definition millis :: "duration \<Rightarrow> int" where "millis d = d div 1000000"

record decision =
  dcGroup :: fgroup
  dcEvidence :: "evidence list"
  dcNow :: time

definition publish ::
    "uuid_text \<Rightarrow> ('snap \<Rightarrow> string option) \<Rightarrow> 'snap pub_db \<Rightarrow> uuid option \<Rightarrow> ptoken \<Rightarrow> int \<Rightarrow> uuid \<Rightarrow> time \<Rightarrow> duration \<Rightarrow>
     evidence list \<Rightarrow> time \<Rightarrow> time \<Rightarrow> failover_error + 'snap pub_db \<times> decision" where
  "publish u digest db collector t sequence source start maxAge es now1 now2 =
     (case collector of
        None \<Rightarrow> Inl FUnauthorized
      | Some authorized \<Rightarrow>
          bindE (requireE (authorized = source) FUnauthorized) (\<lambda>_.
          bindE (lockPublisher (pdFailover db) t) (\<lambda>g.
          bindE (requireE (case fdPublishers (pdFailover db) (fgID g) of
              None \<Rightarrow> False | Some p \<Rightarrow> sequence = pbSequence p) FConflict) (\<lambda>_.
          let es = (if freshEligibility start now1 maxAge then es else []) in
          bindE (validateInventory u digest db g es now1 maxAge) (\<lambda>es.
          let es = (if freshEligibility start now2 maxAge then es else []);
              row = \<lparr>prGeneration = fgGeneration g, prSource = source, prMaxAge = millis maxAge, prEpoch = ptEpoch t,
                prSequence = sequence, prEvidence = es, prCollected = micros start, prExpires = micros (start + maxAge)\<rparr>
          in Inr (db\<lparr>pdPublications := (pdPublications db)(fgID g \<mapsto> row),
                    pdFailover := setSequence (pdFailover db) (fgID g) sequence\<rparr>,
                  \<lparr>dcGroup = g, dcEvidence = es, dcNow = now2\<rparr>))))))"

definition noGroup :: fgroup where
  "noGroup = \<lparr>fgID = 0, fgName = [], fgIP = [], fgA = 0, fgB = 0, fgGeneration = 0, fgLifecycle = []\<rparr>"

text \<open>The script of one \<open>CollectAndPublish\<close>.\<close>

record 'snap collect_io =
  ciCollector1 :: "uuid option"
  ciStart :: time
  ciLive1 :: bool
  ciOthers :: "'snap pub_db \<Rightarrow> 'snap pub_db"
  ciEvidence :: "evidence list option"
  ciCollector2 :: "uuid option"
  ciNow1 :: time
  ciNow2 :: time
  ciLive2 :: bool
  ciElapsed :: duration

definition CollectAndPublish ::
    "uuid_text \<Rightarrow> ('snap \<Rightarrow> string option) \<Rightarrow> 'snap collect_io \<Rightarrow> 'snap pub_db \<Rightarrow> ptoken \<Rightarrow> int \<Rightarrow> duration \<Rightarrow>
     'snap pub_db \<times> eligibility \<times> failover_error option" where
  "CollectAndPublish u digest io db t sequence maxAge =
     (let empty = EvaluateEligibility u noGroup [] zeroTime 0 in
      if sequence \<le> 0 \<or> maxAge < 1000000 \<or> maxAge > 30 * 1000000000 then (db, empty, Some FInvalid)
      else case beginPublish db (ciCollector1 io) t sequence of
        Inl e \<Rightarrow> (db, empty, Some e)
      | Inr (db, source, g) \<Rightarrow>
          if \<not> ciLive1 io then (db, empty, Some FContext)
          else
            let es = (case ciEvidence io of None \<Rightarrow> [] | Some es \<Rightarrow> es); db = ciOthers io db in
            (case publish u digest db (ciCollector2 io) t sequence source (ciStart io) maxAge es (ciNow1 io) (ciNow2 io) of
               Inl e \<Rightarrow> (db, empty, Some e)
             | Inr (db, d) \<Rightarrow>
                 if \<not> ciLive2 io then (db, empty, Some FContext)
                 else
                   let now = dcNow d + ciElapsed io;
                       es = (if \<not> now < ciStart io + maxAge \<or> \<not> freshEligibility (ciStart io) now maxAge then [] else dcEvidence d)
                   in (db, EvaluateEligibility u (dcGroup d) es now maxAge,
                       if ciEvidence io = None then Some FContext else None)))"

section \<open>The reader\<close>

text \<open>The publication the reader's join selects: of the group's generation, by the current publisher
  at its current sequence, from a collector that is still provisioned.\<close>

definition currentPublication :: "'snap pub_db \<Rightarrow> fgroup \<Rightarrow> pub_row option" where
  "currentPublication db g =
     (case pdPublications db (fgID g) of
        None \<Rightarrow> None
      | Some r \<Rightarrow>
          (case fdPublishers (pdFailover db) (fgID g) of
             None \<Rightarrow> None
           | Some p \<Rightarrow>
               if pbEpoch p = prEpoch r \<and> pbSequence p = prSequence r \<and> pbGeneration p = prGeneration r \<and>
                 prSource r \<in> set (pdCollectors db) \<and> prGeneration r = fgGeneration g
               then Some r else None))"

definition ReadPublished ::
    "uuid_text \<Rightarrow> ('snap \<Rightarrow> string option) \<Rightarrow> 'snap pub_db \<Rightarrow> uuid \<Rightarrow> time \<Rightarrow> time \<Rightarrow> time \<Rightarrow> bool \<Rightarrow> duration \<Rightarrow>
     eligibility \<times> failover_error option" where
  "ReadPublished u digest db i wall now1 now2 live elapsed =
     (case findGroup (pdFailover db) i of
        None \<Rightarrow> (EvaluateEligibility u noGroup [] zeroTime 0, Some FNotFound)
      | Some g \<Rightarrow>
          let empty = EvaluateEligibility u g [] wall 1000000000 in
          (case currentPublication db g of
             None \<Rightarrow> (empty, None)
           | Some r \<Rightarrow>
               let maxAge = int64 (prMaxAge r * 1000000);
                   stale = (\<lambda>now. \<not> now < prExpires r \<or> \<not> freshEligibility (prCollected r) now maxAge) in
               if stale now1 then (empty, None)
               else (case validateInventory u digest db g (prEvidence r) now1 maxAge of
                  Inl e \<Rightarrow> (empty, Some e)
                | Inr es \<Rightarrow>
                    if stale now2 then (empty, None)
                    else if \<not> live then (empty, Some FContext)
                    else if stale (now2 + elapsed) then (empty, None)
                    else (EvaluateEligibility u g es (now2 + elapsed) maxAge, None))))"

section \<open>Lemmas\<close>

lemma inspectCert_fields [simp]:
  "evEngine (inspectCert c now e) = evEngine e" "evTarget (inspectCert c now e) = evTarget e"
  "evApplied (inspectCert c now e) = evApplied e" "evManagement (inspectCert c now e) = evManagement e"
  "evDeleted (inspectCert c now e) = evDeleted e" "evRevoked e \<Longrightarrow> evRevoked (inspectCert c now e)"
  "evSession (inspectCert c now e) = evSession e"
  by (auto simp: inspectCert_def Let_def split: option.splits)

lemma inspectCert_valid:
  assumes "\<not> evRevoked (inspectCert c now e)" "zeroTime < now"
    "evValidUntil (inspectCert c now e) = zeroTime \<or> later < evValidUntil (inspectCert c now e)"
    "zeroTime < evValidUntil e"
  shows "\<exists>x. c = Some x \<and> \<not> ceRevoked x \<and> ceNotBefore x \<le> now \<and> later < ceNotAfter x \<and> later < evValidUntil e"
  using assms by (auto simp: inspectCert_def Let_def split: option.splits if_splits)

lemma noSnapshot_invalid [simp]: "\<not> validEligibilitySnapshot noSnapshot"
  by (simp add: validEligibilitySnapshot_def noSnapshot_def)

text \<open>Evidence that survives the target check as healthy has applied the engine's target.\<close>

lemma inspectTarget_valid:
  assumes "inspectTarget digest db row now e = Inr (Some e')" "\<not> evDeleted e'"
    "validEligibilitySnapshot (evTarget e')" "evApplied e' = evTarget e'"
  shows "\<exists>v s. TargetFor db (evEngine e) = TargetIs v (Some s) \<and> digest s = Some (snDigest (evTarget e')) \<and>
    snVersion (evTarget e') = v \<and> evApplied e = evApplied e' \<and>
    (\<exists>x. e' = inspectCert (eeCert (pdExtra db (evEngine e))) now x \<and> evRevoked x = evRevoked e \<and>
      evValidUntil x = evValidUntil e \<and> evManagement x = evManagement e \<and> evDeleted x = evDeleted e \<and> evEngine x = evEngine e)"
proof -
  from assms(1,2,3) obtain v s where t: "TargetFor db (evEngine e) = TargetIs v (Some s)"
    by (auto simp: inspectTarget_def split: target_result.splits option.splits)
  from assms(1) t obtain d where d: "digest s = Some d" by (auto simp: inspectTarget_def split: option.splits)
  define e1 where "e1 = (if snVersion (evTarget e) \<noteq> v \<or> snDigest (evTarget e) \<noteq> d then e\<lparr>evTarget := noSnapshot\<rparr> else e)"
  define e2 where "e2 = (case pdSnapshots db (erGroup row) (erApplied row) of None \<Rightarrow> e1\<lparr>evApplied := noSnapshot\<rparr>
    | Some (_, sha) \<Rightarrow> if snDigest (evApplied e1) \<noteq> sha then e1\<lparr>evApplied := noSnapshot\<rparr> else e1)"
  have same: "evEngine e2 = evEngine e" "evRevoked e2 = evRevoked e" "evValidUntil e2 = evValidUntil e"
    "evManagement e2 = evManagement e" "evDeleted e2 = evDeleted e"
    by (auto simp: e2_def e1_def split: option.splits)
  have "inspectTarget digest db row now e = Inr (Some (inspectCert (eeCert (pdExtra db (evEngine e2))) now e2))"
    unfolding e2_def e1_def by (simp only: inspectTarget_def Let_def t d target_result.case option.case)
  then have e': "e' = inspectCert (eeCert (pdExtra db (evEngine e))) now e2" using assms(1) same(1) by simp
  have tg: "validEligibilitySnapshot (evTarget e2)" "evApplied e2 = evTarget e2" using assms(3,4) by (simp_all add: e')
  have "e1 = e \<or> evTarget e1 = noSnapshot" "evTarget e2 = evTarget e1" "e2 = e1 \<or> evApplied e2 = noSnapshot"
    by (simp_all add: e1_def e2_def split: option.splits prod.splits)
  then have e: "e1 = e" "e2 = e1" using tg noSnapshot_invalid by metis+
  have "\<not> (snVersion (evTarget e) \<noteq> v \<or> snDigest (evTarget e) \<noteq> d)"
  proof
    assume "snVersion (evTarget e) \<noteq> v \<or> snDigest (evTarget e) \<noteq> d"
    then have "evTarget e1 = noSnapshot" by (simp add: e1_def)
    then show False using tg(1) e by simp
  qed
  then have "snVersion (evTarget e) = v \<and> snDigest (evTarget e) = d" by simp
  moreover have "e2 = e" using e by simp
  ultimately show ?thesis using t d e' \<open>e2 = e\<close> by auto
qed

text \<open>What the check leaves to an eligible engine, as a predicate on its current rows.\<close>

definition servesNow :: "'snap pub_db \<Rightarrow> uuid \<Rightarrow> time \<Rightarrow> duration \<Rightarrow> time \<Rightarrow> bool" where
  "servesNow db i now maxAge later \<longleftrightarrow> (\<exists>row c t v s.
     engineRow db i = Some row \<and> \<not> erRevoked row \<and> \<not> erDeleted row \<and> erInstance row \<noteq> None \<and> erRejected row = None \<and>
     eeLastSeen (pdExtra db i) = Some t \<and> freshEligibility t now maxAge \<and> later < t + maxAge \<and>
     eeCert (pdExtra db i) = Some c \<and> \<not> ceRevoked c \<and> later < ceNotAfter c \<and>
     TargetFor db i = TargetIs v (Some s) \<and> 0 < v \<and> erApplied row = v)"

lemma inspectEngine_valid:
  assumes r: "inspectEngine digest db row now maxAge e = Inr (Some e')" "engineRow db (evEngine e) = Some row"
    and h: "\<not> evRevoked e'" "\<not> evDeleted e'" "ckOK (evManagement e')" "validEligibilitySnapshot (evTarget e')"
      "evApplied e' = evTarget e'" "evValidUntil e' = zeroTime \<or> later < evValidUntil e'"
    and b: "zeroTime < now" "0 < maxAge" "maxAge \<le> 30000000000"
  shows "servesNow db (evEngine e) now maxAge later \<and> evEngine e' = evEngine e"
proof -
  define x where "x = pdExtra db (evEngine e)"
  define e1 where "e1 = (let e = e\<lparr>evRevoked := evRevoked e \<or> erRevoked row, evDeleted := evDeleted e \<or> erDeleted row\<rparr>
    in case eeLastSeen x of None \<Rightarrow> e | Some t \<Rightarrow> e\<lparr>evValidUntil := t + maxAge\<rparr>)"
  define seen where "seen = (case eeLastSeen x of None \<Rightarrow> False | Some t \<Rightarrow> freshEligibility t now maxAge)"
  define e2 where "e2 = (if erInstance row = None \<or> \<not> seen then e1\<lparr>evManagement := (evManagement e1)\<lparr>ckOK := False\<rparr>\<rparr> else e1)"
  define e3 where "e3 = (if eeBadApply x \<or> erRejected row \<noteq> None \<or> erApplied row = 0 \<or> erApplied row \<noteq> snVersion (evApplied e2)
    then e2\<lparr>evApplied := noSnapshot\<rparr> else e2)"
  let ?e = "e\<lparr>evRevoked := evRevoked e \<or> erRevoked row, evDeleted := evDeleted e \<or> erDeleted row\<rparr>"
  have "inspectEngine digest db row now maxAge e = (if erGroup row \<noteq> evPolicy ?e then Inr None
    else if dbGroups (pdFleet db) (erGroup row) = None then Inl FDatabase else inspectTarget digest db row now e3)"
    unfolding inspectEngine_def e3_def e2_def e1_def seen_def x_def Let_def by (rule refl)
  then have t: "inspectTarget digest db row now e3 = Inr (Some e')" using r(1) by (metis sum.distinct(1) sum.inject(2) option.distinct(1))
  have en: "evEngine e3 = evEngine e" by (simp add: e3_def e2_def e1_def Let_def split: option.splits)
  from inspectTarget_valid [OF t h(2,4,5)] obtain v s y where
    v: "TargetFor db (evEngine e) = TargetIs v (Some s)" "snVersion (evTarget e') = v" "evApplied e3 = evApplied e'"
    and y: "e' = inspectCert (eeCert x) now y" "evRevoked y = evRevoked e3" "evValidUntil y = evValidUntil e3"
      "evManagement y = evManagement e3" "evDeleted y = evDeleted e3" "evEngine y = evEngine e3"
    unfolding en x_def by blast
  have ap: "evApplied e3 \<noteq> noSnapshot" using v(3) h(4,5) noSnapshot_invalid by metis
  have a: "\<not> eeBadApply x \<and> erRejected row = None \<and> erApplied row \<noteq> 0 \<and> erApplied row = snVersion (evApplied e2) \<and> e3 = e2"
    using ap by (auto simp: e3_def split: if_splits)
  have m: "ckOK (evManagement e2)" using h(3) y(1,4) a by simp
  then have m2: "erInstance row \<noteq> None \<and> seen \<and> e2 = e1" by (auto simp: e2_def split: if_splits)
  then obtain ls where ls: "eeLastSeen x = Some ls" "freshEligibility ls now maxAge" by (auto simp: seen_def split: option.splits)
  have f: "evRevoked e3 = (evRevoked e \<or> erRevoked row)" "evDeleted e3 = (evDeleted e \<or> erDeleted row)"
    "evValidUntil e3 = ls + maxAge" using a m2 ls by (simp_all add: e1_def Let_def)
  have "\<not> evRevoked e3" using h(1) y(1,2) inspectCert_fields(6) by metis
  moreover have "\<not> evDeleted e3" using h(2) y(1,5) by simp
  moreover have pos: "zeroTime < evValidUntil y"
    using ls(2) b f(3) y(3) by (auto simp: freshEligibility_def timeSub_def)
  from inspectCert_valid [of "eeCert x" now y later] h(1,6) y(1) b(1) pos obtain c where
    "eeCert x = Some c" "\<not> ceRevoked c" "later < ceNotAfter c" "later < evValidUntil y" by auto
  moreover have "erApplied row = v" using a v(2,3) h(5) by simp
  ultimately show ?thesis using r(2) v(1) a m2 ls f y(1,3,6) en unfolding servesNow_def x_def by auto
qed

lemma inspectMember_valid:
  assumes "inspectMember u digest db g now maxAge e = Inr (Some e')"
    "\<not> evRevoked e'" "\<not> evDeleted e'" "ckOK (evManagement e')" "validEligibilitySnapshot (evTarget e')"
    "evApplied e' = evTarget e'" "evValidUntil e' = zeroTime \<or> later < evValidUntil e'"
    "zeroTime < now" "0 < maxAge" "maxAge \<le> 30000000000"
  shows "servesNow db (evEngine e) now maxAge later \<and> evEngine e' = evEngine e"
proof -
  from assms(1) obtain row where "engineRow db (evEngine e) = Some row"
    "inspectEngine digest db row now maxAge (e\<lparr>evValidUntil := now\<rparr>) = Inr (Some e')"
    by (auto simp: inspectMember_def Let_def split: if_splits option.splits)
  then show ?thesis using inspectEngine_valid [of digest db row now maxAge "e\<lparr>evValidUntil := now\<rparr>" e' later] assms(2-)
    by simp
qed

lemma inspectAll_list: "inspectAll f es = Inr (Some es') \<Longrightarrow> list_all2 (\<lambda>e e'. f e = Inr (Some e')) es es'"
  by (induction es arbitrary: es') (auto simp: bindE_Inr_iff split: option.splits)

lemma validateInventory_source:
  assumes "validateInventory u digest db g es now maxAge = Inr es'" "e' \<in> set es'"
  shows "\<exists>e. inspectMember u digest db g now maxAge e = Inr (Some e')"
proof -
  from assms obtain l where "inspectAll (inspectMember u digest db g now maxAge) es = Inr (Some es')"
    by (auto simp: validateInventory_def bindE_Inr_iff split: if_splits option.splits)
  from inspectAll_list [OF this] assms(2) show ?thesis
    by (auto simp: list_all2_conv_all_nth in_set_conv_nth)
qed

lemma empty_pool: "elEligible (EvaluateEligibility u g [] now maxAge) = []"
proof -
  have "i \<notin> set (elEligible (EvaluateEligibility u g [] now maxAge))" for i by (simp add: eligibility_spec)
  then show ?thesis by (metis all_not_in_conv set_empty)
qed

lemma beginPublish_Inr:
  assumes "beginPublish db c t n = Inr (db', src, g)"
  shows "lockPublisher (pdFailover db) t = Inr g" "fgID g = ptGroup t"
    "db' = db\<lparr>pdFailover := setSequence (pdFailover db) (fgID g) n, pdPublications := (pdPublications db)(fgID g := None)\<rparr>"
    "\<exists>p. fdPublishers (pdFailover db') (fgID g) = Some p \<and> pbSequence p = n"
proof -
  from assms show l: "lockPublisher (pdFailover db) t = Inr g" and
    d: "db' = db\<lparr>pdFailover := setSequence (pdFailover db) (fgID g) n, pdPublications := (pdPublications db)(fgID g := None)\<rparr>"
    by (auto simp: beginPublish_def bindE_Inr_iff requireE_Inr_iff split: option.splits)
  from assms show "\<exists>p. fdPublishers (pdFailover db') (fgID g) = Some p \<and> pbSequence p = n"
    unfolding d by (auto simp: beginPublish_def setSequence_def bindE_Inr_iff requireE_Inr_iff split: option.splits)
  show "fgID g = ptGroup t" using lockPublisher_Inr [OF l] lockGroup_Inr by blast
qed

lemma publish_Inr:
  assumes "publish u digest db c t n src start maxAge es now1 now2 = Inr r"
  obtains g p where "lockPublisher (pdFailover db) t = Inr g" "fdPublishers (pdFailover db) (fgID g) = Some p" "n = pbSequence p"
  using assms
  by (auto simp: publish_def Let_def bindE_Inr_iff requireE_Inr_iff split: option.splits if_splits)

text \<open>Example: two engines of policy group 7 at version 4.\<close>

definition exDigest :: "unit \<Rightarrow> string option" where "exDigest s = Some (replicate 64 CHR ''a'')"

definition exMember :: "uuid \<Rightarrow> engine_row" where
  "exMember i = \<lparr>erID = i, erGroup = 7, erName = ''e'', erLabels = Map.empty, erInstance = Some 9, erApplied = 4,
     erRejected = None, erReason = [], erEnrolled = 0, erRevoked = False, erDeleted = False\<rparr>"

definition exEvidence :: "uuid \<Rightarrow> string \<Rightarrow> string \<Rightarrow> evidence" where
  "exEvidence i pod node = (exSeen i pod node True)\<lparr>evSession := i + 40, evContainer := ''c''\<rparr>"

definition exPubDB :: "unit pub_db" where
  "exPubDB = \<lparr>pdFailover = exFo0\<lparr>fdGroups := [exFGroup], fdPublishers := [1 \<mapsto> \<lparr>pbEpoch = 2, pbOwner = 5, pbSession = 62,
        pbGeneration = 3, pbSequence = 4\<rparr>]\<rparr>,
     pdFleet = \<lparr>dbRollouts = [], dbGroups = [7 \<mapsto> exGroup\<lparr>grStable := Some 4\<rparr>], dbEngines = [exMember 11, exMember 12],
        dbHeartbeats = Map.empty, dbStats = []\<rparr>,
     pdExtra = (\<lambda>i. \<lparr>eeSession = Some (i + 40), eeBadApply = False, eeLastSeen = Some 90,
        eeCert = Some \<lparr>ceRevoked = False, ceNotBefore = 0, ceNotAfter = 1000000\<rparr>\<rparr>),
     pdSnapshots = (\<lambda>g v. if g = 7 \<and> v = 4 then Some (Some (), replicate 64 CHR ''a'') else None),
     pdCollectors = [77],
     pdPublications = [1 \<mapsto> \<lparr>prGeneration = 3, prSource = 77, prMaxAge = 1, prEpoch = 2, prSequence = 4,
        prEvidence = [exEvidence 11 ''21'' ''31'', exEvidence 12 ''22'' ''32''], prCollected = 80, prExpires = 500000\<rparr>]\<rparr>"

section \<open>Properties\<close>

text \<open>C7. The reader never trusts stored evidence alone: an engine is in the pool that \<open>ReadPublished\<close>
  returns only if the group is active and the publication is the current publisher's at its current
  generation, epoch and sequence, from a collector still provisioned, and unexpired; and if the engine's
  own rows say so at the time of reading: connected and recently seen, neither revoked nor deleted, no
  rejected version, a certificate that is valid beyond that time, and as applied version the very version
  the rollout tables give it as target.\<close>

theorem read_published_sound:
  assumes "e \<in> set (elEligible (fst (ReadPublished u digest db i wall now1 now2 live elapsed)))" "zeroTime < now1"
    "\<forall>r. pdPublications db i = Some r \<longrightarrow> 1 \<le> prMaxAge r \<and> prMaxAge r \<le> 30000"
  shows "\<exists>g r. findGroup (pdFailover db) i = Some g \<and> fgLifecycle g \<in> {[], ''active''} \<and> e \<in> {fgA g, fgB g} \<and>
    currentPublication db g = Some r \<and> now2 + elapsed < prExpires r \<and>
    servesNow db e now1 (prMaxAge r * 1000000) (now2 + elapsed)"
proof -
  from assms(1) obtain g where g: "findGroup (pdFailover db) i = Some g"
    by (auto simp: ReadPublished_def empty_pool split: option.splits)
  from assms(1) g obtain r where r: "currentPublication db g = Some r"
    by (cases "currentPublication db g") (auto simp: ReadPublished_def empty_pool)
  let ?age = "int64 (prMaxAge r * 1000000)" and ?now = "now2 + elapsed"
  from assms(1) g r obtain es where v: "validateInventory u digest db g (prEvidence r) now1 ?age = Inr es"
    "?now < prExpires r" "e \<in> set (elEligible (EvaluateEligibility u g es ?now ?age))"
    by (auto simp: ReadPublished_def Let_def empty_pool split: if_splits sum.splits)
  have "fgID g = i" using g by (auto simp: findGroup_def find_Some_iff)
  then have "pdPublications db i = Some r" using r by (auto simp: currentPublication_def split: option.splits if_splits)
  then have age: "?age = prMaxAge r * 1000000" "0 < ?age" "?age \<le> 30000000000" using assms(3) by (auto simp: int64_id)
  from v(3) obtain a b where ab: "es = [a, b] \<or> es = [b, a]" "evEngine a = fgA g" "evEngine b = fgB g"
    "provenPair u g a b ?now ?age" "e = fgA g \<and> healthyMember a ?now ?age \<or> e = fgB g \<and> healthyMember b ?now ?age"
    unfolding eligibility_spec by blast
  then have "a \<in> set es" "b \<in> set es" by auto
  then obtain m where m: "m \<in> set es" "evEngine m = e" "healthyMember m ?now ?age" using ab(2,3,5) by metis
  from validateInventory_source [OF v(1) m(1)] obtain x where
    x: "inspectMember u digest db g now1 ?age x = Inr (Some m)" by blast
  have "servesNow db (evEngine x) now1 ?age ?now \<and> evEngine m = evEngine x"
    using m(3) by (intro inspectMember_valid [OF x _ _ _ _ _ _ assms(2) age(2,3)]) (auto simp: healthyMember_def)
  then have "servesNow db e now1 (prMaxAge r * 1000000) ?now" using m(2) age(1) by simp
  moreover have "fgLifecycle g \<in> {[], ''active''}" using ab(4) by (simp add: provenPair_def)
  moreover have "e \<in> {fgA g, fgB g}" using ab(5) by auto
  ultimately show ?thesis using g r v(2) by blast
qed

theorem read_published_sound_witness:
  "\<exists>r. currentPublication exPubDB exFGroup = Some r \<and> servesNow exPubDB 11 100 (prMaxAge r * 1000000) 120"
proof -
  have "11 \<in> set (elEligible (fst (ReadPublished exUUID exDigest exPubDB 1 100 100 110 True 10)))" by code_simp
  moreover have "zeroTime < 100" by (simp add: zeroTime_def)
  moreover have "\<forall>r. pdPublications exPubDB 1 = Some r \<longrightarrow> 1 \<le> prMaxAge r \<and> prMaxAge r \<le> 30000" by (simp add: exPubDB_def)
  ultimately obtain g r where "findGroup (pdFailover exPubDB) 1 = Some g" "currentPublication exPubDB g = Some r"
    "servesNow exPubDB 11 100 (prMaxAge r * 1000000) (110 + 10)"
    using read_published_sound [of 11 exUUID exDigest exPubDB 1 100 100 110 True 10] by blast
  moreover have "findGroup (pdFailover exPubDB) 1 = Some exFGroup" by code_simp
  ultimately show ?thesis by auto
qed

text \<open>C32. A collector that was overtaken publishes nothing: once a collector has begun with a sequence
  number, the group's pool reads empty until it publishes, and every publication of that group with
  another sequence number is refused.\<close>

theorem begin_publish_fences:
  assumes "beginPublish db c t n = Inr (db', src, g)"
  shows "elEligible (fst (ReadPublished u digest db' (ptGroup t) wall now1 now2 live elapsed)) = [] \<and>
    (m \<noteq> n \<and> ptGroup t' = ptGroup t \<longrightarrow> isl (publish u digest db' c' t' m src' start maxAge es now3 now4))"
proof
  note b = beginPublish_Inr [OF assms]
  have none: "currentPublication db' h = None" if "findGroup (pdFailover db') (ptGroup t) = Some h" for h
    using that b(2) by (auto simp: currentPublication_def findGroup_def find_Some_iff b(3))
  show "elEligible (fst (ReadPublished u digest db' (ptGroup t) wall now1 now2 live elapsed)) = []"
    using none by (auto simp: ReadPublished_def empty_pool Let_def split: option.splits)
  show "m \<noteq> n \<and> ptGroup t' = ptGroup t \<longrightarrow> isl (publish u digest db' c' t' m src' start maxAge es now3 now4)"
  proof (intro impI, rule ccontr)
    assume h: "m \<noteq> n \<and> ptGroup t' = ptGroup t" "\<not> isl (publish u digest db' c' t' m src' start maxAge es now3 now4)"
    then obtain r where "publish u digest db' c' t' m src' start maxAge es now3 now4 = Inr r"
      by (cases "publish u digest db' c' t' m src' start maxAge es now3 now4") auto
    from this obtain g2 p where p: "lockPublisher (pdFailover db') t' = Inr g2"
      "fdPublishers (pdFailover db') (fgID g2) = Some p" "m = pbSequence p" by (rule publish_Inr)
    have "fgID g2 = fgID g" using lockPublisher_Inr [OF p(1)] lockGroup_Inr b(2) h(1) by metis
    then show False using p(2,3) b(4) h(1) by auto
  qed
qed

theorem begin_publish_fences_witness:
  "isl (publish exUUID exDigest (fst (projr (beginPublish exPubDB (Some 77) \<lparr>ptGroup = 1, ptGeneration = 3, ptEpoch = 2, ptOwner = 5, ptSession = 62\<rparr> 6)))
     (Some 77) \<lparr>ptGroup = 1, ptGeneration = 3, ptEpoch = 2, ptOwner = 5, ptSession = 62\<rparr> 5 77 80 1000000 [] 100 110)"
proof -
  let ?t = "\<lparr>ptGroup = 1, ptGeneration = 3, ptEpoch = 2, ptOwner = 5, ptSession = 62\<rparr>"
  let ?b = "beginPublish exPubDB (Some 77) ?t 6"
  have l: "lockPublisher (pdFailover exPubDB) ?t = Inr exFGroup"
    by (simp add: lockPublisher_def lockGroup_def GetGroup_def findGroup_def exPubDB_def exFGroup_def uuidNil_def
      bindE_def requireE_def)
  have "\<not> isl ?b" unfolding beginPublish_def using l
    by (simp add: bindE_def requireE_def exPubDB_def exFGroup_def)
  then have "?b = Inr (fst (projr ?b), fst (snd (projr ?b)), snd (snd (projr ?b)))" by (cases ?b) auto
  note f = begin_publish_fences [OF this, where m = 5 and t' = ?t]
  show ?thesis by (rule f [THEN conjunct2, THEN mp]) simp
qed

end
