(* ===== verification/Spec2Isabelle.thy ===== *)
theory Spec2Isabelle
  imports Engine_Nzf Update_Props Lease_System Lease_Driver Failover_Publication Rollout_Store
begin

text \<open>
  Nexora is a DNS server with a management plane in Go (\<open>mgmt/\<close>), an engine in Rust (\<open>engine/\<close>) and a
  failover gate (\<open>deploy/failover/\<close>). The management plane stores hosted zones in PostgreSQL, writes
  each served version of a zone as an image or a delta in the binary format NZF1, rolls
  configuration versions out to groups of engines, and decides which engine of a failover pair may
  serve. The engines load the images; the gate lets one host at a time forward an address.

  This development models these parts as executable functions and proves what makes them correct.
  Fallible functions return a sum, with \<open>Inl\<close> an error and \<open>Inr\<close> a value; a database transaction
  is a function from a record of tables to an error, which leaves them unchanged, or to new tables;
  machine integers are words of their width, unbounded counters are \<open>int\<close> or \<open>nat\<close>; octets are
  8-bit words. Definitions keep the names of the source where these are free.

  \<^bold>\<open>Shared ground.\<close> \<open>Nexora_Prelude\<close> has the machine types, the sequencing of fallible functions,
  big-endian integers and the locale \<open>canonical_codec\<close>, the contract of an encoder and a decoder.
  \<open>Go_Text\<close>, \<open>Go_Strings\<close> and \<open>Go_Num\<close> model what the sources use of the Go library: UTF-8 and case
  folding, strings and number parsing, times, durations and floating-point numbers.

  \<^bold>\<open>Zone images.\<close> \<open>Nzf_Format\<close> translates \<open>mgmt/internal/nzf/format.go\<close> and \<open>canon.go\<close>: names,
  records, images and deltas with their encoders and \<open>Decode\<close>. \<open>Nzf_Names\<close> reads wire names as
  label lists, \<open>Nzf_Canon\<close> computes the canonical order, \<open>Nzf_Codec\<close> characterises every reader by
  the bytes it accepts, and \<open>Nzf_Encode\<close> interprets the codec contract for images and deltas: round
  trips and exactly what is accepted. \<open>Nzf_Laws\<close> shows that canonical keys order as RFC 4034 does,
  and what \<open>within\<close> decides. \<open>Engine_Names\<close> and \<open>Engine_Nzf\<close> translate
  \<open>engine/src/authoritative/name.rs\<close> and \<open>nzf.rs\<close> and relate the two languages: keys agree, an image
  the management plane writes loads in the engine when its records lie in the zone, and the engine
  accepts nothing \<open>Decode\<close> refuses.

  \<^bold>\<open>Zone versions.\<close> \<open>Serials\<close> is \<open>zone/serial.go\<close>. \<open>Zone_Build\<close> is \<open>zone/build.go\<close>: \<open>Rebuild\<close> with its
  full and its edit path, images, deltas, the journal and its pruning, and \<open>loadServed\<close>. Its state is
  \<open>zone_db\<close> (images, journal, blobs) and \<open>zone_row\<close>; the DNS library, the signer, ZONEMD, zstd and
  SHA-256 are the record \<open>build_env\<close>. \<open>Zone_Store\<close> proves the invariant of the store and that it
  refines one served set; \<open>Zone_Props\<close> has the properties.

  \<^bold>\<open>Zone records.\<close> \<open>Zone_Rules\<close> is the rules of \<open>zone/validate.go\<close> and \<open>checkOwners\<close> of
  \<open>zone/service.go\<close>, which checks an edit without reading the whole zone. \<open>Zone_Records\<close> is the rest
  of \<open>zone/service.go\<close> that changes records, with \<open>nzf/rr.go\<close>: its state \<open>hosted\<close> is a zone with its
  rows and its version store, and the DNS library is the record \<open>dns_lib\<close>. \<open>Zone_Edits\<close> states the
  contract of a change of rows as the locale \<open>row_change\<close>, interprets it for create, update and
  delete, and shows that edits keep the rules. \<open>Zone_Serving\<close> composes edit, rebuild and load: what
  is stored is what is served.

  \<^bold>\<open>Dynamic updates.\<close> \<open>Dyn_Update\<close> is \<open>dynupdate/apply.go\<close>: TSIG and key policy, prerequisites, prescan,
  the update section on an in-memory state, the difference to the stored rows and the mutation.
  \<open>Update_State\<close> has the invariant of the state, \<open>Update_Diff\<close> reads the table as a map from record
  identities to TTLs and shows what the difference does to it, \<open>Update_Apply\<close> gives the prerequisites
  their meaning, and \<open>Update_Props\<close> has the properties.

  \<^bold>\<open>Rollouts.\<close> \<open>Rollout\<close> is the state machine of \<open>rollout/rollout.go\<close>; \<open>Rollout_Store\<close> is creation, the
  controller and the target of an engine (\<open>rollout/create.go\<close>, \<open>controller.go\<close>, \<open>fleet/engines.go\<close>).
  A version reaches the fleet only through verified canaries, every rollout closes under fair
  conditions, and a group has one active rollout.

  \<^bold>\<open>Failover.\<close> \<open>Failover_Eligibility\<close>, \<open>Failover_Groups\<close> and \<open>Failover_Publication\<close> are \<open>mgmt/internal/failover\<close>
  with the triggers of its migration: the decision who may serve, exclusive reservations (the locale
  \<open>reservations\<close>), publisher tokens, verified withdrawal, and that a reader accepts published
  evidence only when it is current. \<open>Lease_Controller\<close>, \<open>Lease_System\<close> and \<open>Lease_Driver\<close> are
  \<open>deploy/failover/lease\<close>: one step of a controller, any interleaving of several controllers with
  lost replies and late effects, where two gates never forward at once, and the gate's line protocol.

  \<^bold>\<open>Loops and bounds.\<close> No definition uses fuel. Loops over octets are functions with a termination
  proof by the distance to the end of the buffer. The walk to the apex in \<open>Zone_Rules\<close> follows
  \<open>dns.NextLabel\<close>, a parameter, so it is a partial function, where not returning is \<open>None\<close>; that it
  returns is a property, under the law that the library moves forward.

  \<^bold>\<open>What is assumed of code outside the repository.\<close> Each law is a named predicate and has a concrete
  instance: \<open>env_ok\<close> (zstd inverts, and SHA-256 is idealised as free of collisions), \<open>label_law\<close> and \<open>plain_law\<close> (label walking),
  \<open>type_law\<close> (type names read back), \<open>wire_law\<close>, \<open>pack_law\<close> and \<open>readsBack\<close> (packing and unpacking of
  records). SHA-256 in the unique index of \<open>zone_records\<close> is read as comparing RDATA.

  \<^bold>\<open>Not modelled.\<close> Creating, updating and deleting zones as a whole, zone import and transfers, DNSSEC
  signing and ZONEMD digests, the parsers of zone files and block lists, permissions, catalog zones,
  the HTTP and gRPC front ends, telemetry, AI features, the Kubernetes operator, and the resolver of
  the engine. Most of these are input and output or calls of libraries; the parsers, the permission
  table and the catalog codec are pure code that this development does not reach yet. Failures of
  the database other than constraint violations, concurrency inside a transaction, log lines and
  audit entries have no counterpart.
\<close>

end
